(* ===== verification/Js_Prelude.thy ===== *)
theory Js_Prelude
  imports Main "HOL-Library.Word" "HOL-Library.List_Lexorder" "HOL-Library.Sublist"
begin

text \<open>
  The types and the combinators every component uses: strings of UTF-16 code units, thrown
  values, promises, and the few list lemmas that several components need.
\<close>

section \<open>Collections of facts\<close>

named_theorems promise_simps \<open>equations that run an awaited promise\<close>

named_theorems consumes \<open>parsers return a strictly shorter rest\<close>

section \<open>Strings and bytes\<close>

text \<open>
  A JavaScript string is a sequence of unsigned 16-bit code units, and the relational operators
  compare two strings code unit by code unit. Words are ordered as unsigned numbers, so the
  lexicographic order of HOL-Library.List_Lexorder is the source's \<open><\<close> on strings.
\<close>

type_synonym code_unit = "16 word"

type_synonym js_string = "code_unit list"

type_synonym byte = "8 word"

text \<open>A string literal of the source; the characters of the source's literals are ASCII.\<close>

definition js :: "string \<Rightarrow> js_string" where
  "js s = map (\<lambda>c. word_of_nat (of_char c)) s"

lemma js_Nil [simp]: "js [] = []"
  by (simp add: js_def)

lemma js_Cons [simp]: "js (c # cs) = word_of_nat (of_char c) # js cs"
  by (simp add: js_def)

lemma js_append: "js (s @ t) = js s @ js t"
  by (simp add: js_def)

lemma length_js [simp]: "length (js s) = length s"
  by (simp add: js_def)

lemma code_unit_of_char_inject:
  "(word_of_nat (of_char c) :: code_unit) = word_of_nat (of_char d) \<longleftrightarrow> c = d"
proof
  assume "(word_of_nat (of_char c) :: code_unit) = word_of_nat (of_char d)"
  then have "unat (word_of_nat (of_char c) :: code_unit) = unat (word_of_nat (of_char d) :: code_unit)"
    by simp
  moreover have "unat (word_of_nat (of_char x) :: code_unit) = of_char x" for x :: char
  proof -
    have "(of_char x :: nat) < 65536"
      using mod_less_divisor [of 256 "of_char x :: nat"] of_char_mod_256 [of x, where 'a = nat]
      by linarith
    then show ?thesis by (simp add: unat_of_nat)
  qed
  ultimately show "c = d" by simp
qed simp

lemma js_inject: "js s = js t \<longleftrightarrow> s = t"
  unfolding js_def
  by (subst inj_map_eq_map) (auto simp: inj_def code_unit_of_char_inject)

section \<open>Thrown values and promises\<close>

text \<open>
  The values the modelled code can see thrown: the built-in errors by name, the DOMException
  that \<open>atob\<close> throws, any other host error, and the string that \<open>Result.unwrap\<close> throws.
\<close>

datatype js_error =
    TypeError
  | SyntaxError
  | InvalidCharacterError
  | HostError js_string
  | ThrownString js_string

type_synonym 'a completion = "js_error + 'a"

text \<open>
  What an asynchronous call has come to: still pending (for ever, when the model says so),
  rejected, or fulfilled.
\<close>

datatype 'a promise = Pending | Rejected js_error | Fulfilled 'a

fun await :: "'a promise \<Rightarrow> ('a \<Rightarrow> 'b promise) \<Rightarrow> 'b promise" where
  "await Pending f = Pending"
| "await (Rejected e) f = Rejected e"
| "await (Fulfilled x) f = f x"

fun settle :: "'a completion \<Rightarrow> 'a promise" where
  "settle (Inl e) = Rejected e"
| "settle (Inr x) = Fulfilled x"

fun bindC :: "'a completion \<Rightarrow> ('a \<Rightarrow> 'b completion) \<Rightarrow> 'b completion" where
  "bindC (Inl e) f = Inl e"
| "bindC (Inr x) f = f x"

declare await.simps [promise_simps] settle.simps [promise_simps] bindC.simps [promise_simps]

lemma await_Fulfilled_iff:
  "await p f = Fulfilled y \<longleftrightarrow> (\<exists>x. p = Fulfilled x \<and> f x = Fulfilled y)"
  by (cases p) auto

lemma bindC_Inr_iff: "bindC m f = Inr y \<longleftrightarrow> (\<exists>x. m = Inr x \<and> f x = Inr y)"
  by (cases m) auto

lemma settle_bindC: "settle (bindC m f) = await (settle m) (\<lambda>x. settle (f x))"
  by (cases m) auto

text \<open>Running a throwing function over a list stops at the first throw.\<close>

fun mapC :: "('a \<Rightarrow> 'b completion) \<Rightarrow> 'a list \<Rightarrow> 'b list completion" where
  "mapC f [] = Inr []"
| "mapC f (x # xs) = bindC (f x) (\<lambda>y. bindC (mapC f xs) (\<lambda>ys. Inr (y # ys)))"

lemma mapC_Inr: "(\<And>x. x \<in> set xs \<Longrightarrow> f x = Inr (g x)) \<Longrightarrow> mapC f xs = Inr (map g xs)"
  by (induction xs) auto

lemma mapC_map_Inr: "(\<And>x. x \<in> set xs \<Longrightarrow> f (h x) = Inr (g x)) \<Longrightarrow> mapC f (map h xs) = Inr (map g xs)"
  by (induction xs) auto

lemma mapC_length: "mapC f xs = Inr ys \<Longrightarrow> length ys = length xs"
  by (induction xs arbitrary: ys) (auto simp: bindC_Inr_iff)

section \<open>Lists\<close>

lemma butlast_snoc_last: "xs \<noteq> [] \<Longrightarrow> butlast xs @ [last xs] = xs"
  by simp

lemma prefix_drop_length: "prefix p xs \<Longrightarrow> p @ drop (length p) xs = xs"
  by (auto simp: prefix_def)

lemma prefix_append_iff:
  "length p \<le> length xs \<Longrightarrow> prefix p (xs @ ys) \<longleftrightarrow> prefix p xs"
  by (auto simp: prefix_append dest: prefix_length_le)

lemma prefix_butlast_append:
  "xs \<noteq> [] \<Longrightarrow> butlast xs @ last xs # ys = xs @ ys"
  by (metis append_Cons append_Nil append_assoc append_butlast_last_id)

end
