(* ===== verification/Js_String.thy ===== *)
theory Js_String
  imports Js_Prelude
begin

text \<open>
  The string methods the source calls: \<open>split\<close> with a string separator, \<open>endsWith\<close>,
  \<open>slice(0, n)\<close> and the joining that \<open>split\<close> undoes.
\<close>

section \<open>String.prototype.split\<close>

text \<open>
  \<open>cons_head c\<close> puts a code unit in front of the first part.
\<close>

fun cons_head :: "'a \<Rightarrow> 'a list list \<Rightarrow> 'a list list" where
  "cons_head c [] = [[c]]"
| "cons_head c (p # ps) = (c # p) # ps"

text \<open>
  Splitting at a non-empty separator: the text is scanned from the left, and after a match the
  scan goes on behind the separator.
\<close>

function split_on :: "'a list \<Rightarrow> 'a list \<Rightarrow> 'a list list" where
  "split_on sep [] = [[]]"
| "split_on sep (c # cs) =
     (if sep \<noteq> [] \<and> prefix sep (c # cs) then [] # split_on sep (drop (length sep) (c # cs))
      else cons_head c (split_on sep cs))"
  by pat_completeness auto
termination
proof (relation "measure (\<lambda>(sep, s). length s)")
  fix sep :: "'a list" and c cs
  assume "sep \<noteq> [] \<and> prefix sep (c # cs)"
  then show "((sep, drop (length sep) (c # cs)), sep, c # cs) \<in> measure (\<lambda>(sep, s). length s)"
    by (cases sep) auto
qed auto

text \<open>
  The method itself. An empty separator gives one part per code unit, and no part at all for
  the empty text.
\<close>

definition js_split :: "js_string \<Rightarrow> js_string \<Rightarrow> js_string list" where
  "js_split s sep = (if sep = [] then map (\<lambda>c. [c]) s else split_on sep s)"

lemma split_on_ne [simp]: "split_on sep s \<noteq> []"
proof (induction sep s rule: split_on.induct)
  case (2 sep c cs)
  then show ?case
    by (cases "split_on sep cs") auto
qed simp

lemma butlast_cons_head: "length ps > 1 \<Longrightarrow> butlast (cons_head c ps) = cons_head c (butlast ps)"
  by (cases ps; cases "tl ps") auto

lemma last_cons_head: "length ps > 1 \<Longrightarrow> last (cons_head c ps) = last ps"
  by (cases ps; cases "tl ps") auto

lemma cons_head_append: "ps \<noteq> [] \<Longrightarrow> cons_head c (ps @ qs) = cons_head c ps @ qs"
  by (cases ps) auto

lemma split_on_single: "length (split_on sep s) \<le> 1 \<Longrightarrow> split_on sep s = [s]"
proof (induction sep s rule: split_on.induct)
  case (2 sep c cs)
  show ?case
  proof (cases "sep \<noteq> [] \<and> prefix sep (c # cs)")
    case True
    with "2.prems" show ?thesis by (simp add: not_le)
  next
    case False
    with "2.prems" have "length (split_on sep cs) \<le> 1"
      by (cases "split_on sep cs") auto
    with False "2.IH"(2) show ?thesis by auto
  qed
qed simp

lemma split_on_short:
  assumes "length s < length sep"
  shows "split_on sep s = [s]"
  using assms
proof (induction s)
  case (Cons c cs)
  then have "\<not> prefix sep (c # cs)"
    by (auto dest: prefix_length_le)
  with Cons show ?case by simp
qed simp

text \<open>
  The law streaming rests on: what follows the last separator is all that has to be kept, and
  splitting it again together with more text gives the parts of the whole text. It holds for a
  separator of any length, overlapping or not.
\<close>

lemma split_on_append:
  "split_on sep (xs @ ys) = butlast (split_on sep xs) @ split_on sep (last (split_on sep xs) @ ys)"
proof (induction sep xs rule: split_on.induct)
  case (1 sep)
  then show ?case by simp
next
  case (2 sep c cs)
  show ?case
  proof (cases "sep \<noteq> [] \<and> prefix sep (c # cs)")
    case True
    then have "prefix sep ((c # cs) @ ys)" and "length sep \<le> length (c # cs)"
      by (auto simp only: prefix_append dest: prefix_length_le)
    then have "prefix sep (c # cs @ ys)" and "length sep \<le> Suc (length cs)"
      by simp_all
    moreover from this have "drop (length sep) (c # cs @ ys) = drop (length sep) (c # cs) @ ys"
      using drop_append [of "length sep" "c # cs" ys] by simp
    ultimately show ?thesis
      using True "2.IH"(1) by (simp del: drop_append)
  next
    case False
    show ?thesis
    proof (cases "length (split_on sep cs) \<le> 1")
      case True
      then have "split_on sep cs = [cs]" by (rule split_on_single)
      with False have "split_on sep (c # cs) = [c # cs]" by auto
      then show ?thesis by (simp del: split_on.simps)
    next
      case long: False
      then have "\<not> length cs < length sep"
        using split_on_short [of cs sep] by force
      then have "prefix sep (c # cs @ ys) \<longleftrightarrow> prefix sep (c # cs)"
        using prefix_append_iff [of sep "c # cs" ys] by simp
      with False have "\<not> (sep \<noteq> [] \<and> prefix sep (c # cs @ ys))" by simp
      moreover have "butlast (split_on sep cs) \<noteq> []"
        using long by (cases "split_on sep cs"; cases "tl (split_on sep cs)") auto
      ultimately show ?thesis
        using False long "2.IH"(2)
        by (auto simp: cons_head_append butlast_cons_head last_cons_head)
    qed
  qed
qed

text \<open>Joining the parts with the separator gives the text back.\<close>

fun js_join :: "'a list \<Rightarrow> 'a list list \<Rightarrow> 'a list" where
  "js_join sep [] = []"
| "js_join sep [p] = p"
| "js_join sep (p # q # ps) = p @ sep @ js_join sep (q # ps)"

lemma js_join_Cons: "ps \<noteq> [] \<Longrightarrow> js_join sep (p # ps) = p @ sep @ js_join sep ps"
  by (cases ps) auto

lemma js_join_cons_head: "js_join sep (cons_head c ps) = c # js_join sep ps"
  by (cases ps; cases "tl ps") auto

lemma js_join_snoc: "js_join sep (ps @ [q]) = concat (map (\<lambda>p. p @ sep) ps) @ q"
  by (induction ps) (auto simp: js_join_Cons)

lemma split_on_join: "js_join sep (split_on sep s) = s"
proof (induction sep s rule: split_on.induct)
  case (2 sep c cs)
  then show ?case
    by (auto simp: js_join_Cons js_join_cons_head prefix_def)
qed simp

text \<open>The last part holds no separator: splitting it again changes nothing.\<close>

lemma split_on_last: "split_on sep (last (split_on sep s)) = [last (split_on sep s)]"
proof -
  have "split_on sep s = butlast (split_on sep s) @ split_on sep (last (split_on sep s))"
    using split_on_append [of sep s "[]"] by simp
  then have "butlast (split_on sep s) @ [last (split_on sep s)]
      = butlast (split_on sep s) @ split_on sep (last (split_on sep s))"
    by simp
  then show ?thesis by (simp only: append_same_eq same_append_eq)
qed

text \<open>
  For a separator of one code unit (the source uses the line feed) the parts are exactly the
  maximal runs without it.
\<close>

lemma split_on_unit_notin: "p \<in> set (split_on [x] s) \<Longrightarrow> x \<notin> set p"
proof (induction s arbitrary: p)
  case (Cons c cs)
  obtain q qs where q: "split_on [x] cs = q # qs"
    by (cases "split_on [x] cs") auto
  with Cons show ?case by (auto split: if_splits)
qed simp

lemma split_on_unit_line:
  "x \<notin> set p \<Longrightarrow> split_on [x] (p @ x # s) = p # split_on [x] s"
  by (induction p) auto

lemma split_on_unit_rest: "x \<notin> set p \<Longrightarrow> split_on [x] p = [p]"
  by (induction p) auto

lemma split_on_unit_lines:
  assumes "\<forall>p \<in> set ps. x \<notin> set p"
  shows "split_on [x] (concat (map (\<lambda>p. p @ [x]) ps) @ s) = ps @ split_on [x] s"
  using assms by (induction ps) (auto simp: split_on_unit_line)

section \<open>endsWith and slice\<close>

definition js_endsWith :: "js_string \<Rightarrow> js_string \<Rightarrow> bool" where
  "js_endsWith s t = suffix t s"

lemma js_endsWith_code [code]:
  "js_endsWith s t = (length t \<le> length s \<and> drop (length s - length t) s = t)"
  by (auto simp: js_endsWith_def suffix_def intro: exI [of _ "take (length s - length t) s"])
    (metis append_take_drop_id)

lemma js_endsWith_snoc [simp]: "js_endsWith (s @ t) t"
  by (simp add: js_endsWith_def suffix_def)

text \<open>\<open>s.slice(0, n)\<close> for a count \<open>n\<close> that is not negative.\<close>

definition js_slice0 :: "nat \<Rightarrow> 'a list \<Rightarrow> 'a list" where
  "js_slice0 n s = take n s"

end
