(* ===== verification/Js_Number.thy ===== *)
theory Js_Number
  imports Js_String
begin

text \<open>
  Numbers of the language: doubles, each given by the shortest decimal that denotes it, which is
  also how it is printed. Reading a decimal rounds it to the nearest double.
\<close>

section \<open>Decimals\<close>

text \<open>
  \<open>Dec m e\<close> is \<open>m * 10^e\<close>, with the mantissa not divisible by ten; \<open>Infinite\<close> is an infinity and its sign.
  The code never computes with numbers: it copies them, tests whether they are zero, and prints
  them, which does not tell \<open>-0\<close> from \<open>0\<close>.
\<close>

datatype jsnum = Dec int int | Infinite bool

function mk_dec :: "int \<Rightarrow> int \<Rightarrow> jsnum" where
  "mk_dec m e =
     (if m = 0 then Dec 0 0 else if m mod 10 = 0 then mk_dec (m div 10) (e + 1) else Dec m e)"
  by pat_completeness auto
termination
  by (relation "measure (\<lambda>(m, e). nat \<bar>m\<bar>)") auto

declare mk_dec.simps [simp del]

definition num_of_nat :: "nat \<Rightarrow> jsnum" where
  "num_of_nat n = mk_dec (int n) 0"

fun canonical_num :: "jsnum \<Rightarrow> bool" where
  "canonical_num (Dec m e) = (if m = 0 then e = 0 else m mod 10 \<noteq> 0)"
| "canonical_num (Infinite neg) = False"

text \<open>
  The double nearest to a decimal is zero exactly when the decimal is at most half of the least
  positive double, \<open>2^-1074\<close>.
\<close>

fun num_is_zero :: "jsnum \<Rightarrow> bool" where
  "num_is_zero (Dec m e) = (if 0 \<le> e then m = 0 else \<bar>m\<bar> * 2 ^ 1075 \<le> 10 ^ nat (- e))"
| "num_is_zero (Infinite neg) = False"

lemma mk_dec_canonical: "canonical_num d \<Longrightarrow> d = Dec m e \<Longrightarrow> mk_dec m e = d"
  by (auto simp: mk_dec.simps split: if_splits)

lemma mk_dec_times10: "m \<noteq> 0 \<Longrightarrow> mk_dec (m * 10) e = mk_dec m (e + 1)"
  by (subst mk_dec.simps) simp

lemma mk_dec_shift: "m \<noteq> 0 \<Longrightarrow> mk_dec (m * 10 ^ k) e = mk_dec m (e + int k)"
proof (induction k arbitrary: e)
  case (Suc k)
  then have "mk_dec (m * 10 ^ Suc k) e = mk_dec (m * 10 ^ k) (e + 1)"
    using mk_dec_times10 [of "m * 10 ^ k" e] by (simp add: mult.commute mult.left_commute)
  with Suc show ?case by (simp add: add.assoc)
qed simp

lemma mk_dec_is_canonical: "canonical_num (mk_dec m e)"
  by (induction m e rule: mk_dec.induct) (subst mk_dec.simps, auto)

lemma mk_dec_value: "m \<noteq> 0 \<Longrightarrow> mk_dec m e = Dec m' e' \<Longrightarrow> \<exists>k. m = m' * 10 ^ k \<and> e' = e + int k"
proof (induction m e rule: mk_dec.induct)
  case (1 m e)
  show ?case
  proof (cases "m mod 10 = 0")
    case True
    then have m: "m = (m div 10) * 10" by auto
    with "1.prems" True "1.IH" obtain k where "m div 10 = m' * 10 ^ k" "e' = e + 1 + int k"
      by (auto simp: mk_dec.simps [of m e])
    with m show ?thesis by (intro exI [of _ "Suc k"]) simp
  next
    case False
    with "1.prems" show ?thesis by (intro exI [of _ 0]) (simp add: mk_dec.simps)
  qed
qed

lemma mk_dec_Dec: obtains m' e' where "mk_dec m e = Dec m' e'"
  using mk_dec_is_canonical [of m e] by (cases "mk_dec m e") auto

lemma mk_dec_finite [simp]: "mk_dec m e \<noteq> Infinite neg"
  by (rule mk_dec_Dec [of m e]) simp

section \<open>Rounding\<close>

text \<open>
  A finite double is a multiple of \<open>2^-1074\<close>; the functions below count in these units. A ratio is
  rounded to 53 bits, to even in case of a tie, and to fewer where the units are too coarse.
\<close>

function bit_length :: "nat \<Rightarrow> nat" where
  "bit_length n = (if n = 0 then 0 else Suc (bit_length (n div 2)))"
  by pat_completeness auto
termination
  by (relation "measure id") auto

declare bit_length.simps [simp del]

definition div_even :: "nat \<Rightarrow> nat \<Rightarrow> nat" where
  "div_even a b =
     (let q = a div b; t = 2 * (a mod b) in if t < b \<or> t = b \<and> even q then q else q + 1)"

definition round_ratio :: "nat \<Rightarrow> nat \<Rightarrow> nat" where
  "round_ratio a b = (let q = bit_length (a div b) - 53 in div_even a (b * 2 ^ q) * 2 ^ q)"

text \<open>The exponent of the unit.\<close>

definition unit_exponent :: nat where
  "unit_exponent = 1074"

definition double_units :: "nat \<Rightarrow> int \<Rightarrow> nat" where
  "double_units m e = round_ratio (m * 10 ^ nat e * 2 ^ unit_exponent) (10 ^ nat (- e))"

text \<open>
  The shortest decimal of a double: with one digit, two digits, and so on up to seventeen, the two
  nearest decimals of that many digits, until one of them denotes the double.
\<close>

function digit_count :: "nat \<Rightarrow> nat" where
  "digit_count n = (if n = 0 then 0 else Suc (digit_count (n div 10)))"
  by pat_completeness auto
termination
  by (relation "measure id") auto

declare digit_count.simps [simp del]

definition decimals_near :: "nat \<Rightarrow> (nat \<times> int) list" where
  "decimals_near r =
     (let a = r * 10 ^ 400; l = digit_count (a div 2 ^ unit_exponent) in
      concat (map (\<lambda>k.
        let b = 2 ^ unit_exponent * 10 ^ (l - k); q = a div b; t = int (l - k) - 400 in
        if 2 * (a mod b) \<le> b then [(q, t), (q + 1, t)] else [(q + 1, t), (q, t)]) [1..<18]))"

definition shortest_decimal :: "nat \<Rightarrow> nat \<times> int" where
  "shortest_decimal r =
     (case find (\<lambda>(s, t). double_units s t = r) (decimals_near r) of
        Some st \<Rightarrow> st
      | None \<Rightarrow> (r * 5 ^ unit_exponent, - int unit_exponent))"

text \<open>What exceeds the largest double by half of its last place or more is infinite.\<close>

fun to_double :: "jsnum \<Rightarrow> jsnum" where
  "to_double (Dec m e) =
     (if m = 0 then Dec 0 0
      else let r = double_units (nat \<bar>m\<bar>) e in
        if r = 0 then Dec 0 0
        else if 2 ^ 2098 \<le> r then Infinite (m < 0)
        else (case shortest_decimal r of (s, t) \<Rightarrow> mk_dec (if m < 0 then - int s else int s) t))"
| "to_double (Infinite neg) = Infinite neg"

declare to_double.simps [simp del]

definition is_double :: "jsnum \<Rightarrow> bool" where
  "is_double d \<longleftrightarrow> canonical_num d \<and> to_double d = d"

lemma is_double_Dec: "is_double d \<Longrightarrow> \<exists>m e. d = Dec m e"
  by (cases d) (simp_all add: is_double_def)

section \<open>Rounding twice\<close>

lemma bit_length_less: "n < 2 ^ bit_length n"
proof (induction n rule: bit_length.induct)
  case (1 n)
  show ?case
  proof (cases "n = 0")
    case False
    with 1 have "n div 2 < 2 ^ bit_length (n div 2)" by simp
    then have "n < 2 * 2 ^ bit_length (n div 2)" by linarith
    with False show ?thesis by (subst bit_length.simps) simp
  qed (simp add: bit_length.simps)
qed

lemma bit_length_le: "n < 2 ^ k \<Longrightarrow> bit_length n \<le> k"
proof (induction n arbitrary: k rule: bit_length.induct)
  case (1 n)
  show ?case
  proof (cases "n = 0")
    case False
    with "1.prems" obtain j where k: "k = Suc j" by (cases k) auto
    with "1.prems" have "n div 2 < 2 ^ j" by simp
    with False 1 k show ?thesis by (subst bit_length.simps) simp
  qed (simp add: bit_length.simps)
qed

lemma bit_length_power: "bit_length (2 ^ k) = Suc k"
proof (induction k)
  case 0
  show ?case by (simp add: bit_length.simps)
next
  case (Suc k)
  then show ?case by (subst bit_length.simps) simp
qed

lemma div_even_scale: "0 < c \<Longrightarrow> div_even (a * c) (b * c) = div_even a b"
  by (simp add: div_even_def Let_def mod_mult_mult2 mult.assoc [symmetric])

lemma div_even_exact: "0 < b \<Longrightarrow> b dvd a \<Longrightarrow> div_even a b * b = a"
  by (auto simp: div_even_def Let_def)

lemma div_even_bounds: "a div b \<le> div_even a b" "div_even a b \<le> a div b + 1"
  by (simp_all add: div_even_def Let_def)

lemma round_ratio_scale:
  assumes "0 < c"
  shows "round_ratio (a * c) (b * c) = round_ratio a b"
proof -
  have "b * c * 2 ^ q = b * 2 ^ q * c" for q by simp
  with assms show ?thesis
    by (simp only: round_ratio_def Let_def div_mult_mult2 div_even_scale)
qed

text \<open>What has been rounded is a multiple of the unit it would be rounded to.\<close>

lemma rounded_multiple:
  fixes a b :: nat
  defines "r \<equiv> round_ratio a b"
  assumes "0 < b"
  shows "2 ^ (bit_length r - 53) dvd r"
proof -
  define q where "q = bit_length (a div b) - 53"
  define k where "k = div_even a (b * 2 ^ q)"
  have r: "r = k * 2 ^ q"
    by (simp add: r_def round_ratio_def q_def k_def Let_def)
  have "a div b < 2 ^ (53 + q)"
    by (rule less_le_trans [OF bit_length_less]) (simp add: q_def)
  then have "a div b div 2 ^ q < 2 ^ 53"
    by (simp add: power_add less_mult_imp_div_less)
  then have "k \<le> 2 ^ 53"
    using div_even_bounds(2) [of a "b * 2 ^ q"] by (simp add: k_def div_mult2_eq)
  then consider "k < 2 ^ 53" | "k = 2 ^ 53" by linarith
  then show ?thesis
  proof cases
    case 1
    then have "r < 2 ^ (53 + q)" by (simp add: r power_add)
    then have "bit_length r - 53 \<le> q" using bit_length_le by fastforce
    then show ?thesis by (simp add: r le_imp_power_dvd dvd_mult)
  next
    case 2
    then have "r = 2 ^ (53 + q)" by (simp add: r power_add)
    then show ?thesis
      using le_imp_power_dvd [of "Suc q" "53 + q" "2 :: nat"] by (simp add: bit_length_power)
  qed
qed

lemma round_ratio_exact:
  assumes "0 < b" and "0 < c"
  shows "round_ratio (round_ratio a b * c) c = round_ratio a b"
proof -
  let ?r = "round_ratio a b"
  have "round_ratio (?r * c) (1 * c) = round_ratio ?r 1"
    by (rule round_ratio_scale [OF assms(2)])
  moreover have "round_ratio ?r 1 = ?r"
    using div_even_exact [OF _ rounded_multiple [OF assms(1)]] by (simp add: round_ratio_def Let_def)
  ultimately show ?thesis by simp
qed

text \<open>Trailing zeros make no difference.\<close>

lemma double_units_zeros: "double_units (m * 10 ^ k) e = double_units m (e + int k)"
proof -
  define n where "n = m * 2 ^ unit_exponent"
  have eq: "double_units m' e' = round_ratio (m' * 2 ^ unit_exponent * 10 ^ nat e') (10 ^ nat (- e'))" for m' e'
    by (simp add: double_units_def mult.assoc mult.commute mult.left_commute)
  consider "0 \<le> e" | "e < 0" "e + int k \<le> 0" | "e < 0" "0 < e + int k" by linarith
  then have "round_ratio (n * 10 ^ k * 10 ^ nat e) (10 ^ nat (- e))
      = round_ratio (n * 10 ^ nat (e + int k)) (10 ^ nat (- (e + int k)))"
  proof cases
    case 1
    then show ?thesis by (simp add: power_add [symmetric] nat_add_distrib mult.assoc add.commute)
  next
    case 2
    then have "nat (- e) = nat (- (e + int k)) + k" by simp
    with 2 show ?thesis
      using round_ratio_scale [of "10 ^ k" n "10 ^ nat (- (e + int k))"] by (simp add: power_add)
  next
    case 3
    then have "k = nat (e + int k) + nat (- e)" by simp
    then have "n * 10 ^ k = n * 10 ^ nat (e + int k) * 10 ^ nat (- e)"
      by (metis mult.assoc power_add)
    then have "round_ratio (n * 10 ^ k) (10 ^ nat (- e))
        = round_ratio (n * 10 ^ nat (e + int k) * 10 ^ nat (- e)) (1 * 10 ^ nat (- e))"
      by (simp only: mult_1)
    also have "\<dots> = round_ratio (n * 10 ^ nat (e + int k)) 1"
      by (rule round_ratio_scale) simp
    finally show ?thesis using 3 by simp
  qed
  then show ?thesis unfolding eq n_def by (simp add: mult.assoc mult.commute mult.left_commute)
qed

lemma double_units_mk_dec:
  assumes "m \<noteq> 0" and "mk_dec m e = Dec m' e'"
  shows "double_units (nat \<bar>m'\<bar>) e' = double_units (nat \<bar>m\<bar>) e" and "m' \<noteq> 0" and "m < 0 \<longleftrightarrow> m' < 0"
proof -
  obtain k where k: "m = m' * 10 ^ k" "e' = e + int k"
    using mk_dec_value [OF assms] by blast
  then have "nat \<bar>m\<bar> = nat \<bar>m'\<bar> * 10 ^ k"
    by (simp add: abs_mult nat_mult_distrib nat_power_eq)
  then show "double_units (nat \<bar>m'\<bar>) e' = double_units (nat \<bar>m\<bar>) e"
    using k(2) by (simp add: double_units_zeros)
  show "m' \<noteq> 0" and "m < 0 \<longleftrightarrow> m' < 0"
    using assms(1) k(1) by (auto simp: mult_less_0_iff)
qed

text \<open>The shortest decimal of a double denotes it.\<close>

lemma double_units_exact:
  assumes "r = double_units m e"
  shows "double_units (r * 5 ^ unit_exponent) (- int unit_exponent) = r"
proof -
  have "(5 :: nat) ^ unit_exponent * 2 ^ unit_exponent = 10 ^ unit_exponent"
    by (simp add: power_mult_distrib [symmetric])
  then have "r * 5 ^ unit_exponent * 2 ^ unit_exponent = r * 10 ^ unit_exponent"
    by (simp only: mult.assoc)
  moreover have "double_units (r * 5 ^ unit_exponent) (- int unit_exponent)
      = round_ratio (r * 5 ^ unit_exponent * 2 ^ unit_exponent) (10 ^ unit_exponent)"
    by (simp add: double_units_def)
  ultimately have "double_units (r * 5 ^ unit_exponent) (- int unit_exponent)
      = round_ratio (r * 10 ^ unit_exponent) (10 ^ unit_exponent)"
    by (simp only:)
  then show ?thesis
    using round_ratio_exact [of "10 ^ nat (- e)" "10 ^ unit_exponent" "m * 10 ^ nat e * 2 ^ unit_exponent"]
    by (simp add: assms double_units_def)
qed

lemma shortest_decimal_denotes:
  assumes "r = double_units m e" and "shortest_decimal r = (s, t)"
  shows "double_units s t = r"
proof (cases "find (\<lambda>(s, t). double_units s t = r) (decimals_near r)")
  case None
  with assms(2) have "s = r * 5 ^ unit_exponent" "t = - int unit_exponent" by (simp_all add: shortest_decimal_def)
  with double_units_exact [OF assms(1)] show ?thesis by simp
next
  case (Some st)
  with assms(2) show ?thesis by (auto simp: shortest_decimal_def find_Some_iff)
qed

lemma double_units_zero [simp]: "double_units 0 e = 0"
  by (simp add: double_units_def round_ratio_def div_even_def Let_def)

text \<open>A number that has been rounded stays what it is, and is in the form in which numbers are kept.\<close>

lemma to_double_is_double:
  assumes "canonical_num d" and "\<forall>neg. to_double d \<noteq> Infinite neg"
  shows "is_double (to_double d)"
proof (cases d)
  case (Dec m e)
  define r where "r = double_units (nat \<bar>m\<bar>) e"
  obtain s t where st: "shortest_decimal r = (s, t)" by fastforce
  consider "m = 0" | "m \<noteq> 0" "r = 0" | "m \<noteq> 0" "0 < r" "r < 2 ^ 2098"
    using Dec assms(2) by (auto simp: to_double.simps r_def Let_def not_le split: if_splits)
  then show ?thesis
  proof cases
    case 3
    define s' where "s' = (if m < 0 then - int s else int s)"
    have denotes: "double_units s t = r"
      by (rule shortest_decimal_denotes [OF r_def st])
    with 3(2) have "0 < s" by (cases s) simp_all
    then have s': "s' \<noteq> 0" "nat \<bar>s'\<bar> = s" "s' < 0 \<longleftrightarrow> m < 0"
      by (auto simp: s'_def)
    obtain m' e' where d': "mk_dec s' t = Dec m' e'" by (rule mk_dec_Dec)
    have td: "to_double d = mk_dec s' t"
      using Dec 3 st by (simp add: to_double.simps r_def [symmetric] s'_def Let_def)
    have "to_double (Dec m' e') = Dec m' e'"
      using double_units_mk_dec [OF s'(1) d'] denotes s' 3(2,3) st d'
      by (simp add: to_double.simps Let_def s'_def)
    with td d' mk_dec_is_canonical [of s' t] show ?thesis
      by (simp add: is_double_def)
  qed (use Dec assms(1) in \<open>simp_all add: is_double_def to_double.simps r_def\<close>)
qed (use assms(1) in simp)

section \<open>Integers\<close>

lemma bit_length_eq: "2 ^ k \<le> n \<Longrightarrow> n < 2 ^ Suc k \<Longrightarrow> bit_length n = Suc k"
proof (rule antisym)
  assume "2 ^ k \<le> n"
  then have "(2 :: nat) ^ k < 2 ^ bit_length n"
    using bit_length_less [of n] by (rule le_less_trans)
  then show "Suc k \<le> bit_length n" by simp
qed (rule bit_length_le)

lemma double_units_int: "double_units n 0 = round_ratio (n * 2 ^ unit_exponent) 1"
  by (simp add: double_units_def)

lemma div_even_upper: "div_even a b * b \<le> a + b"
proof -
  have "div_even a b * b \<le> (a div b + 1) * b"
    by (rule mult_le_mono1 [OF div_even_bounds(2)])
  also have "\<dots> \<le> a + b" by (simp add: algebra_simps)
  finally show ?thesis .
qed

text \<open>Integers of 64 bits are far from infinite.\<close>

lemma integer_finite:
  assumes "\<bar>i\<bar> \<le> 2 ^ 64"
  shows "to_double (mk_dec i 0) \<noteq> Infinite neg"
proof (cases "i = 0")
  case False
  obtain m e where d: "mk_dec i 0 = Dec m e" by (rule mk_dec_Dec)
  define n where "n = nat \<bar>i\<bar> * 2 ^ unit_exponent"
  define q where "q = bit_length n - 53"
  have "nat \<bar>i\<bar> \<le> 2 ^ 64" using assms by (simp add: nat_le_iff)
  then have "n \<le> 2 ^ 64 * 2 ^ unit_exponent" unfolding n_def by (rule mult_le_mono1)
  then have n: "n \<le> 2 ^ (64 + unit_exponent)" by (simp only: power_add)
  then have "n < 2 ^ (65 + unit_exponent)"
    by (rule le_less_trans) simp
  then have "q \<le> 64 + unit_exponent" using bit_length_le by (fastforce simp: q_def)
  then have "2 ^ q \<le> (2 :: nat) ^ (64 + unit_exponent)" by simp
  moreover have "round_ratio n 1 \<le> n + 2 ^ q"
    using div_even_upper [of n "2 ^ q"] by (simp add: round_ratio_def q_def Let_def)
  ultimately have "round_ratio n 1 \<le> 2 * 2 ^ (64 + unit_exponent)" using n by linarith
  also have "\<dots> < (2 :: nat) ^ 2098"
    using power_strict_increasing [of "Suc (64 + unit_exponent)" 2098 "2 :: nat"] by (simp add: unit_exponent_def)
  finally have "double_units (nat \<bar>m\<bar>) e < 2 ^ 2098"
    using double_units_mk_dec(1) [OF False d] by (simp add: double_units_int n_def)
  then show ?thesis
    by (auto simp: d to_double.simps Let_def split: prod.split)
qed (simp add: mk_dec.simps to_double.simps)

end
