(* ===== verification/Js_Rounding.thy ===== *)
theory Js_Rounding
  imports Js_Number
begin

text \<open>
  What reading a decimal as a number gives: the double nearest to it, with ties to even, as IEEE 754
  and the language have it. What this means for integers.
\<close>

section \<open>Nearest\<close>

text \<open>
  In units of \<open>2^-1074\<close>, a number of the precision of doubles is a multiple of its last place, the
  53rd bit of its significand, or is below \<open>2^53\<close>; the finite doubles are those of them below \<open>2^2098\<close>.
\<close>

definition last_place :: "nat \<Rightarrow> nat" where
  "last_place r = 2 ^ (bit_length r - 53)"

definition representable :: "nat \<Rightarrow> bool" where
  "representable r \<longleftrightarrow> last_place r dvd r"

definition even_significand :: "nat \<Rightarrow> bool" where
  "even_significand r \<longleftrightarrow> even (r div last_place r)"

text \<open>
  \<open>u\<close> units are the nearest to \<open>a / b\<close>: nothing representable is closer, and what is as close leaves
  the even one.
\<close>

definition nearest :: "int \<Rightarrow> int \<Rightarrow> int \<Rightarrow> bool" where
  "nearest a b u \<longleftrightarrow> representable (nat \<bar>u\<bar>) \<and>
     (\<forall>v. representable (nat \<bar>v\<bar>) \<longrightarrow> \<bar>a - u * b\<bar> < \<bar>a - v * b\<bar> \<or>
        \<bar>a - u * b\<bar> = \<bar>a - v * b\<bar> \<and> (u = v \<or> even_significand (nat \<bar>u\<bar>)))"

text \<open>The units of a double, or where the infinite ones begin.\<close>

fun num_units :: "jsnum \<Rightarrow> int" where
  "num_units (Dec m e) = sgn m * int (double_units (nat \<bar>m\<bar>) e)"
| "num_units (Infinite neg) = (if neg then - (2 ^ 2098) else 2 ^ 2098)"

lemma div_even_nearest:
  fixes a b :: nat and k :: int
  assumes "0 < b"
  defines "d \<equiv> int (div_even a b)"
  shows "\<bar>int a - d * int b\<bar> < \<bar>int a - k * int b\<bar> \<or>
    \<bar>int a - d * int b\<bar> = \<bar>int a - k * int b\<bar> \<and> (d = k \<or> even d)"
proof -
  define u t where "u = a div b" and "t = a mod b"
  have a: "int a = int u * int b + int t"
    unfolding u_def t_def by (metis div_mult_mod_eq of_nat_add of_nat_mult)
  have t: "t < b" using assms(1) by (simp add: t_def)
  have d: "d = int u \<and> (2 * t < b \<or> 2 * t = b \<and> even d) \<or> d = int u + 1 \<and> (b < 2 * t \<or> 2 * t = b \<and> even d)"
    by (auto simp: d_def div_even_def Let_def u_def t_def)
  have far: "int b \<le> (int u - k) * int b" if "k < int u"
    using that mult_right_mono [of 1 "int u - k" "int b"] by simp
  have far': "2 * int b \<le> (k - int u) * int b" if "int u + 1 < k"
    using that mult_right_mono [of 2 "k - int u" "int b"] by simp
  have k: "int a - k * int b = (int u - k) * int b + int t"
    by (simp add: a algebra_simps)
  have du: "d = int u \<Longrightarrow> int a - d * int b = int t" and du': "d = int u + 1 \<Longrightarrow> int a - d * int b = int t - int b"
    by (simp_all add: a algebra_simps)
  consider "k < int u" | "k = int u" | "k = int u + 1" | "int u + 1 < k" by linarith
  then show ?thesis
  proof cases
    case 1
    then show ?thesis using d du du' k far t by linarith
  next
    case 2
    then have "int a - k * int b = int t" using a by simp
    then show ?thesis using d du du' 2 t by fastforce
  next
    case 3
    then have "int a - k * int b = int t - int b" using a by (simp add: algebra_simps)
    then show ?thesis using d du du' 3 t by fastforce
  next
    case 4
    have "int a - k * int b = int t - (k - int u) * int b" by (simp add: k algebra_simps)
    then show ?thesis using d du du' 4 far' t by linarith
  qed
qed

text \<open>What is representable but not a multiple of the place a ratio is rounded to is too small.\<close>

lemma representable_coarse:
  assumes "representable r" and "\<not> 2 ^ q dvd r"
  shows "r < 2 ^ (52 + q)"
proof -
  have "\<not> q \<le> bit_length r - 53"
    using assms dvd_trans [OF le_imp_power_dvd, of q "bit_length r - 53" 2 r]
    by (auto simp: representable_def last_place_def)
  then have "bit_length r \<le> 52 + q" by linarith
  then have "2 ^ bit_length r \<le> (2 :: nat) ^ (52 + q)" by (rule power_increasing) simp
  with bit_length_less [of r] show ?thesis by (rule less_le_trans)
qed

lemma bit_length_zero [simp]: "bit_length 0 = 0"
  by (simp add: bit_length.simps)

lemma bit_length_ge: "n \<noteq> 0 \<Longrightarrow> 2 ^ (bit_length n - 1) \<le> n"
proof (induction n rule: bit_length.induct)
  case (1 n)
  show ?case
  proof (cases "n div 2 = 0")
    case False
    with 1 have "2 ^ (bit_length (n div 2) - 1) \<le> n div 2" by auto
    moreover have "bit_length (n div 2) \<noteq> 0" using False by (subst bit_length.simps) simp
    then have "bit_length n - 1 = Suc (bit_length (n div 2) - 1)"
      using 1(2) by (subst bit_length.simps) simp
    ultimately show ?thesis by simp
  next
    case True
    with 1(2) show ?thesis by (subst bit_length.simps) (simp add: bit_length.simps [of 0])
  qed
qed

text \<open>The significand of a ratio that has been rounded.\<close>

lemma round_ratio_significand:
  fixes a b :: nat
  defines "q \<equiv> bit_length (a div b) - 53"
  defines "k \<equiv> div_even a (b * 2 ^ q)"
  assumes "even k"
  shows "even_significand (round_ratio a b)"
proof -
  have r: "round_ratio a b = k * 2 ^ q"
    by (simp add: round_ratio_def k_def q_def Let_def)
  have u: "a div b div 2 ^ q = a div (b * 2 ^ q)" by (simp add: div_mult2_eq)
  have "a div b < 2 ^ (53 + q)"
    by (rule less_le_trans [OF bit_length_less]) (simp add: q_def)
  then have "a div b div 2 ^ q < 2 ^ 53"
    by (simp add: power_add less_mult_imp_div_less)
  then have "k \<le> 2 ^ 53"
    using div_even_bounds(2) [of a "b * 2 ^ q"] by (simp add: k_def u)
  then consider "k = 2 ^ 53" | "k < 2 ^ 53" "q = 0" | "k < 2 ^ 53" "0 < q" by linarith
  then show ?thesis
  proof cases
    case 1
    then have "round_ratio a b = 2 ^ (53 + q)" by (simp add: r power_add)
    moreover have "2 ^ (53 + q) div (2 :: nat) ^ Suc q = 2 ^ 52"
      by (simp add: power_add)
    ultimately show ?thesis by (simp add: even_significand_def last_place_def bit_length_power)
  next
    case 2
    then have "bit_length k \<le> 53" by (intro bit_length_le) simp
    with 2 assms(3) show ?thesis by (simp add: even_significand_def last_place_def r)
  next
    case 3
    then have "bit_length (a div b) = 53 + q" and "a div b \<noteq> 0"
      by (cases "a div b = 0"; simp add: q_def)+
    with bit_length_ge [of "a div b"] have "2 ^ (52 + q) \<le> a div b" by simp
    then have "2 ^ (52 + q) div 2 ^ q \<le> a div b div 2 ^ q" by (rule div_le_mono)
    then have "2 ^ 52 \<le> k"
      using div_even_bounds(1) [of a "b * 2 ^ q"] by (simp add: k_def u power_add)
    then have "2 ^ (52 + q) \<le> k * 2 ^ q" by (simp add: power_add)
    moreover have "k * 2 ^ q < 2 ^ Suc (52 + q)" using 3 by (simp add: power_add)
    ultimately have "bit_length (k * 2 ^ q) = Suc (52 + q)" by (rule bit_length_eq)
    then show ?thesis using assms(3) by (simp add: even_significand_def last_place_def r)
  qed
qed

lemma round_ratio_nearest:
  assumes "0 < b"
  shows "nearest (int a) (int b) (int (round_ratio a b))"
proof -
  define q where "q = bit_length (a div b) - 53"
  define k where "k = div_even a (b * 2 ^ q)"
  have r: "round_ratio a b = k * 2 ^ q"
    by (simp add: round_ratio_def k_def q_def Let_def)
  have near: "\<bar>int a - int (round_ratio a b) * int b\<bar> < \<bar>int a - v * int b\<bar> \<or>
      \<bar>int a - int (round_ratio a b) * int b\<bar> = \<bar>int a - v * int b\<bar> \<and>
      (int (round_ratio a b) = v \<or> even_significand (round_ratio a b))" if v: "v = j * 2 ^ q" for v j
    using div_even_nearest [of "b * 2 ^ q" a j] round_ratio_significand [of a b] assms
    by (auto simp: r v k_def q_def [symmetric] mult_ac)
  have "\<bar>int a - int (round_ratio a b) * int b\<bar> < \<bar>int a - v * int b\<bar> \<or>
      \<bar>int a - int (round_ratio a b) * int b\<bar> = \<bar>int a - v * int b\<bar> \<and>
      (int (round_ratio a b) = v \<or> even_significand (round_ratio a b))" if v: "representable (nat \<bar>v\<bar>)" for v
  proof (cases "2 ^ q dvd nat \<bar>v\<bar>")
    case True
    then have "int (2 ^ q) dvd int (nat \<bar>v\<bar>)" by (simp only: int_dvd_int_iff)
    then have "2 ^ q dvd v" by simp
    then obtain j where "v = j * 2 ^ q" by (metis dvd_def mult.commute)
    then show ?thesis by (rule near)
  next
    case False
    then have small: "nat \<bar>v\<bar> < 2 ^ (52 + q)" by (rule representable_coarse [OF v])
    from False have "q \<noteq> 0" by (cases q) auto
    then have "bit_length (a div b) = 53 + q" and "a div b \<noteq> 0"
      by (cases "a div b = 0"; simp add: q_def)+
    with bit_length_ge [of "a div b"] have "2 ^ (52 + q) \<le> a div b" by simp
    then have "2 ^ (52 + q) * b \<le> a"
      by (meson le_trans mult_le_mono1 div_times_less_eq_dividend)
    then have big: "2 ^ (52 + q) * int b \<le> int a"
      by (metis of_nat_le_iff of_nat_mult of_nat_numeral of_nat_power)
    have "v < 2 ^ (52 + q)"
      using small by (simp add: nat_less_iff)
    then have "v * int b < 2 ^ (52 + q) * int b" using assms by simp
    with big near [of "2 ^ (52 + q)" "2 ^ 52"] show ?thesis by (fastforce simp: power_add)
  qed
  then show ?thesis
    using rounded_multiple [OF assms] by (simp add: nearest_def representable_def last_place_def)
qed

lemma nearest_uminus: "nearest a b u \<Longrightarrow> nearest (- a) b (- u)"
proof -
  assume near: "nearest a b u"
  have flip: "\<bar>- a - w * b\<bar> = \<bar>a - (- w) * b\<bar>" for w
  proof -
    have "- a - w * b = - (a - (- w) * b)" by simp
    then show ?thesis by (simp only: abs_minus_cancel)
  qed
  show ?thesis
    using near unfolding nearest_def flip by (metis abs_minus_cancel minus_minus)
qed

section \<open>Decimals\<close>

lemma num_units_nearest:
  "nearest (m * 10 ^ nat e * 2 ^ unit_exponent) (10 ^ nat (- e)) (num_units (Dec m e))"
proof -
  have pos: "nearest (int n * 10 ^ nat e * 2 ^ unit_exponent) (10 ^ nat (- e)) (int (double_units n e))" for n
    using round_ratio_nearest [of "10 ^ nat (- e)" "n * 10 ^ nat e * 2 ^ unit_exponent"]
    by (simp add: double_units_def)
  show ?thesis
  proof (cases "m < 0")
    case True
    with nearest_uminus [OF pos [of "nat (- m)"]] show ?thesis by simp
  next
    case False
    with pos [of "nat m"] show ?thesis by (cases "m = 0") simp_all
  qed
qed

lemma num_units_mk_dec: "num_units (mk_dec m e) = sgn m * int (double_units (nat \<bar>m\<bar>) e)"
proof (cases "m = 0")
  case False
  obtain m' e' where d: "mk_dec m e = Dec m' e'" by (rule mk_dec_Dec)
  from double_units_mk_dec [OF False d] False show ?thesis
    by (auto simp: d sgn_if)
qed (simp add: mk_dec.simps)

lemma num_units_to_double:
  assumes "\<forall>neg. to_double (Dec m e) \<noteq> Infinite neg"
  shows "num_units (to_double (Dec m e)) = num_units (Dec m e)"
proof -
  define r where "r = double_units (nat \<bar>m\<bar>) e"
  obtain s t where st: "shortest_decimal r = (s, t)" by fastforce
  consider "m = 0" | "m \<noteq> 0" "r = 0" | "m \<noteq> 0" "0 < r" "r < 2 ^ 2098"
    using assms by (auto simp: to_double.simps r_def Let_def not_le split: if_splits)
  then show ?thesis
  proof cases
    case 3
    have denotes: "double_units s t = r"
      by (rule shortest_decimal_denotes [OF r_def st])
    with 3(2) have "s \<noteq> 0" by (cases s) simp_all
    with 3 st denotes show ?thesis
      by (auto simp: to_double.simps r_def [symmetric] Let_def num_units_mk_dec sgn_if)
  qed (simp_all add: to_double.simps r_def)
qed

text \<open>Reading a decimal that does not overflow gives the double nearest to it.\<close>

lemma to_double_nearest:
  assumes "\<forall>neg. to_double (Dec m e) \<noteq> Infinite neg"
  shows "nearest (m * 10 ^ nat e * 2 ^ unit_exponent) (10 ^ nat (- e)) (num_units (to_double (Dec m e)))"
  using num_units_nearest [of m e] num_units_to_double [OF assms] by simp

section \<open>Integers\<close>

text \<open>The number that the text of an integer is read as.\<close>

abbreviation double_of :: "int \<Rightarrow> jsnum" where
  "double_of n \<equiv> to_double (mk_dec n 0)"

lemma double_of_units:
  assumes "\<bar>n\<bar> \<le> 2 ^ 64"
  shows "num_units (double_of n) = sgn n * int (double_units (nat \<bar>n\<bar>) 0)"
proof -
  obtain m e where d: "mk_dec n 0 = Dec m e" by (rule mk_dec_Dec)
  have "num_units (double_of n) = num_units (mk_dec n 0)"
    unfolding d by (rule num_units_to_double) (use integer_finite [OF assms] d in simp)
  then show ?thesis by (simp add: num_units_mk_dec)
qed

lemma double_of_nearest:
  assumes "\<bar>n\<bar> \<le> 2 ^ 64"
  shows "nearest (n * 2 ^ unit_exponent) 1 (num_units (double_of n))"
  using num_units_nearest [of n 0] by (simp add: double_of_units [OF assms])

lemma representable_round: "0 < b \<Longrightarrow> representable (round_ratio a b)"
  using rounded_multiple by (simp add: representable_def last_place_def)

lemma round_ratio_representable: "representable r \<Longrightarrow> round_ratio r 1 = r"
  by (simp add: representable_def last_place_def round_ratio_def div_even_exact Let_def)

lemma representable_power: "representable (2 ^ k)"
  by (simp add: representable_def last_place_def bit_length_power le_imp_power_dvd)

lemma representable_shift:
  assumes "n < 2 ^ 53"
  shows "representable (n * 2 ^ k)"
proof -
  have "n * 2 ^ k < 2 ^ 53 * 2 ^ k" using assms by simp
  then have "bit_length (n * 2 ^ k) - 53 \<le> k" using bit_length_le [of "n * 2 ^ k" "53 + k"] by (simp add: power_add)
  then show ?thesis by (simp add: representable_def last_place_def le_imp_power_dvd dvd_mult)
qed

lemma double_units_small: "n < 2 ^ 53 \<Longrightarrow> double_units n 0 = n * 2 ^ unit_exponent"
  by (simp only: double_units_int round_ratio_representable [OF representable_shift])

lemma double_units_large:
  assumes "2 ^ k \<le> n"
  shows "2 ^ (k + unit_exponent) \<le> double_units n 0"
proof (rule ccontr)
  assume "\<not> 2 ^ (k + unit_exponent) \<le> double_units n 0"
  then have less: "int (double_units n 0) < 2 ^ (k + unit_exponent)"
    by (metis not_le of_nat_less_iff of_nat_numeral of_nat_power)
  have "2 ^ k * 2 ^ unit_exponent \<le> n * 2 ^ unit_exponent" using assms by (rule mult_le_mono1)
  then have "2 ^ (k + unit_exponent) \<le> int (n * 2 ^ unit_exponent)"
    by (metis of_nat_le_iff of_nat_numeral of_nat_power power_add)
  moreover have "representable (nat \<bar>2 ^ (k + unit_exponent)\<bar>)"
    using representable_power [of "k + unit_exponent"] by (simp add: nat_power_eq)
  then have "\<bar>int (n * 2 ^ unit_exponent) - int (double_units n 0) * int 1\<bar>
      \<le> \<bar>int (n * 2 ^ unit_exponent) - 2 ^ (k + unit_exponent) * int 1\<bar>"
    using round_ratio_nearest [of 1 "n * 2 ^ unit_exponent"]
    unfolding nearest_def double_units_int by (fastforce simp del: of_nat_1)
  ultimately show False using less by simp
qed

text \<open>Safe integers are exact: they are read as themselves, and printed as they were.\<close>

lemma find_before: "find P (xs @ y # ys) = Some z \<Longrightarrow> P y \<Longrightarrow> z \<in> set (xs @ [y]) \<and> P z"
  by (induction xs) (auto split: if_splits)

lemma find_exists: "P y \<Longrightarrow> find P (xs @ y # ys) \<noteq> None"
  by (induction xs) auto

lemma digit_count_le: "n < 10 ^ k \<Longrightarrow> digit_count n \<le> k"
proof (induction n arbitrary: k rule: digit_count.induct)
  case (1 n)
  show ?case
  proof (cases "n = 0")
    case False
    with "1.prems" obtain j where k: "k = Suc j" by (cases k) auto
    with "1.prems" have "n div 10 < 10 ^ j" by (simp add: less_mult_imp_div_less)
    with False 1 k show ?thesis by (subst digit_count.simps) simp
  qed (simp add: digit_count.simps)
qed

lemma digit_count_shift: "n \<noteq> 0 \<Longrightarrow> digit_count (n * 10 ^ k) = digit_count n + k"
proof (induction k)
  case (Suc k)
  then show ?case
    by (subst digit_count.simps) (simp add: mult.left_commute)
qed simp

lemma digit_count_pos: "n \<noteq> 0 \<Longrightarrow> 0 < digit_count n"
  by (subst digit_count.simps) simp

text \<open>The search meets the integer itself, and before it only multiples of powers of ten.\<close>

lemma decimals_near_integer:
  assumes "n \<noteq> 0" and "n < 10 ^ 17"
  obtains xs ys where "decimals_near (n * 2 ^ unit_exponent) = xs @ (n, 0) # ys" and "\<forall>(s, t) \<in> set xs. 0 \<le> t"
proof -
  define D where "D = digit_count n"
  define l where "l = digit_count (n * 2 ^ unit_exponent * 10 ^ 400 div 2 ^ unit_exponent)"
  have n: "n * 2 ^ unit_exponent * 10 ^ 400 = n * 10 ^ 400 * 2 ^ unit_exponent"
    by (simp only: mult.assoc mult.left_commute mult.commute)
  have l: "l = D + 400"
    unfolding l_def n D_def using digit_count_shift [OF assms(1), of 400] by simp
  define f where "f k = (let b = 2 ^ unit_exponent * 10 ^ (l - k);
      q = n * 2 ^ unit_exponent * 10 ^ 400 div b; t = int (l - k) - 400 in
      if 2 * (n * 2 ^ unit_exponent * 10 ^ 400 mod b) \<le> b then [(q, t), (q + 1, t)] else [(q + 1, t), (q, t)])" for k
  have D: "1 \<le> D" "D < 18"
    using digit_count_pos [OF assms(1)] digit_count_le [OF assms(2)] by (simp_all add: D_def)
  then have ks: "[1..<18] = [1..<D] @ D # [Suc D..<18]"
    using upt_add_eq_append [of 1 D "18 - D"] upt_conv_Cons [of D 18] by simp
  have "decimals_near (n * 2 ^ unit_exponent) = concat (map f [1..<18])"
    unfolding decimals_near_def f_def l_def Let_def by (rule refl)
  then have near: "decimals_near (n * 2 ^ unit_exponent)
      = concat (map f [1..<D]) @ f D @ concat (map f [Suc D..<18])"
    by (simp only: ks map_append list.map concat_append concat.simps)
  have "f D = [(n, 0), (n + 1, 0)]"
    by (simp add: f_def l n mult.assoc mult.commute [of "2 ^ unit_exponent"])
  moreover have "\<forall>(s, t) \<in> set (f k). 0 \<le> t" if "k < D" for k
    using that by (auto simp: f_def l Let_def)
  then have "\<forall>(s, t) \<in> set (concat (map f [1..<D])). 0 \<le> t" by fastforce
  ultimately show thesis
    using near that [of "concat (map f [1..<D])" "(n + 1, 0) # concat (map f [Suc D..<18])"] by simp
qed

lemma shortest_decimal_integer:
  assumes "n \<noteq> 0" and "n < 2 ^ 53" and "shortest_decimal (n * 2 ^ unit_exponent) = (s, t)"
  shows "0 \<le> t \<and> s * 10 ^ nat t = n"
proof -
  have "n < 10 ^ 17" using assms(2) by simp
  with assms(1) obtain xs ys where
    near: "decimals_near (n * 2 ^ unit_exponent) = xs @ (n, 0) # ys" "\<forall>(s, t) \<in> set xs. 0 \<le> t"
    by (rule decimals_near_integer)
  define P where "P = (\<lambda>(s, t). double_units s t = n * 2 ^ unit_exponent)"
  have P: "P (n, 0)" by (simp add: P_def double_units_small [OF assms(2)])
  then have "find P (decimals_near (n * 2 ^ unit_exponent)) = Some (s, t)"
    using find_exists [of P "(n, 0)" xs ys] assms(3) by (auto simp: shortest_decimal_def P_def near(1))
  then have found: "(s, t) \<in> set (xs @ [(n, 0)])" "P (s, t)"
    using find_before [of P xs "(n, 0)" ys] P near(1) by auto
  then have t: "0 \<le> t" using near(2) by auto
  then have units: "double_units (s * 10 ^ nat t) 0 = n * 2 ^ unit_exponent"
    using found(2) by (simp add: double_units_zeros P_def)
  moreover have "s * 10 ^ nat t < 2 ^ 53"
  proof (rule ccontr)
    assume "\<not> s * 10 ^ nat t < 2 ^ 53"
    then have "2 ^ (53 + unit_exponent) \<le> n * 2 ^ unit_exponent"
      using double_units_large [of 53 "s * 10 ^ nat t"] units by simp
    moreover have "n * 2 ^ unit_exponent < 2 ^ 53 * 2 ^ unit_exponent" using assms(2) by simp
    ultimately show False by (simp only: power_add)
  qed
  ultimately show ?thesis using t double_units_small by fastforce
qed

lemma double_of_exact:
  assumes "\<bar>n\<bar> < 2 ^ 53"
  shows "double_of n = mk_dec n 0"
proof (cases "n = 0")
  case False
  define N where "N = nat \<bar>n\<bar>"
  have N: "N \<noteq> 0" "N < 2 ^ 53" using False assms by (simp_all add: N_def nat_less_iff)
  obtain m e where d: "mk_dec n 0 = Dec m e" by (rule mk_dec_Dec)
  obtain s t where st: "shortest_decimal (N * 2 ^ unit_exponent) = (s, t)" by fastforce
  note s = shortest_decimal_integer [OF N st]
  have units: "double_units (nat \<bar>m\<bar>) e = N * 2 ^ unit_exponent" and m: "m \<noteq> 0" "n < 0 \<longleftrightarrow> m < 0"
    using double_units_mk_dec [OF False d] double_units_small [OF N(2)] by (simp_all add: N_def)
  have "N * 2 ^ unit_exponent < 2 ^ 53 * 2 ^ unit_exponent" using N(2) by simp
  also have "\<dots> < (2 :: nat) ^ 2098"
    by (simp only: power_add [symmetric]) (simp add: unit_exponent_def)
  finally have small: "N * 2 ^ unit_exponent < 2 ^ 2098" .
  define s' where "s' = (if m < 0 then - int s else int s)"
  define r where "r = N * 2 ^ unit_exponent"
  have "r \<noteq> 0" "\<not> 2 ^ 2098 \<le> r" using small N(1) unfolding r_def not_le by simp_all
  then have "double_of n = mk_dec s' t"
    using units m(1) st unfolding r_def [symmetric] by (simp add: d to_double.simps Let_def s'_def)
  also have "\<dots> = mk_dec (s' * 10 ^ nat t) 0"
    using s N(1) mk_dec_shift [of s' "nat t" 0] by (auto simp: s'_def)
  also have "s' * 10 ^ nat t = (if m < 0 then - int N else int N)"
    using s by (auto simp: s'_def)
  finally show ?thesis using m False by (auto simp: N_def split: if_splits)
qed (simp add: mk_dec.simps to_double.simps)

text \<open>An odd integer above them arrives as another integer, an even one.\<close>

lemma to_double_same_units:
  assumes "m \<noteq> 0" and "n \<noteq> 0" and "m < 0 \<longleftrightarrow> n < 0"
    and "double_units (nat \<bar>m\<bar>) e = double_units (nat \<bar>n\<bar>) f"
  shows "to_double (mk_dec m e) = to_double (mk_dec n f)"
proof -
  obtain m' e' where d: "mk_dec m e = Dec m' e'" by (rule mk_dec_Dec)
  obtain n' f' where d': "mk_dec n f = Dec n' f'" by (rule mk_dec_Dec)
  from double_units_mk_dec [OF assms(1) d] double_units_mk_dec [OF assms(2) d'] assms(3,4)
  show ?thesis by (simp add: d d' to_double.simps Let_def)
qed

lemma double_of_odd:
  assumes "odd n" and "2 ^ 53 < \<bar>n\<bar>" and "\<bar>n\<bar> \<le> 2 ^ 64"
  shows "\<exists>n'. even n' \<and> num_units (double_of n) = n' * 2 ^ unit_exponent \<and> double_of n' = double_of n"
proof -
  define N r where "N = nat \<bar>n\<bar>" and "r = double_units N 0"
  have "2 ^ 53 \<le> N" using assms(2) by (simp add: N_def le_nat_iff)
  then have r: "2 ^ (53 + unit_exponent) \<le> r" unfolding r_def by (rule double_units_large)
  have rep: "representable r" by (simp add: r_def double_units_def representable_round)
  have "2 ^ Suc unit_exponent dvd r"
    using representable_coarse [OF rep, of "Suc unit_exponent"] r by fastforce
  then obtain k where k: "r = 2 ^ Suc unit_exponent * k" by (auto simp: dvd_def)
  define N' where "N' = 2 * k"
  have N': "r = N' * 2 ^ unit_exponent" "even N'" by (simp_all add: k N'_def)
  have "N' \<noteq> 0" using N' r by (cases "N' = 0") simp_all
  have "double_units N' 0 = r"
    using round_ratio_representable [OF rep] by (simp add: double_units_int N'(1) [symmetric])
  moreover have "n \<noteq> 0" using assms(1) by auto
  ultimately have "double_of (sgn n * int N') = double_of n"
    using \<open>N' \<noteq> 0\<close> by (intro to_double_same_units) (auto simp: r_def N_def sgn_if abs_mult)
  then show ?thesis
    using N' double_of_units [OF assms(3)] by (intro exI [of _ "sgn n * int N'"]) (simp add: N_def [symmetric] r_def [symmetric])
qed

end
