(* ===== verification/Json_Value.thy ===== *)
theory Json_Value
  imports Js_Number
begin

text \<open>
  The JavaScript values the client handles once a response is parsed, with the operations the
  source applies to them: truthiness, property reads, and conversion to a string.
\<close>

section \<open>Decimal digits\<close>

fun nat_digits :: "nat \<Rightarrow> js_string" where
  "nat_digits n =
     (if n < 10 then [word_of_nat (48 + n)] else nat_digits (n div 10) @ [word_of_nat (48 + n mod 10)])"

declare nat_digits.simps [simp del]

definition is_digit :: "code_unit \<Rightarrow> bool" where
  "is_digit c \<longleftrightarrow> 48 \<le> c \<and> c \<le> 57"

definition digit_val :: "code_unit \<Rightarrow> nat" where
  "digit_val c = unat c - 48"

definition digits_val :: "js_string \<Rightarrow> nat" where
  "digits_val ds = foldl (\<lambda>n c. 10 * n + digit_val c) 0 ds"

lemma unat_digit: "n < 10 \<Longrightarrow> unat (word_of_nat (48 + n) :: code_unit) = 48 + n"
  by (simp add: unat_of_nat del: of_nat_add)

lemma is_digit_word: "n < 10 \<Longrightarrow> is_digit (word_of_nat (48 + n))"
  unfolding is_digit_def word_le_nat_alt by (simp add: unat_digit del: of_nat_add)

lemma digit_val_word: "n < 10 \<Longrightarrow> digit_val (word_of_nat (48 + n)) = n"
  unfolding digit_val_def by (simp add: unat_digit del: of_nat_add)

lemma digits_val_snoc: "digits_val (ds @ [c]) = 10 * digits_val ds + digit_val c"
  by (simp add: digits_val_def)

lemma digits_val_nat_digits: "digits_val (nat_digits n) = n"
proof (induction n rule: nat_digits.induct)
  case (1 n)
  then show ?case
    by (subst nat_digits.simps)
      (auto simp: digits_val_snoc digit_val_word digits_val_def simp del: of_nat_add)
qed

lemma nat_digits_digits: "c \<in> set (nat_digits n) \<Longrightarrow> is_digit c"
proof (induction n rule: nat_digits.induct)
  case (1 n)
  from "1.prems" show ?case
    by (subst (asm) nat_digits.simps)
      (auto simp del: of_nat_add split: if_splits intro: is_digit_word dest: "1.IH")
qed

lemma nat_digits_ne [simp]: "nat_digits n \<noteq> []"
  by (subst nat_digits.simps) simp

lemma hd_nat_digits: "0 < n \<Longrightarrow> hd (nat_digits n) \<noteq> 48"
proof (induction n rule: nat_digits.induct)
  case (1 n)
  show ?case
  proof (cases "n < 10")
    case True
    then have "unat (word_of_nat (48 + n) :: code_unit) \<noteq> unat (48 :: code_unit)"
      using "1.prems" by (simp add: unat_digit del: of_nat_add)
    then have "(word_of_nat (48 + n) :: code_unit) \<noteq> 48" by metis
    with True show ?thesis by (subst nat_digits.simps) (simp del: of_nat_add)
  next
    case False
    then have "0 < n div 10" by simp
    with False 1 show ?thesis by (subst nat_digits.simps) simp
  qed
qed

lemma digits_val_zeros: "digits_val (ds @ replicate k 48) = digits_val ds * 10 ^ k"
proof (induction k)
  case (Suc k)
  have "digits_val ((ds @ replicate k 48) @ [48]) = 10 * digits_val (ds @ replicate k 48)"
    by (simp only: digits_val_snoc) (simp add: digit_val_def)
  with Suc show ?case by (simp add: replicate_append_same)
qed (simp add: digits_val_def)

lemma digits_val_leading_zeros: "digits_val (replicate k 48 @ ds) = digits_val ds"
  unfolding digits_val_def
  by (induction k) (auto simp: digit_val_def)

text \<open>
  Printing, as \<open>Number::toString\<close> does with radix ten: plain digits while the decimal point
  falls within the first 21 places, leading zeros down to \<open>1e-6\<close>, an exponent otherwise.
\<close>

definition print_decimal :: "nat \<Rightarrow> int \<Rightarrow> js_string" where
  "print_decimal m e =
     (let ds = nat_digits m; k = int (length ds); n = k + e in
      if k \<le> n \<and> n \<le> 21 then ds @ replicate (nat (n - k)) 48
      else if 0 < n \<and> n \<le> 21 then take (nat n) ds @ [46] @ drop (nat n) ds
      else if -6 < n \<and> n \<le> 0 then [48, 46] @ replicate (nat (- n)) 48 @ ds
      else let ex = [101, if 1 \<le> n then 43 else 45] @ nat_digits (nat \<bar>n - 1\<bar>) in
        if length ds = 1 then ds @ ex else [hd ds, 46] @ tl ds @ ex)"

fun num_to_string :: "jsnum \<Rightarrow> js_string" where
  "num_to_string (Dec m e) =
     (if m = 0 then [48]
      else if m < 0 then 45 # print_decimal (nat (- m)) e
      else print_decimal (nat m) e)"
| "num_to_string (Infinite neg) = (if neg then js ''-Infinity'' else js ''Infinity'')"

section \<open>Values\<close>

text \<open>
  What \<open>JSON.parse\<close> produces, plus \<open>undefined\<close>. An object is the list of its own
  properties in the order they were added (for a key that is an array index the engine's own
  order differs, which no modelled code observes).
\<close>

datatype jsval =
    JUndefined
  | JNull
  | JBool bool
  | JNum jsnum
  | JStr js_string
  | JArr "jsval list"
  | JObj "(js_string \<times> jsval) list"

fun js_truthy :: "jsval \<Rightarrow> bool" where
  "js_truthy JUndefined = False"
| "js_truthy JNull = False"
| "js_truthy (JBool b) = b"
| "js_truthy (JNum n) = (\<not> num_is_zero n)"
| "js_truthy (JStr s) = (s \<noteq> [])"
| "js_truthy (JArr vs) = True"
| "js_truthy (JObj kvs) = True"

text \<open>
  Reading the property \<open>k\<close>. Reading from \<open>undefined\<close> or \<open>null\<close> throws; a property that
  is not there is \<open>undefined\<close>. Strings and arrays have a \<open>length\<close>; the other properties
  the source reads (\<open>result\<close>, \<open>content\<close>, \<open>code\<close>, \<open>error\<close>, \<open>httpStatus\<close>,
  \<open>journals\<close>, \<open>shards\<close>, \<open>spec\<close>, \<open>status\<close>) belong to no built-in prototype.
\<close>

definition prop_value :: "js_string \<Rightarrow> (js_string \<times> jsval) list \<Rightarrow> jsval" where
  "prop_value k kvs = (case map_of kvs k of None \<Rightarrow> JUndefined | Some v \<Rightarrow> v)"

fun js_get :: "jsval \<Rightarrow> js_string \<Rightarrow> jsval completion" where
  "js_get JUndefined k = Inl TypeError"
| "js_get JNull k = Inl TypeError"
| "js_get (JBool b) k = Inr JUndefined"
| "js_get (JNum n) k = Inr JUndefined"
| "js_get (JStr s) k = Inr (if k = js ''length'' then JNum (num_of_nat (length s)) else JUndefined)"
| "js_get (JArr vs) k = Inr (if k = js ''length'' then JNum (num_of_nat (length vs)) else JUndefined)"
| "js_get (JObj kvs) k = Inr (prop_value k kvs)"

text \<open>\<open>v?.k\<close>: \<open>undefined\<close> instead of a throw.\<close>

definition js_get_opt :: "jsval \<Rightarrow> js_string \<Rightarrow> jsval completion" where
  "js_get_opt v k = (if v = JUndefined \<or> v = JNull then Inr JUndefined else js_get v k)"

text \<open>
  Conversion to a string. An array joins its elements; a plain object is
  \<open>[object Object]\<close>, unless it has a property \<open>toString\<close> of its own, which is not a
  function in data that came from JSON, so that the conversion throws.
\<close>

fun js_to_string :: "jsval \<Rightarrow> js_string completion"
  and js_join_elems :: "jsval list \<Rightarrow> js_string list completion" where
  "js_to_string JUndefined = Inr (js ''undefined'')"
| "js_to_string JNull = Inr (js ''null'')"
| "js_to_string (JBool b) = Inr (if b then js ''true'' else js ''false'')"
| "js_to_string (JNum n) = Inr (num_to_string n)"
| "js_to_string (JStr s) = Inr s"
| "js_to_string (JArr vs) = bindC (js_join_elems vs) (\<lambda>ps. Inr (js_join (js '','') ps))"
| "js_to_string (JObj kvs) =
     (if map_of kvs (js ''toString'') = None then Inr (js ''[object Object]'') else Inl TypeError)"
| "js_join_elems [] = Inr []"
| "js_join_elems (v # vs) =
     bindC (if v = JUndefined \<or> v = JNull then Inr [] else js_to_string v)
       (\<lambda>p. bindC (js_join_elems vs) (\<lambda>ps. Inr (p # ps)))"

lemma num_of_nat_zero: "num_is_zero (num_of_nat n) \<longleftrightarrow> n = 0"
proof -
  have *: "\<not> num_is_zero (mk_dec m e)" if "0 < m" "0 \<le> e" for m e
    using that
  proof (induction m e rule: mk_dec.induct)
    case (1 m e)
    then show ?case
      by (subst mk_dec.simps) (auto simp: pos_imp_zdiv_pos_iff zmod_eq_0_iff)
  qed
  show ?thesis
    using * [of "int n" 0] by (cases "n = 0") (auto simp: num_of_nat_def mk_dec.simps)
qed

text \<open>A chunk or value of an object type is always truthy.\<close>

fun is_object :: "jsval \<Rightarrow> bool" where
  "is_object (JArr vs) = True"
| "is_object (JObj kvs) = True"
| "is_object v = False"

lemma is_object_truthy: "is_object v \<Longrightarrow> js_truthy v"
  by (cases v) auto

end
