(* ===== verification/Package_Build.thy ===== *)
theory Package_Build
  imports Json_Value
begin

text \<open>
  \<open>client/bin/build_package.ts\<close> and the \<open>client/dist/package.json\<close> it produced: what was asked for, what
  was published, and which entry point a program gets. The packaging library is a parameter.
\<close>

section \<open>The build script\<close>

definition package_fields :: "(js_string \<times> jsval) list" where
  "package_fields =
     [(js ''name'', JStr (js ''data-plane-gateway'')),
      (js ''version'', JStr (js ''0.0.0'')),
      (js ''description'', JStr (js ''Client library for interacting with the Flow / Gazette gateway.'')),
      (js ''homepage'', JStr (js ''https://github.com/estuary/data-plane-gateway'')),
      (js ''author'', JStr (js ''Alex Burkhart'')),
      (js ''license'', JStr (js ''MIT'')),
      (js ''repository'', JObj
        [(js ''type'', JStr (js ''git'')),
         (js ''url'', JStr (js ''github.com/estuary/data-plane-gateway'')),
         (js ''directory'', JStr (js ''client''))]),
      (js ''publishConfig'', JObj [(js ''registry'', JStr (js ''https://npm.pkg.github.com''))]),
      (js ''dependencies'', JObj [])]"

definition build_options :: jsval where
  "build_options = JObj
     [(js ''entryPoints'', JArr [JStr (js ''client/src/index.ts'')]),
      (js ''outDir'', JStr (js ''client/dist'')),
      (js ''compilerOptions'', JObj [(js ''lib'', JArr [JStr (js ''es2021''), JStr (js ''dom'')])]),
      (js ''shims'', JObj []),
      (js ''rootTestDir'', JStr (js ''client/test'')),
      (js ''test'', JBool False),
      (js ''package'', JObj package_fields)]"

definition build_package :: "(js_string \<Rightarrow> 'fs \<Rightarrow> 'fs) \<Rightarrow> (jsval \<Rightarrow> 'fs \<Rightarrow> 'fs) \<Rightarrow> 'fs \<Rightarrow> 'fs" where
  "build_package emptyDir build fs = build build_options (emptyDir (js ''./dist'') fs)"

text \<open>
  The directory that is emptied is not the one that is built: a file in \<open>client/dist\<close> that the build does
  not write again stays in the package.
\<close>

lemma stale_files_stay:
  fixes fs :: "js_string \<Rightarrow> 'content option"
  assumes "\<And>fs p. \<not> prefix (js ''dist/'') p \<Longrightarrow> emptyDir (js ''./dist'') fs p = fs p"
    and "\<And>fs p. p \<notin> written \<Longrightarrow> build build_options fs p = fs p"
    and "prefix (js ''client/dist/'') p" and "p \<notin> written"
  shows "build_package emptyDir build fs p = fs p"
proof -
  have "\<not> prefix (js ''dist/'') p"
    using assms(3) by (auto simp: prefix_def js_def)
  with assms(1,2,4) show ?thesis by (simp add: build_package_def)
qed

section \<open>The published package\<close>

definition package_json :: jsval where
  "package_json = JObj
     [(js ''module'', JStr (js ''./esm/index.js'')),
      (js ''main'', JStr (js ''./script/index.js'')),
      (js ''types'', JStr (js ''./types/index.d.ts'')),
      (js ''name'', JStr (js ''data-plane-gateway'')),
      (js ''version'', JStr (js ''0.0.0'')),
      (js ''description'', JStr (js ''Client library for interacting with the Flow / Gazette gateway.'')),
      (js ''homepage'', JStr (js ''https://github.com/estuary/data-plane-gateway'')),
      (js ''author'', JStr (js ''Alex Burkhart'')),
      (js ''license'', JStr (js ''MIT'')),
      (js ''repository'', JObj
        [(js ''type'', JStr (js ''git'')),
         (js ''url'', JStr (js ''github.com/estuary/data-plane-gateway'')),
         (js ''directory'', JStr (js ''client''))]),
      (js ''publishConfig'', JObj [(js ''registry'', JStr (js ''https://npm.pkg.github.com''))]),
      (js ''dependencies'', JObj []),
      (js ''exports'', JObj
        [(js ''.'', JObj
          [(js ''import'', JStr (js ''./esm/index.js'')),
           (js ''require'', JStr (js ''./script/index.js'')),
           (js ''types'', JStr (js ''./types/index.d.ts''))])]),
      (js ''devDependencies'', JObj [])]"

text \<open>
  The file a program gets for the package's name: the first key of the entry \<open>.\<close> of \<open>exports\<close> that is one of
  the conditions under which it asks.
\<close>

definition resolve_package :: "js_string list \<Rightarrow> jsval \<Rightarrow> js_string option" where
  "resolve_package conditions package =
     (case bindC (js_get package (js ''exports'')) (\<lambda>ex. js_get ex (js ''.'')) of
        Inr (JObj targets) \<Rightarrow>
          (case find (\<lambda>kv. fst kv \<in> set conditions) targets of
             Some (k, JStr file) \<Rightarrow> Some file
           | _ \<Rightarrow> None)
      | _ \<Rightarrow> None)"

lemma package_as_configured:
  "list_all (\<lambda>(k, v). js_get package_json k = Inr v) package_fields"
  by code_simp

lemma package_entry_points:
  "resolve_package [js ''import''] package_json = Some (js ''./esm/index.js'')"
  "resolve_package [js ''require''] package_json = Some (js ''./script/index.js'')"
  by code_simp+

end
