(* ===== verification/Json_Text.thy ===== *)
theory Json_Text
  imports Json_Value
begin

text \<open>
  \<open>JSON.stringify\<close> without a replacer or an indent, and \<open>JSON.parse\<close> without a reviver.
\<close>

section \<open>JSON.stringify\<close>

definition hex_digit :: "nat \<Rightarrow> code_unit" where
  "hex_digit n = (if n < 10 then word_of_nat (48 + n) else word_of_nat (87 + n))"

definition unicode_escape :: "code_unit \<Rightarrow> js_string" where
  "unicode_escape c =
     (let n = unat c in
      [92, 117, hex_digit (n div 4096), hex_digit (n div 256 mod 16), hex_digit (n div 16 mod 16),
       hex_digit (n mod 16)])"

definition is_lead :: "code_unit \<Rightarrow> bool" where
  "is_lead c \<longleftrightarrow> 0xD800 \<le> c \<and> c \<le> 0xDBFF"

definition is_trail :: "code_unit \<Rightarrow> bool" where
  "is_trail c \<longleftrightarrow> 0xDC00 \<le> c \<and> c \<le> 0xDFFF"

definition quote_unit :: "code_unit \<Rightarrow> js_string" where
  "quote_unit c =
     (if c = 8 then [92, 98] else if c = 9 then [92, 116] else if c = 10 then [92, 110]
      else if c = 12 then [92, 102] else if c = 13 then [92, 114] else if c = 34 then [92, 34]
      else if c = 92 then [92, 92] else if c < 32 then unicode_escape c else [c])"

text \<open>A surrogate that is not half of a pair is escaped; a pair is copied.\<close>

fun quote_units :: "js_string \<Rightarrow> js_string" where
  "quote_units [] = []"
| "quote_units [c] = (if is_lead c \<or> is_trail c then unicode_escape c else quote_unit c)"
| "quote_units (c # d # cs) =
     (if is_lead c \<and> is_trail d then c # d # quote_units cs
      else if is_lead c \<or> is_trail c then unicode_escape c @ quote_units (d # cs)
      else quote_unit c @ quote_units (d # cs))"

definition json_quote :: "js_string \<Rightarrow> js_string" where
  "json_quote s = 34 # quote_units s @ [34]"

text \<open>JSON has no infinities.\<close>

definition number_text :: "jsnum \<Rightarrow> js_string" where
  "number_text n = (case n of Dec m e \<Rightarrow> num_to_string n | Infinite neg \<Rightarrow> js ''null'')"

lemma number_text_double [simp]: "is_double n \<Longrightarrow> number_text n = num_to_string n"
  by (cases n) (simp_all add: number_text_def is_double_def)

text \<open>
  A property whose value is \<open>undefined\<close> is left out, an \<open>undefined\<close> element is printed as
  \<open>null\<close>, and \<open>undefined\<close> itself has no JSON text.
\<close>

fun json_stringify :: "jsval \<Rightarrow> js_string option"
  and stringify_elems :: "jsval list \<Rightarrow> js_string list"
  and stringify_props :: "(js_string \<times> jsval) list \<Rightarrow> js_string list" where
  "json_stringify JUndefined = None"
| "json_stringify JNull = Some (js ''null'')"
| "json_stringify (JBool b) = Some (if b then js ''true'' else js ''false'')"
| "json_stringify (JNum n) = Some (number_text n)"
| "json_stringify (JStr s) = Some (json_quote s)"
| "json_stringify (JArr vs) = Some (91 # js_join [44] (stringify_elems vs) @ [93])"
| "json_stringify (JObj kvs) = Some (123 # js_join [44] (stringify_props kvs) @ [125])"
| "stringify_elems [] = []"
| "stringify_elems (v # vs) =
     (case json_stringify v of None \<Rightarrow> js ''null'' | Some t \<Rightarrow> t) # stringify_elems vs"
| "stringify_props [] = []"
| "stringify_props ((k, v) # kvs) =
     (case json_stringify v of None \<Rightarrow> [] | Some t \<Rightarrow> [json_quote k @ 58 # t]) @ stringify_props kvs"

section \<open>JSON.parse\<close>

definition is_ws :: "code_unit \<Rightarrow> bool" where
  "is_ws c \<longleftrightarrow> c = 32 \<or> c = 9 \<or> c = 10 \<or> c = 13"

definition skip_ws :: "js_string \<Rightarrow> js_string" where
  "skip_ws s = dropWhile is_ws s"

definition hex_val :: "code_unit \<Rightarrow> nat option" where
  "hex_val c =
     (let n = unat c in
      if 48 \<le> n \<and> n \<le> 57 then Some (n - 48)
      else if 65 \<le> n \<and> n \<le> 70 then Some (n - 55)
      else if 97 \<le> n \<and> n \<le> 102 then Some (n - 87) else None)"

definition hex4 :: "code_unit \<Rightarrow> code_unit \<Rightarrow> code_unit \<Rightarrow> code_unit \<Rightarrow> code_unit option" where
  "hex4 a b c d =
     (case (hex_val a, hex_val b, hex_val c, hex_val d) of
        (Some p, Some q, Some r, Some s) \<Rightarrow> Some (word_of_nat (p * 4096 + q * 256 + r * 16 + s))
      | _ \<Rightarrow> None)"

definition unescape :: "code_unit \<Rightarrow> code_unit option" where
  "unescape c =
     (if c = 34 \<or> c = 92 \<or> c = 47 then Some c
      else if c = 98 then Some 8 else if c = 102 then Some 12 else if c = 110 then Some 10
      else if c = 114 then Some 13 else if c = 116 then Some 9 else None)"

text \<open>The rest of a string literal behind its opening quote, and what follows the closing one.\<close>

fun parse_units :: "js_string \<Rightarrow> (js_string \<times> js_string) option" where
  "parse_units [] = None"
| "parse_units (c # cs) =
     (if c = 34 then Some ([], cs)
      else if c = 92 then
        (case cs of
           [] \<Rightarrow> None
         | e # r \<Rightarrow>
             if e = 117 then
               (case r of
                  h1 # h2 # h3 # h4 # r' \<Rightarrow>
                    (case hex4 h1 h2 h3 h4 of
                       None \<Rightarrow> None
                     | Some u \<Rightarrow> map_option (apfst ((#) u)) (parse_units r'))
                | _ \<Rightarrow> None)
             else
               (case unescape e of
                  None \<Rightarrow> None
                | Some u \<Rightarrow> map_option (apfst ((#) u)) (parse_units r)))
      else if c < 32 then None
      else map_option (apfst ((#) c)) (parse_units cs))"

text \<open>Numbers: sign and integer part, fraction, exponent.\<close>

definition parse_digits :: "js_string \<Rightarrow> (js_string \<times> js_string) option" where
  "parse_digits s =
     (case takeWhile is_digit s of [] \<Rightarrow> None | c # cs \<Rightarrow> Some (c # cs, dropWhile is_digit s))"

definition parse_int :: "js_string \<Rightarrow> (js_string \<times> js_string) option" where
  "parse_int s =
     (case s of c # cs \<Rightarrow> if c = 48 then Some ([48], cs) else parse_digits s | [] \<Rightarrow> None)"

definition parse_frac :: "js_string \<Rightarrow> (js_string \<times> js_string) option" where
  "parse_frac s =
     (case s of c # cs \<Rightarrow> if c = 46 then parse_digits cs else Some ([], s) | [] \<Rightarrow> Some ([], s))"

definition parse_exp :: "js_string \<Rightarrow> (int \<times> js_string) option" where
  "parse_exp s =
     (case s of
        c # cs \<Rightarrow>
          if c = 101 \<or> c = 69 then
            (case cs of
               d # ds \<Rightarrow>
                 if d = 45 then map_option (apfst (\<lambda>x. - int (digits_val x))) (parse_digits ds)
                 else if d = 43 then map_option (apfst (\<lambda>x. int (digits_val x))) (parse_digits ds)
                 else map_option (apfst (\<lambda>x. int (digits_val x))) (parse_digits cs)
             | [] \<Rightarrow> None)
          else Some (0, s)
      | [] \<Rightarrow> Some (0, s))"

definition parse_unsigned :: "js_string \<Rightarrow> (int \<times> int \<times> js_string) option" where
  "parse_unsigned s =
     (case parse_int s of
        None \<Rightarrow> None
      | Some (ip, s1) \<Rightarrow>
          (case parse_frac s1 of
             None \<Rightarrow> None
           | Some (fp, s2) \<Rightarrow>
               (case parse_exp s2 of
                  None \<Rightarrow> None
                | Some (ex, s3) \<Rightarrow> Some (int (digits_val (ip @ fp)), ex - int (length fp), s3))))"

definition parse_number :: "js_string \<Rightarrow> (jsval \<times> js_string) option" where
  "parse_number s =
     (case s of
        [] \<Rightarrow> None
      | c # cs \<Rightarrow>
          if c = 45 then map_option (\<lambda>(m, e, r). (JNum (to_double (mk_dec (- m) e)), r)) (parse_unsigned cs)
          else map_option (\<lambda>(m, e, r). (JNum (to_double (mk_dec m e)), r)) (parse_unsigned s))"

definition parse_word :: "js_string \<Rightarrow> jsval \<Rightarrow> js_string \<Rightarrow> (jsval \<times> js_string) option" where
  "parse_word w v s = (if prefix w s then Some (v, drop (length w) s) else None)"

text \<open>A repeated key keeps its place and takes the later value.\<close>

fun obj_put :: "(js_string \<times> jsval) list \<Rightarrow> js_string \<Rightarrow> jsval \<Rightarrow> (js_string \<times> jsval) list" where
  "obj_put [] k v = [(k, v)]"
| "obj_put ((k', v') # kvs) k v =
     (if k' = k then (k, v) # kvs else (k', v') # obj_put kvs k v)"

text \<open>
  Values. Each call spends one unit of fuel; \<open>parse_fuel_enough\<close> below shows that twice the
  length of the text and two more is enough for every text, so that \<open>None\<close> always means a
  syntax error.
\<close>

fun parse_value :: "nat \<Rightarrow> js_string \<Rightarrow> (jsval \<times> js_string) option"
  and parse_elems :: "nat \<Rightarrow> js_string \<Rightarrow> (jsval list \<times> js_string) option"
  and parse_members ::
    "nat \<Rightarrow> (js_string \<times> jsval) list \<Rightarrow> js_string \<Rightarrow> ((js_string \<times> jsval) list \<times> js_string) option"
  where
  "parse_value 0 s = None"
| "parse_value (Suc n) s =
     (case skip_ws s of
        [] \<Rightarrow> None
      | c # cs \<Rightarrow>
          if c = 34 then map_option (apfst JStr) (parse_units cs)
          else if c = 91 then
            (case skip_ws cs of
               [] \<Rightarrow> None
             | d # ds \<Rightarrow>
                 if d = 93 then Some (JArr [], ds)
                 else map_option (apfst JArr) (parse_elems n (d # ds)))
          else if c = 123 then
            (case skip_ws cs of
               [] \<Rightarrow> None
             | d # ds \<Rightarrow>
                 if d = 125 then Some (JObj [], ds)
                 else map_option (apfst JObj) (parse_members n [] (d # ds)))
          else if c = 116 then parse_word (js ''true'') (JBool True) (c # cs)
          else if c = 102 then parse_word (js ''false'') (JBool False) (c # cs)
          else if c = 110 then parse_word (js ''null'') JNull (c # cs)
          else parse_number (c # cs))"
| "parse_elems 0 s = None"
| "parse_elems (Suc n) s =
     (case parse_value n s of
        None \<Rightarrow> None
      | Some (v, r) \<Rightarrow>
          (case skip_ws r of
             [] \<Rightarrow> None
           | c # cs \<Rightarrow>
               if c = 93 then Some ([v], cs)
               else if c = 44 then map_option (apfst ((#) v)) (parse_elems n cs)
               else None))"
| "parse_members 0 kvs s = None"
| "parse_members (Suc n) kvs s =
     (case skip_ws s of
        [] \<Rightarrow> None
      | q # qs \<Rightarrow>
          if q \<noteq> 34 then None
          else
            (case parse_units qs of
               None \<Rightarrow> None
             | Some (k, r) \<Rightarrow>
                 (case skip_ws r of
                    [] \<Rightarrow> None
                  | c # cs \<Rightarrow>
                      if c \<noteq> 58 then None
                      else
                        (case parse_value n cs of
                           None \<Rightarrow> None
                         | Some (v, r') \<Rightarrow>
                             (case skip_ws r' of
                                [] \<Rightarrow> None
                              | d # ds \<Rightarrow>
                                  if d = 125 then Some (obj_put kvs k v, ds)
                                  else if d = 44 then parse_members n (obj_put kvs k v) ds
                                  else None)))))"

definition json_fuel :: "js_string \<Rightarrow> nat" where
  "json_fuel s = 2 * length s + 2"

definition json_parse :: "js_string \<Rightarrow> jsval completion" where
  "json_parse s =
     (case parse_value (json_fuel s) s of
        None \<Rightarrow> Inl SyntaxError
      | Some (v, r) \<Rightarrow> if skip_ws r = [] then Inr v else Inl SyntaxError)"

section \<open>The parsers consume their input\<close>

lemma length_skip_ws: "length (skip_ws s) \<le> length s"
  by (simp add: skip_ws_def length_dropWhile_le)

lemma skip_ws_Cons_length: "skip_ws s = c # cs \<Longrightarrow> length cs < length s"
  using length_skip_ws [of s] by simp

lemma parse_units_consumes [consumes]: "parse_units s = Some (t, r) \<Longrightarrow> length r < length s"
proof (induction "length s" arbitrary: s t r rule: less_induct)
  case less
  then have IH: "parse_units u = Some (t', r) \<Longrightarrow> length u < length s \<Longrightarrow> length r < length s"
    for u t' by (meson less_trans)
  from less.prems show ?case
    by (cases s) (auto split: if_splits list.splits option.splits dest!: IH)
qed

lemma parse_digits_consumes [consumes]: "parse_digits s = Some (ds, r) \<Longrightarrow> length r < length s"
proof -
  assume "parse_digits s = Some (ds, r)"
  then have "ds = takeWhile is_digit s" and "ds \<noteq> []" and "r = dropWhile is_digit s"
    by (auto simp: parse_digits_def split: list.splits)
  moreover have "length (takeWhile is_digit s @ dropWhile is_digit s) = length s" by simp
  ultimately show ?thesis
    by (metis add_less_same_cancel2 gr_zeroI length_0_conv length_append less_add_same_cancel2)
qed

lemma parse_int_consumes [consumes]: "parse_int s = Some (ds, r) \<Longrightarrow> length r < length s"
  by (auto simp: parse_int_def split: list.splits if_splits dest: parse_digits_consumes)

lemma parse_frac_consumes: "parse_frac s = Some (ds, r) \<Longrightarrow> length r \<le> length s"
  by (auto simp: parse_frac_def split: list.splits if_splits dest: parse_digits_consumes)

lemma parse_exp_consumes: "parse_exp s = Some (x, r) \<Longrightarrow> length r \<le> length s"
  by (auto simp: parse_exp_def split: list.splits if_splits dest!: parse_digits_consumes)

lemma parse_unsigned_consumes [consumes]:
  "parse_unsigned s = Some (m, e, r) \<Longrightarrow> length r < length s"
  by (auto simp: parse_unsigned_def split: option.splits
      dest!: parse_int_consumes parse_frac_consumes parse_exp_consumes)

lemma parse_number_consumes [consumes]: "parse_number s = Some (v, r) \<Longrightarrow> length r < length s"
  by (auto simp: parse_number_def split: list.splits if_splits dest!: parse_unsigned_consumes)

lemma parse_word_consumes [consumes]:
  "parse_word (js (c # cs)) v s = Some (v', r) \<Longrightarrow> length r < length s"
  by (auto simp: parse_word_def prefix_def split: if_splits)

definition consuming :: "(js_string \<Rightarrow> ('a \<times> js_string) option) \<Rightarrow> bool" where
  "consuming p \<longleftrightarrow> (\<forall>s v r. p s = Some (v, r) \<longrightarrow> length r < length s)"

lemma consumingD: "consuming p \<Longrightarrow> p s = Some (v, r) \<Longrightarrow> length r < length s"
  by (simp add: consuming_def)

lemma consuming_value_step:
  assumes E: "consuming (parse_elems n)" and M: "\<And>kvs. consuming (parse_members n kvs)"
  shows "consuming (parse_value (Suc n))"
  unfolding consuming_def
proof (intro allI impI)
  fix s v r assume parsed: "parse_value (Suc n) s = Some (v, r)"
  then obtain c cs where s: "skip_ws s = c # cs"
    by (auto split: list.splits)
  have "length r < length (c # cs)"
    using parsed unfolding parse_value.simps s list.case
    by (auto simp del: js_Cons split: if_splits list.splits
        dest!: E [THEN consumingD] M [THEN consumingD] skip_ws_Cons_length parse_units_consumes
          parse_word_consumes parse_number_consumes)
  then show "length r < length s"
    using length_skip_ws [of s] s by simp
qed

lemma consuming_elems_step:
  assumes V: "consuming (parse_value n)" and E: "consuming (parse_elems n)"
  shows "consuming (parse_elems (Suc n))"
  unfolding consuming_def
proof (intro allI impI)
  fix s vs r assume "parse_elems (Suc n) s = Some (vs, r)"
  then show "length r < length s"
    by (auto split: if_splits list.splits option.splits
        dest!: V [THEN consumingD] E [THEN consumingD] skip_ws_Cons_length)
qed

lemma consuming_members_step:
  assumes V: "consuming (parse_value n)" and M: "\<And>kvs. consuming (parse_members n kvs)"
  shows "consuming (parse_members (Suc n) kvs)"
  unfolding consuming_def
proof (intro allI impI)
  fix s kvs' r assume "parse_members (Suc n) kvs s = Some (kvs', r)"
  then obtain q qs k u c cs v w d ds where
      s: "skip_ws s = q # qs" "parse_units qs = Some (k, u)" "skip_ws u = c # cs"
    and v: "parse_value n cs = Some (v, w)" "skip_ws w = d # ds"
    and r: "r = ds \<or> parse_members n (obj_put kvs k v) ds = Some (kvs', r)"
    by (auto split: if_splits list.splits option.splits)
  from r have "length r \<le> length ds"
    by (auto dest: M [THEN consumingD])
  with skip_ws_Cons_length [OF s(1)] parse_units_consumes [OF s(2)] skip_ws_Cons_length [OF s(3)]
    consumingD [OF V v(1)] skip_ws_Cons_length [OF v(2)]
  show "length r < length s" by simp
qed

lemma consuming_parsers:
  "consuming (parse_value n) \<and> consuming (parse_elems n) \<and> (\<forall>kvs. consuming (parse_members n kvs))"
proof (induction n)
  case 0
  show ?case by (simp add: consuming_def)
next
  case (Suc n)
  then show ?case
    by (simp add: consuming_value_step consuming_elems_step consuming_members_step
        del: parse_value.simps parse_elems.simps parse_members.simps)
qed

lemma parse_value_consumes [consumes]: "parse_value n s = Some (v, r) \<Longrightarrow> length r < length s"
  by (rule consumingD [OF consuming_parsers [THEN conjunct1]])

section \<open>Enough fuel\<close>

text \<open>
  From twice the length of the text on, plus two for a value and plus three for a list of
  elements or members, the fuel does not matter any more.
\<close>

lemma parse_value_fuel_step:
  assumes IH: "\<And>t n m. length t < length s \<Longrightarrow> 2 * length t + 3 \<le> n \<Longrightarrow> 2 * length t + 3 \<le> m \<Longrightarrow>
      parse_elems n t = parse_elems m t \<and> (\<forall>kvs. parse_members n kvs t = parse_members m kvs t)"
    and n: "2 * length s + 2 \<le> n" and m: "2 * length s + 2 \<le> m"
  shows "parse_value n s = parse_value m s"
proof -
  from n m obtain n' m' where nm: "n = Suc n'" "m = Suc m'"
    by (cases n; cases m) auto
  have *: "parse_elems n' (d # ds) = parse_elems m' (d # ds)
      \<and> parse_members n' [] (d # ds) = parse_members m' [] (d # ds)"
    if "skip_ws s = c # cs" "skip_ws cs = d # ds" for c cs d ds
  proof -
    have "length (c # cs) \<le> length s" "length (d # ds) \<le> length cs"
      using that length_skip_ws [of s] length_skip_ws [of cs] by simp_all
    then show ?thesis
      using IH [of "d # ds" n' m'] n m nm by simp
  qed
  show ?thesis
  proof (cases "skip_ws s")
    case (Cons c cs)
    then show ?thesis
      using * [OF Cons] unfolding nm parse_value.simps Cons list.case
      by (cases "skip_ws cs") simp_all
  qed (simp add: nm)
qed

lemma parse_elems_fuel_step:
  assumes value_enough: "\<And>n m. 2 * length s + 2 \<le> n \<Longrightarrow> 2 * length s + 2 \<le> m \<Longrightarrow>
      parse_value n s = parse_value m s"
    and IH: "\<And>t n m. length t < length s \<Longrightarrow> 2 * length t + 3 \<le> n \<Longrightarrow> 2 * length t + 3 \<le> m \<Longrightarrow>
      parse_elems n t = parse_elems m t"
    and n: "2 * length s + 3 \<le> n" and m: "2 * length s + 3 \<le> m"
  shows "parse_elems n s = parse_elems m s"
proof -
  from n m obtain n' m' where nm: "n = Suc n'" "m = Suc m'"
    by (cases n; cases m) auto
  have v: "parse_value n' s = parse_value m' s"
    using n m nm by (intro value_enough) simp_all
  have "parse_elems n' cs = parse_elems m' cs"
    if "parse_value m' s = Some (x, r)" "skip_ws r = c # cs" for x r c cs
    using parse_value_consumes [OF that(1)] skip_ws_Cons_length [OF that(2)] n m nm
    by (intro IH) simp_all
  then show ?thesis
    unfolding nm parse_elems.simps v
    by (auto split: option.splits list.splits)
qed

lemma parse_members_fuel_step:
  assumes value_enough: "\<And>t n m. length t < length s \<Longrightarrow> 2 * length t + 2 \<le> n \<Longrightarrow> 2 * length t + 2 \<le> m \<Longrightarrow>
      parse_value n t = parse_value m t"
    and IH: "\<And>t n m kvs. length t < length s \<Longrightarrow> 2 * length t + 3 \<le> n \<Longrightarrow> 2 * length t + 3 \<le> m \<Longrightarrow>
      parse_members n kvs t = parse_members m kvs t"
    and n: "2 * length s + 3 \<le> n" and m: "2 * length s + 3 \<le> m"
  shows "parse_members n kvs s = parse_members m kvs s"
proof -
  from n m obtain n' m' where nm: "n = Suc n'" "m = Suc m'"
    by (cases n; cases m) auto
  have len: "length cs < length s"
    if "skip_ws s = q # qs" "parse_units qs = Some (k, r)" "skip_ws r = c # cs" for q qs k r c cs
    using skip_ws_Cons_length [OF that(1)] parse_units_consumes [OF that(2)]
      skip_ws_Cons_length [OF that(3)] by simp
  have v: "parse_value n' cs = parse_value m' cs" if "length cs < length s" for cs
    using n m nm that by (intro value_enough) simp_all
  have i: "parse_members n' kvs' ds = parse_members m' kvs' ds" if "length ds < length s" for kvs' ds
    using n m nm that by (intro IH) simp_all
  have i': "parse_members n' kvs' ds = parse_members m' kvs' ds"
    if "length cs < length s" "parse_value m' cs = Some (x, r')" "skip_ws r' = d # ds"
    for kvs' cs x r' d ds
    using parse_value_consumes [OF that(2)] skip_ws_Cons_length [OF that(3)] that(1)
    by (intro i) simp
  show ?thesis
    unfolding nm parse_members.simps
    by (auto split: option.split list.split simp: v [OF len] i' [OF len])
qed

lemma parse_fuel_enough:
  "2 * length s + 2 \<le> n \<Longrightarrow> 2 * length s + 2 \<le> m \<Longrightarrow> parse_value n s = parse_value m s"
  "2 * length s + 3 \<le> n \<Longrightarrow> 2 * length s + 3 \<le> m \<Longrightarrow>
     parse_elems n s = parse_elems m s \<and> (\<forall>kvs. parse_members n kvs s = parse_members m kvs s)"
proof (induction "length s" arbitrary: s n m rule: less_induct)
  case less
  note IH_value = less(1) and IH_rest = less(2)
  have value_enough: "2 * length s + 2 \<le> n \<Longrightarrow> 2 * length s + 2 \<le> m \<Longrightarrow>
      parse_value n s = parse_value m s" for n m
    by (rule parse_value_fuel_step [OF IH_rest])
  {
    case 1
    then show ?case by (rule value_enough)
  next
    case 2
    have "parse_elems n s = parse_elems m s"
      by (rule parse_elems_fuel_step [OF value_enough IH_rest [THEN conjunct1] 2])
    moreover have "parse_members n kvs s = parse_members m kvs s" for kvs
      by (rule parse_members_fuel_step [OF IH_value IH_rest [THEN conjunct2, THEN spec] 2])
    ultimately show ?case by simp
  }
qed

declare parse_value.simps [simp del] parse_elems.simps [simp del] parse_members.simps [simp del]

end
