(* ===== verification/Json_Roundtrip.thy ===== *)
theory Json_Roundtrip
  imports Json_Text
begin

text \<open>
  \<open>JSON.parse\<close> reads back what \<open>JSON.stringify\<close> prints. The fuel disappears first:
  \<open>json_value\<close> and its companions satisfy the recursion equations of the grammar.
\<close>

section \<open>Fuel-free equations\<close>

definition json_value :: "js_string \<Rightarrow> (jsval \<times> js_string) option" where
  "json_value s = parse_value (2 * length s + 2) s"

definition json_elems :: "js_string \<Rightarrow> (jsval list \<times> js_string) option" where
  "json_elems s = parse_elems (2 * length s + 3) s"

definition json_members ::
  "(js_string \<times> jsval) list \<Rightarrow> js_string \<Rightarrow> ((js_string \<times> jsval) list \<times> js_string) option" where
  "json_members kvs s = parse_members (2 * length s + 3) kvs s"

lemma json_value_fuel: "2 * length s + 2 \<le> n \<Longrightarrow> parse_value n s = json_value s"
  unfolding json_value_def by (rule parse_fuel_enough(1)) simp_all

lemma json_elems_fuel: "2 * length s + 3 \<le> n \<Longrightarrow> parse_elems n s = json_elems s"
  unfolding json_elems_def by (rule parse_fuel_enough(2) [THEN conjunct1]) simp_all

lemma json_members_fuel: "2 * length s + 3 \<le> n \<Longrightarrow> parse_members n kvs s = json_members kvs s"
  unfolding json_members_def by (rule parse_fuel_enough(2) [THEN conjunct2, THEN spec]) simp_all

lemma json_parse_value:
  "json_parse s = (case json_value s of
      None \<Rightarrow> Inl SyntaxError
    | Some (v, r) \<Rightarrow> if skip_ws r = [] then Inr v else Inl SyntaxError)"
  by (simp add: json_parse_def json_value_def json_fuel_def)

text \<open>One equation per kind of value, with the text starting at the value.\<close>

lemma skip_ws_nonws: "\<not> is_ws c \<Longrightarrow> skip_ws (c # cs) = c # cs"
  by (simp add: skip_ws_def)

lemma json_value_unfold:
  "\<not> is_ws c \<Longrightarrow> json_value (c # cs) = parse_value (Suc (2 * length (c # cs) + 1)) (c # cs)"
  by (simp add: json_value_def)

lemmas value_step = json_value_unfold parse_value.simps(2) skip_ws_nonws is_ws_def

lemma json_value_string: "json_value (34 # cs) = map_option (apfst JStr) (parse_units cs)"
  by (simp add: value_step)

lemma json_value_empty_array: "json_value (91 # 93 # r) = Some (JArr [], r)"
  by (simp add: value_step)

lemma json_value_array:
  "\<not> is_ws d \<Longrightarrow> d \<noteq> 93 \<Longrightarrow> json_value (91 # d # ds) = map_option (apfst JArr) (json_elems (d # ds))"
  by (simp add: value_step json_elems_fuel)

lemma json_value_empty_object: "json_value (123 # 125 # r) = Some (JObj [], r)"
  by (simp add: value_step)

lemma json_value_object:
  "\<not> is_ws d \<Longrightarrow> d \<noteq> 125 \<Longrightarrow>
     json_value (123 # d # ds) = map_option (apfst JObj) (json_members [] (d # ds))"
  by (simp add: value_step json_members_fuel)

lemma digit_zero [simp]: "is_digit 48"
  by (simp add: is_digit_def)

lemma digit_start:
  "is_digit c \<or> c = 45 \<Longrightarrow> \<not> is_ws c \<and> c \<notin> {34, 91, 93, 123, 116, 102, 110}"
  by (auto simp: is_digit_def is_ws_def word_le_nat_alt)

lemma json_value_number:
  "is_digit c \<or> c = 45 \<Longrightarrow> json_value (c # cs) = parse_number (c # cs)"
  using digit_start [of c] by (simp add: value_step)

lemma json_value_words:
  "json_value (js ''null'' @ r) = Some (JNull, r)"
  "json_value (js ''true'' @ r) = Some (JBool True, r)"
  "json_value (js ''false'' @ r) = Some (JBool False, r)"
  by (simp_all add: value_step parse_word_def)

lemma json_elems_unfold:
  "json_elems s =
     (case json_value s of
        None \<Rightarrow> None
      | Some (v, r) \<Rightarrow>
          (case skip_ws r of
             [] \<Rightarrow> None
           | c # cs \<Rightarrow>
               if c = 93 then Some ([v], cs)
               else if c = 44 then map_option (apfst ((#) v)) (json_elems cs)
               else None))"
proof -
  have "json_elems s = parse_elems (Suc (2 * length s + 2)) s"
    by (simp add: json_elems_def eval_nat_numeral)
  moreover have "parse_elems (2 * length s + 2) cs = json_elems cs"
    if "json_value s = Some (v, r)" "skip_ws r = c # cs" for v r c cs
    using that parse_value_consumes skip_ws_Cons_length unfolding json_value_def
    by (intro json_elems_fuel) fastforce
  ultimately show ?thesis
    by (simp add: parse_elems.simps json_value_fuel split: option.split list.split)
qed

lemma json_members_unfold:
  "json_members kvs (34 # qs) =
     (case parse_units qs of
        None \<Rightarrow> None
      | Some (k, r) \<Rightarrow>
          (case skip_ws r of
             [] \<Rightarrow> None
           | c # cs \<Rightarrow>
               if c \<noteq> 58 then None
               else
                 (case json_value cs of
                    None \<Rightarrow> None
                  | Some (v, r') \<Rightarrow>
                      (case skip_ws r' of
                         [] \<Rightarrow> None
                       | d # ds \<Rightarrow>
                           if d = 125 then Some (obj_put kvs k v, ds)
                           else if d = 44 then json_members (obj_put kvs k v) ds
                           else None))))"
proof -
  define n where "n = 2 * length qs + 4"
  have eq: "json_members kvs (34 # qs) = parse_members (Suc n) kvs (34 # qs)"
    by (simp add: json_members_def n_def)
  have len: "length cs < length qs"
    if "parse_units qs = Some (k, r)" "skip_ws r = c # cs" for k r c cs
    using parse_units_consumes [OF that(1)] skip_ws_Cons_length [OF that(2)] by simp
  have v: "parse_value n cs = json_value cs" if "length cs < length qs" for cs
    using that by (intro json_value_fuel) (simp add: n_def)
  have m: "parse_members n kvs' ds = json_members kvs' ds"
    if "length cs < length qs" "json_value cs = Some (x, r')" "skip_ws r' = d # ds"
    for kvs' cs x r' d ds
    using that parse_value_consumes [of _ cs x r'] skip_ws_Cons_length [of r' d ds]
    unfolding json_value_def by (intro json_members_fuel) (fastforce simp: n_def)
  show ?thesis
    unfolding eq
    by (simp add: parse_members.simps skip_ws_nonws is_ws_def v [OF len] m [OF len]
        split: option.split list.split)
qed

section \<open>Strings\<close>

lemma hex_val_digit: "n < 16 \<Longrightarrow> hex_val (hex_digit n) = Some n"
proof -
  assume n: "n < 16"
  then have "unat (hex_digit n) = (if n < 10 then 48 + n else 87 + n)"
    by (simp add: hex_digit_def unat_of_nat del: of_nat_add)
  with n show ?thesis by (simp add: hex_val_def)
qed

lemma hex_horner:
  fixes a b c d :: nat
  assumes "a = b * 16 + p" and "b = c * 16 + q" and "c = d * 16 + r"
  shows "d * 4096 + r * 256 + q * 16 + p = a"
  using assms by simp

lemma hex_digits_sum:
  "n div 4096 * 4096 + n div 256 mod 16 * 256 + n div 16 mod 16 * 16 + n mod 16 = (n :: nat)"
proof -
  have 1: "n div 256 = n div 16 div 16" and 2: "n div 4096 = n div 16 div 16 div 16"
    by (simp_all flip: div_mult2_eq)
  show ?thesis
    unfolding 1 2 by (rule hex_horner [OF div_mult_mod_eq [symmetric] div_mult_mod_eq [symmetric]
          div_mult_mod_eq [symmetric]])
qed

lemma hex4_unicode_escape:
  "hex4 (hex_digit (unat c div 4096)) (hex_digit (unat c div 256 mod 16))
     (hex_digit (unat c div 16 mod 16)) (hex_digit (unat c mod 16)) = Some c"
proof -
  have "unat c < 65536"
    using unsigned_less [of c, where ?'a = nat] by simp
  then have "unat c div 4096 < 16" by simp
  then show ?thesis
    using hex_digits_sum [of "unat c"]
    by (simp add: hex4_def hex_val_digit del: of_nat_add of_nat_mult)
qed

lemma parse_units_escape: "parse_units (unicode_escape c @ s) = map_option (apfst ((#) c)) (parse_units s)"
  by (simp add: unicode_escape_def Let_def hex4_unicode_escape)

lemma parse_units_plain:
  "32 \<le> c \<Longrightarrow> c \<noteq> 34 \<Longrightarrow> c \<noteq> 92 \<Longrightarrow> parse_units (c # s) = map_option (apfst ((#) c)) (parse_units s)"
  by (simp add: leD)

lemma parse_units_quote_unit:
  "parse_units (quote_unit c @ s) = map_option (apfst ((#) c)) (parse_units s)"
proof (cases "c < 32 \<or> c = 34 \<or> c = 92")
  case True
  then show ?thesis
    by (auto simp: quote_unit_def unescape_def parse_units_escape simp del: parse_units.simps)
      (simp_all add: unescape_def)
next
  case False
  then have "quote_unit c = [c]" "32 \<le> c" "c \<noteq> 34" "c \<noteq> 92"
    by (auto simp: quote_unit_def not_less)
  then show ?thesis
    by (simp add: parse_units_plain del: parse_units.simps)
qed

lemma surrogate_plain: "is_lead c \<or> is_trail c \<Longrightarrow> 32 \<le> c \<and> c \<noteq> 34 \<and> c \<noteq> 92"
  by (auto simp: is_lead_def is_trail_def word_le_nat_alt)

lemma parse_units_quote: "parse_units (quote_units s @ 34 # r) = Some (s, r)"
proof (induction s rule: quote_units.induct)
  case (2 c)
  then show ?case
    by (simp add: parse_units_escape parse_units_quote_unit del: parse_units.simps)
      (simp add: parse_units.simps)
next
  case (3 c d cs)
  then show ?case
    using surrogate_plain [of c] surrogate_plain [of d]
    by (auto simp: parse_units_escape parse_units_quote_unit parse_units_plain
        simp del: parse_units.simps)
qed simp

section \<open>Numbers\<close>

text \<open>What may follow a number: not a digit, a point or an exponent mark.\<close>

definition num_end :: "js_string \<Rightarrow> bool" where
  "num_end r \<longleftrightarrow> (case r of [] \<Rightarrow> True | c # _ \<Rightarrow> \<not> is_digit c \<and> c \<noteq> 46 \<and> c \<noteq> 101 \<and> c \<noteq> 69)"

lemma takeWhile_digits:
  "\<forall>c \<in> set ds. is_digit c \<Longrightarrow> r = [] \<or> \<not> is_digit (hd r) \<Longrightarrow>
     takeWhile is_digit (ds @ r) = ds \<and> dropWhile is_digit (ds @ r) = r"
  by (cases r) (auto simp: takeWhile_append dropWhile_append takeWhile_eq_all_conv [THEN iffD2]
      dropWhile_eq_Nil_conv [THEN iffD2])

lemma parse_digits_append:
  assumes "\<forall>c \<in> set ds. is_digit c" and "ds \<noteq> []" and "r = [] \<or> \<not> is_digit (hd r)"
  shows "parse_digits (ds @ r) = Some (ds, r)"
  using takeWhile_digits [OF assms(1,3)] assms(2)
  by (cases ds) (simp_all add: parse_digits_def)

lemma parse_int_append:
  assumes "\<forall>c \<in> set ds. is_digit c" and "ds \<noteq> []" and "hd ds \<noteq> 48" and "r = [] \<or> \<not> is_digit (hd r)"
  shows "parse_int (ds @ r) = Some (ds, r)"
  using parse_digits_append [OF assms(1,2,4)] assms(2,3)
  by (cases ds) (simp_all add: parse_int_def)

lemma num_end_hd: "num_end r \<Longrightarrow> r = [] \<or> \<not> is_digit (hd r)"
  by (auto simp: num_end_def split: list.splits)

lemma parse_frac_none: "num_end r \<Longrightarrow> parse_frac r = Some ([], r)"
  by (auto simp: num_end_def parse_frac_def split: list.splits)

lemma parse_exp_none: "num_end r \<Longrightarrow> parse_exp r = Some (0, r)"
  by (auto simp: num_end_def parse_exp_def split: list.splits)

lemma parse_exp_signed:
  assumes "num_end r"
  shows "parse_exp (101 # (if 0 \<le> x then 43 else 45) # nat_digits (nat \<bar>x\<bar>) @ r) = Some (x, r)"
proof -
  have "parse_digits (nat_digits (nat \<bar>x\<bar>) @ r) = Some (nat_digits (nat \<bar>x\<bar>), r)"
    using assms by (intro parse_digits_append) (auto intro: nat_digits_digits dest: num_end_hd)
  then show ?thesis
    by (auto simp: parse_exp_def digits_val_nat_digits)
qed

lemma not_digit_marks: "\<not> is_digit 46" "\<not> is_digit 101"
  by (simp_all add: is_digit_def word_le_nat_alt)

text \<open>The four shapes of a printed number, read back.\<close>

lemma parse_unsigned_integer:
  assumes "0 < m" and "num_end r"
  shows "parse_unsigned ((nat_digits m @ replicate k 48) @ r) = Some (int m * 10 ^ k, 0, r)"
proof -
  have "parse_int ((nat_digits m @ replicate k 48) @ r) = Some (nat_digits m @ replicate k 48, r)"
    using assms hd_nat_digits [of m]
    by (intro parse_int_append)
      (auto intro: nat_digits_digits dest: num_end_hd)
  then show ?thesis
    using assms(2)
    by (simp add: parse_unsigned_def parse_frac_none parse_exp_none digits_val_zeros
        digits_val_nat_digits)
qed

lemma parse_unsigned_point:
  assumes m: "0 < m" and r: "num_end r" and n: "0 < n" "n < length (nat_digits m)"
  shows "parse_unsigned ((take n (nat_digits m) @ 46 # drop n (nat_digits m)) @ r)
    = Some (int m, - int (length (nat_digits m) - n), r)"
proof -
  let ?ds = "nat_digits m"
  have "parse_int (take n ?ds @ 46 # drop n ?ds @ r) = Some (take n ?ds, 46 # drop n ?ds @ r)"
    using m n hd_nat_digits [OF m]
    by (intro parse_int_append)
      (auto intro: nat_digits_digits dest: in_set_takeD simp: not_digit_marks hd_take)
  moreover have "parse_digits (drop n ?ds @ r) = Some (drop n ?ds, r)"
    using r n by (intro parse_digits_append)
      (auto intro: nat_digits_digits dest: in_set_dropD num_end_hd)
  ultimately show ?thesis
    using r by (simp add: parse_unsigned_def parse_frac_def parse_exp_none digits_val_nat_digits)
qed

lemma parse_unsigned_small:
  assumes r: "num_end r"
  shows "parse_unsigned (([48, 46] @ replicate k 48 @ nat_digits m) @ r)
    = Some (int m, - int (k + length (nat_digits m)), r)"
proof -
  have "parse_digits ((replicate k 48 @ nat_digits m) @ r) = Some (replicate k 48 @ nat_digits m, r)"
    using r by (intro parse_digits_append)
      (auto intro: nat_digits_digits dest: num_end_hd)
  moreover have "digits_val (48 # replicate k 48 @ nat_digits m) = m"
    using digits_val_leading_zeros [of "Suc k" "nat_digits m"] by (simp add: digits_val_nat_digits)
  ultimately show ?thesis
    using r by (simp add: parse_unsigned_def parse_int_def parse_frac_def parse_exp_none)
qed

lemma parse_unsigned_exponent:
  fixes x :: int
  assumes m: "0 < m" and r: "num_end r"
  defines "ds \<equiv> nat_digits m"
    and "ex \<equiv> 101 # (if 0 \<le> x then 43 else 45) # nat_digits (nat \<bar>x\<bar>)"
  shows "parse_unsigned ((if length ds = 1 then ds @ ex else [hd ds, 46] @ tl ds @ ex) @ r)
    = Some (int m, x - int (length ds - 1), r)"
proof -
  have digits: "\<forall>c \<in> set ds. is_digit c" and hd48: "hd ds \<noteq> 48" and ne: "ds \<noteq> []"
    using hd_nat_digits [OF m] by (auto simp: ds_def intro: nat_digits_digits)
  have ex: "parse_exp (ex @ r) = Some (x, r)"
    unfolding ex_def using parse_exp_signed [OF r, of x] by simp
  have ex_hd: "\<not> is_digit (hd (ex @ r))" "ex \<noteq> []" "hd (ex @ r) = 101"
    by (simp_all add: ex_def not_digit_marks)
  have val: "digits_val ds = m" by (simp add: ds_def digits_val_nat_digits)
  show ?thesis
  proof (cases "length ds = 1")
    case True
    have "parse_int (ds @ (ex @ r)) = Some (ds, ex @ r)"
      using digits hd48 ne ex_hd by (intro parse_int_append) auto
    moreover have "parse_frac (ex @ r) = Some ([], ex @ r)"
      by (simp add: ex_def parse_frac_def)
    ultimately show ?thesis
      using True ex val by (simp add: parse_unsigned_def)
  next
    case False
    then obtain c cs where ds: "ds = c # cs" and cs: "cs \<noteq> []"
      using ne by (cases ds) auto
    have "parse_int ([c] @ (46 # cs @ ex @ r)) = Some ([c], 46 # cs @ ex @ r)"
      using digits hd48 ds by (intro parse_int_append) (auto simp: not_digit_marks)
    moreover have "parse_digits (cs @ (ex @ r)) = Some (cs, ex @ r)"
      using digits ds cs ex_hd by (intro parse_digits_append) auto
    ultimately show ?thesis
      using False ex val ds by (simp add: parse_unsigned_def parse_frac_def)
  qed
qed

lemma parse_unsigned_print:
  assumes m: "0 < m" and r: "num_end r"
  shows "\<exists>m' e'. parse_unsigned (print_decimal m e @ r) = Some (m', e', r)
    \<and> mk_dec m' e' = mk_dec (int m) e \<and> mk_dec (- m') e' = mk_dec (- int m) e"
proof -
  define ds where "ds = nat_digits m"
  define n where "n = int (length ds) + e"
  have len: "0 < length ds" by (simp add: ds_def)
  consider (integer) "int (length ds) \<le> n" "n \<le> 21"
    | (point) "n < int (length ds)" "0 < n" "n \<le> 21"
    | (small) "-6 < n" "n \<le> 0"
    | (exponent) "\<not> (int (length ds) \<le> n \<and> n \<le> 21)" "\<not> (0 < n \<and> n \<le> 21)" "\<not> (-6 < n \<and> n \<le> 0)"
    by linarith
  then show ?thesis
  proof cases
    case integer
    then have "print_decimal m e = nat_digits m @ replicate (nat (n - int (length ds))) 48"
      by (simp add: print_decimal_def Let_def ds_def n_def)
    moreover have "int (nat (n - int (length ds))) = e"
      using integer by (simp add: n_def)
    ultimately show ?thesis
      using parse_unsigned_integer [OF m r] mk_dec_shift [of "int m"] mk_dec_shift [of "- int m"] m
      by (auto simp: n_def)
  next
    case point
    then have "print_decimal m e = take (nat n) (nat_digits m) @ 46 # drop (nat n) (nat_digits m)"
      by (simp add: print_decimal_def Let_def ds_def n_def)
    moreover have "- int (length ds - nat n) = e"
      using point by (simp add: n_def)
    ultimately show ?thesis
      using parse_unsigned_point [OF m r, of "nat n"] point by (auto simp: ds_def)
  next
    case small
    moreover from this len have "e < 0" unfolding n_def by linarith
    ultimately have "print_decimal m e = [48, 46] @ replicate (nat (- n)) 48 @ nat_digits m"
      by (simp add: print_decimal_def Let_def ds_def n_def)
    moreover have "- int (nat (- n) + length ds) = e"
      using small by (simp add: n_def)
    ultimately show ?thesis
      using parse_unsigned_small [OF r, of "nat (- n)" m] by (auto simp: ds_def)
  next
    case exponent
    define x where "x = n - 1"
    have "print_decimal m e =
        (if length ds = 1 then ds @ 101 # (if 0 \<le> x then 43 else 45) # nat_digits (nat \<bar>x\<bar>)
         else [hd ds, 46] @ tl ds @ 101 # (if 0 \<le> x then 43 else 45) # nat_digits (nat \<bar>x\<bar>))"
      using exponent unfolding print_decimal_def Let_def ds_def [symmetric] n_def [symmetric] x_def
      by auto
    moreover have "x - int (length ds - 1) = e"
      using len unfolding x_def n_def by linarith
    ultimately show ?thesis
      using parse_unsigned_exponent [OF m r, of x] by (auto simp: ds_def)
  qed
qed

lemma print_decimal_hd: "\<exists>c cs. print_decimal m e = c # cs \<and> is_digit c"
proof -
  obtain c cs where ds: "nat_digits m = c # cs"
    using nat_digits_ne [of m] by (cases "nat_digits m") auto
  then have c: "is_digit c" using nat_digits_digits [of c m] by simp
  show ?thesis
    unfolding print_decimal_def Let_def ds
    using c by (auto simp: take_Cons' split: if_splits)
qed

lemma parse_number_print:
  assumes double: "is_double d" and r: "num_end r"
  shows "\<exists>c cs. num_to_string d = c # cs \<and> (is_digit c \<or> c = 45)
    \<and> parse_number (num_to_string d @ r) = Some (JNum d, r)"
proof -
  obtain m e where Dec: "d = Dec m e" using is_double_Dec [OF double] by blast
  have neg: "\<not> is_digit 45" by (simp add: is_digit_def word_le_nat_alt)
  have canon: "canonical_num d" and same: "to_double d = d"
    using double by (simp_all add: is_double_def)
  have dec: "to_double (mk_dec m e) = d"
    using mk_dec_canonical [OF canon Dec] same by simp
  consider "m = 0" | "m < 0" | "0 < m" by linarith
  then show ?thesis
  proof cases
    case 1
    then show ?thesis
      using Dec canon r
      by (simp add: to_double.simps is_digit_def parse_number_def parse_unsigned_def parse_int_def parse_frac_none
          parse_exp_none digits_val_def digit_val_def mk_dec.simps)
  next
    case 2
    then show ?thesis
      using parse_unsigned_print [of "nat (- m)" r e] r dec Dec
      by (auto simp: parse_number_def)
  next
    case 3
    obtain c cs where p: "print_decimal (nat m) e = c # cs" "is_digit c"
      using print_decimal_hd by blast
    obtain m' e' where "parse_unsigned (print_decimal (nat m) e @ r) = Some (m', e', r)"
      and "mk_dec m' e' = mk_dec m e"
      using parse_unsigned_print [of "nat m" r e] 3 r by auto
    then show ?thesis
      using 3 Dec p dec neg by (auto simp: parse_number_def)
  qed
qed

section \<open>Values\<close>

text \<open>Values that JSON can carry as they are. Their numbers are finite doubles.\<close>

fun wf_json :: "jsval \<Rightarrow> bool" where
  "wf_json JUndefined = False"
| "wf_json JNull = True"
| "wf_json (JBool b) = True"
| "wf_json (JNum n) = is_double n"
| "wf_json (JStr s) = True"
| "wf_json (JArr vs) = (\<forall>v \<in> set vs. wf_json v)"
| "wf_json (JObj kvs) = (distinct (map fst kvs) \<and> (\<forall>p \<in> set kvs. wf_json (snd p)))"

lemma obj_put_new: "k \<notin> fst ` set kvs \<Longrightarrow> obj_put kvs k v = kvs @ [(k, v)]"
  by (induction kvs k v rule: obj_put.induct) auto

definition value_text :: "jsval \<Rightarrow> js_string" where
  "value_text v = (case json_stringify v of None \<Rightarrow> js ''null'' | Some t \<Rightarrow> t)"

lemma wf_json_stringify: "wf_json v \<Longrightarrow> json_stringify v = Some (value_text v)"
  by (cases v) (auto simp: value_text_def)

lemma stringify_elems_map: "stringify_elems vs = map value_text vs"
  by (induction vs) (auto simp: value_text_def)

lemma stringify_props_map:
  "\<forall>p \<in> set kvs. wf_json (snd p) \<Longrightarrow>
     stringify_props kvs = map (\<lambda>(k, v). json_quote k @ 58 # value_text v) kvs"
  by (induction kvs) (auto simp: wf_json_stringify)

definition reads_back :: "jsval \<Rightarrow> bool" where
  "reads_back v \<longleftrightarrow> (\<forall>r. num_end r \<longrightarrow> json_value (value_text v @ r) = Some (v, r))"

lemma value_text_hd: "wf_json v \<Longrightarrow> \<exists>c cs. value_text v = c # cs \<and> \<not> is_ws c \<and> c \<noteq> 93"
  using parse_number_print [of _ "[]"] digit_start
  by (cases v) (fastforce simp: value_text_def is_ws_def json_quote_def num_end_def)+

lemma num_end_close: "num_end (93 # r)" "num_end (125 # r)" "num_end (44 # r)"
  by (simp_all add: num_end_def is_digit_def word_le_nat_alt)

lemma reads_back_elems:
  "vs \<noteq> [] \<Longrightarrow> \<forall>v \<in> set vs. reads_back v \<Longrightarrow>
     json_elems (js_join [44] (map value_text vs) @ 93 # r) = Some (vs, r)"
proof (induction vs rule: induct_list012)
  case (2 v)
  then show ?case
    by (subst json_elems_unfold)
      (simp add: reads_back_def num_end_close skip_ws_nonws is_ws_def)
next
  case (3 v w vs)
  then have "json_value (value_text v @ 44 # js_join [44] (map value_text (w # vs)) @ 93 # r)
      = Some (v, 44 # js_join [44] (map value_text (w # vs)) @ 93 # r)"
    by (simp add: reads_back_def num_end_close)
  with 3 show ?case
    by (subst json_elems_unfold) (simp add: skip_ws_nonws is_ws_def)
qed simp

lemma reads_back_members:
  "kvs \<noteq> [] \<Longrightarrow> \<forall>p \<in> set kvs. reads_back (snd p) \<Longrightarrow> distinct (map fst (acc @ kvs)) \<Longrightarrow>
     json_members acc (js_join [44] (map (\<lambda>(k, v). json_quote k @ 58 # value_text v) kvs) @ 125 # r)
       = Some (acc @ kvs, r)"
proof (induction kvs arbitrary: acc rule: induct_list012)
  case (2 p)
  obtain k v where p: "p = (k, v)" by (cases p)
  with 2 have "json_value (value_text v @ 125 # r) = Some (v, 125 # r)"
    and "obj_put acc k v = acc @ [(k, v)]"
    by (auto simp: reads_back_def num_end_close intro: obj_put_new)
  then show ?case
    using parse_units_quote [of k "58 # value_text v @ 125 # r"]
    by (simp add: p json_quote_def json_members_unfold skip_ws_nonws is_ws_def)
next
  case (3 p q kvs)
  obtain k v where p: "p = (k, v)" by (cases p)
  let ?rest = "js_join [44] (map (\<lambda>(k, v). json_quote k @ 58 # value_text v) (q # kvs)) @ 125 # r"
  from 3 p have "json_value (value_text v @ 44 # ?rest) = Some (v, 44 # ?rest)"
    and "obj_put acc k v = acc @ [(k, v)]"
    by (auto simp: reads_back_def num_end_close intro: obj_put_new)
  moreover have "json_members (acc @ [(k, v)]) ?rest = Some ((acc @ [(k, v)]) @ q # kvs, r)"
    using 3 p by (intro "3.IH"(2)) auto
  ultimately show ?case
    using parse_units_quote [of k "58 # value_text v @ 44 # ?rest"]
    by (simp add: p json_quote_def json_members_unfold skip_ws_nonws is_ws_def)
qed simp

lemma wf_json_reads_back: "wf_json v \<Longrightarrow> reads_back v"
proof (induction v)
  case (JNum d)
  show ?case
    unfolding reads_back_def
  proof (intro allI impI)
    fix r assume "num_end r"
    with JNum parse_number_print [of d r] obtain c cs where
      "num_to_string d = c # cs" "is_digit c \<or> c = 45" "parse_number (num_to_string d @ r) = Some (JNum d, r)"
      by auto
    with JNum show "json_value (value_text (JNum d) @ r) = Some (JNum d, r)"
      by (simp add: value_text_def json_value_number)
  qed
next
  case (JStr s)
  show ?case
    using parse_units_quote [of s]
    by (simp add: reads_back_def value_text_def json_quote_def json_value_string)
next
  case (JArr vs)
  show ?case
  proof (cases vs)
    case Nil
    then show ?thesis by (simp add: reads_back_def value_text_def json_value_empty_array)
  next
    case (Cons w ws)
    let ?t = "js_join [44] (map value_text vs)"
    from JArr have all: "\<forall>v \<in> set vs. reads_back v" by auto
    obtain c cs where t: "?t = c # cs" "\<not> is_ws c" "c \<noteq> 93"
      using value_text_hd [of w] JArr.prems Cons by (cases ws) auto
    show ?thesis
      using reads_back_elems [OF _ all] Cons t
      by (simp add: reads_back_def value_text_def stringify_elems_map json_value_array)
  qed
next
  case (JObj kvs)
  show ?case
  proof (cases kvs)
    case Nil
    then show ?thesis by (simp add: reads_back_def value_text_def json_value_empty_object)
  next
    case (Cons p ps)
    let ?t = "js_join [44] (map (\<lambda>(k, v). json_quote k @ 58 # value_text v) kvs)"
    from JObj have all: "\<forall>p \<in> set kvs. reads_back (snd p)" and d: "distinct (map fst kvs)"
      by (auto simp: snds.simps)
    obtain cs where t: "?t = 34 # cs"
      using Cons by (cases p; cases ps) (auto simp: json_quote_def)
    show ?thesis
      using reads_back_members [of kvs "[]", OF _ all] Cons t d JObj.prems
      by (simp add: reads_back_def value_text_def stringify_props_map json_value_object is_ws_def)
  qed
qed (simp_all add: reads_back_def value_text_def json_value_words del: js_Cons)

text \<open>A serialised value fits on a line.\<close>

lemma hex_digit_not_newline: "n < 16 \<Longrightarrow> hex_digit n \<noteq> 10"
  using hex_val_digit [of n] by (auto simp: hex_val_def)

lemma quote_unit_not_newline: "10 \<notin> set (quote_unit c)" "10 \<notin> set (unicode_escape c)"
proof -
  have "unat c div 4096 < 16"
    using unsigned_less [of c, where ?'a = nat] by simp
  then show "10 \<notin> set (unicode_escape c)"
    using hex_digit_not_newline by (auto simp: unicode_escape_def Let_def dest: sym)
  then show "10 \<notin> set (quote_unit c)" by (auto simp: quote_unit_def)
qed

lemma quote_units_not_newline: "10 \<notin> set (quote_units s)"
  by (induction s rule: quote_units.induct)
    (auto simp: quote_unit_not_newline is_lead_def is_trail_def word_le_nat_alt)

lemma num_to_string_not_newline: "10 \<notin> set (num_to_string d)"
proof -
  have ds: "10 \<notin> set (nat_digits n)" for n
    using nat_digits_digits [of 10 n] by (auto simp: is_digit_def word_le_nat_alt)
  then have "10 \<noteq> hd (nat_digits n)" for n
    using hd_in_set [OF nat_digits_ne, of n] by metis
  moreover have "10 \<notin> set (tl (nat_digits n))" for n
    using ds [of n] by (cases "nat_digits n") auto
  ultimately have "10 \<notin> set (print_decimal m e)" for m e
    using ds by (auto simp: print_decimal_def Let_def dest: in_set_takeD in_set_dropD)
  then show ?thesis by (cases d) auto
qed

lemma js_join_not_newline: "\<forall>p \<in> set ps. x \<notin> set p \<Longrightarrow> x \<notin> set sep \<Longrightarrow> x \<notin> set (js_join sep ps)"
  by (induction sep ps rule: js_join.induct) auto

lemma value_text_not_newline: "wf_json v \<Longrightarrow> 10 \<notin> set (value_text v)"
proof (induction v)
  case (JArr vs)
  then have "10 \<notin> set (js_join [44] (map value_text vs))"
    by (intro js_join_not_newline) auto
  then show ?case by (simp add: value_text_def stringify_elems_map)
next
  case (JObj kvs)
  then have "10 \<notin> set (js_join [44] (map (\<lambda>(k, v). json_quote k @ 58 # value_text v) kvs))"
    by (intro js_join_not_newline) (auto simp: json_quote_def quote_units_not_newline snds.simps)
  with JObj.prems show ?case
    by (simp add: value_text_def stringify_props_map)
qed (auto simp: value_text_def json_quote_def quote_units_not_newline num_to_string_not_newline)

lemma json_parse_stringify:
  assumes "wf_json v" and "json_stringify v = Some t"
  shows "json_parse t = Inr v"
proof -
  have "json_value (value_text v @ []) = Some (v, [])"
    using wf_json_reads_back [OF assms(1)] unfolding reads_back_def
    by (rule allE [of _ "[]"]) (simp add: num_end_def)
  moreover have "t = value_text v"
    using assms wf_json_stringify by simp
  ultimately show ?thesis
    by (simp add: json_parse_value skip_ws_def)
qed

section \<open>Integers as texts\<close>

text \<open>How a program with exact integers writes them.\<close>

definition int_text :: "int \<Rightarrow> js_string" where
  "int_text i = (if i < 0 then 45 # nat_digits (nat (- i)) else nat_digits (nat i))"

lemma nat_digits_zero: "nat_digits 0 = [48]"
  by (simp add: nat_digits.simps)

lemma int_text_hd: "\<exists>c cs. int_text i = c # cs \<and> (is_digit c \<or> c = 45)"
proof -
  obtain c cs where "nat_digits (nat i) = c # cs" by (cases "nat_digits (nat i)") auto
  moreover from this have "is_digit c" using nat_digits_digits [of c "nat i"] by simp
  ultimately show ?thesis by (simp add: int_text_def)
qed

lemma parse_number_int: "parse_number (int_text i) = Some (JNum (to_double (mk_dec i 0)), [])"
proof -
  have neg: "\<not> is_digit 45" by (simp add: is_digit_def word_le_nat_alt)
  have digits: "parse_unsigned (nat_digits n) = Some (int n, 0, [])" for n
    using parse_unsigned_integer [of n "[]" 0]
    by (cases "n = 0")
      (simp_all add: num_end_def nat_digits_zero parse_unsigned_def parse_int_def parse_frac_none parse_exp_none
        digits_val_def digit_val_def)
  show ?thesis
  proof (cases "i < 0")
    case True
    with digits [of "nat (- i)"] show ?thesis by (simp add: int_text_def parse_number_def)
  next
    case False
    obtain c cs where c: "nat_digits (nat i) = c # cs" by (cases "nat_digits (nat i)") auto
    then have "is_digit c" using nat_digits_digits [of c "nat i"] by simp
    with False c digits [of "nat i"] neg show ?thesis by (auto simp: int_text_def parse_number_def)
  qed
qed

lemma json_parse_int: "json_parse (int_text i) = Inr (JNum (to_double (mk_dec i 0)))"
proof -
  obtain c cs where c: "int_text i = c # cs" "is_digit c \<or> c = 45" using int_text_hd by blast
  then show ?thesis
    using parse_number_int [of i] by (simp add: json_parse_value json_value_number skip_ws_def)
qed

lemma int_text_not_newline: "10 \<notin> set (int_text i)"
proof -
  have "\<not> is_digit 10" by (simp add: is_digit_def word_le_nat_alt)
  then show ?thesis by (auto simp: int_text_def dest: nat_digits_digits)
qed

end
