(* ===== verification/Result_Type.thy ===== *)
theory Result_Type
  imports Json_Roundtrip
begin

text \<open>
  \<open>client/src/result.ts\<close>: the class \<open>Result\<close> with its two optional fields. Whether a result
  is \<open>ok\<close> depends on the truthiness of the value it holds, so every operation takes the
  truthiness test of the type it is used at, and the two that throw take what
  \<open>JSON.stringify\<close> makes of the other field.
\<close>

section \<open>The class\<close>

text \<open>\<open>None\<close> is \<open>undefined\<close>.\<close>

record ('t, 'e) Result =
  value' :: "'t option"
  error :: "'e option"

definition Result_Ok :: "'t \<Rightarrow> ('t, 'e) Result" where
  "Result_Ok v = \<lparr>value' = Some v, error = None\<rparr>"

definition Result_Err :: "'e \<Rightarrow> ('t, 'e) Result" where
  "Result_Err e = \<lparr>value' = None, error = Some e\<rparr>"

definition field_truthy :: "('a \<Rightarrow> bool) \<Rightarrow> 'a option \<Rightarrow> bool" where
  "field_truthy truthy x = (case x of None \<Rightarrow> False | Some v \<Rightarrow> truthy v)"

definition Result_ok :: "('t \<Rightarrow> bool) \<Rightarrow> ('t, 'e) Result \<Rightarrow> bool" where
  "Result_ok truthy self = field_truthy truthy (value' self)"

definition Result_err :: "('e \<Rightarrow> bool) \<Rightarrow> ('t, 'e) Result \<Rightarrow> bool" where
  "Result_err truthy self = field_truthy truthy (error self)"

text \<open>
  \<open>JSON.stringify(x)\<close> inside a template literal: the printer of the field's type, and the word
  \<open>undefined\<close> when the field is \<open>undefined\<close>.
\<close>

definition template_field :: "('a \<Rightarrow> js_string completion) \<Rightarrow> 'a option \<Rightarrow> js_string completion" where
  "template_field printer x = (case x of None \<Rightarrow> Inr (js ''undefined'') | Some v \<Rightarrow> printer v)"

fun Result_unwrap ::
  "('t \<Rightarrow> bool) \<Rightarrow> ('e \<Rightarrow> js_string completion) \<Rightarrow> ('t, 'e) Result \<Rightarrow> 't completion" where
  "Result_unwrap truthy printer self =
     (case value' self of
        Some v \<Rightarrow> if truthy v then Inr v
          else bindC (template_field printer (error self)) (\<lambda>s. Inl (ThrownString
            (js ''Attempted to unwrap an Result, but found error: '' @ s)))
      | None \<Rightarrow> bindC (template_field printer (error self)) (\<lambda>s. Inl (ThrownString
            (js ''Attempted to unwrap an Result, but found error: '' @ s))))"

fun Result_unwrap_err ::
  "('e \<Rightarrow> bool) \<Rightarrow> ('t \<Rightarrow> js_string completion) \<Rightarrow> ('t, 'e) Result \<Rightarrow> 'e completion" where
  "Result_unwrap_err truthy printer self =
     (case error self of
        Some e \<Rightarrow> if truthy e then Inr e
          else bindC (template_field printer (value' self)) (\<lambda>s. Inl (ThrownString
            (js ''Attempted to unwrap an Result error, but found value: '' @ s)))
      | None \<Rightarrow> bindC (template_field printer (value' self)) (\<lambda>s. Inl (ThrownString
            (js ''Attempted to unwrap an Result error, but found value: '' @ s))))"

text \<open>
  \<open>map\<close> and \<open>map_err\<close>; the function may throw, and what it throws leaves the call.
\<close>

definition Result_map ::
  "('t \<Rightarrow> bool) \<Rightarrow> ('t \<Rightarrow> 'u completion) \<Rightarrow> ('t, 'e) Result \<Rightarrow> ('u, 'e) Result completion" where
  "Result_map truthy f self =
     (case value' self of
        Some v \<Rightarrow> if truthy v then bindC (f v) (\<lambda>u. Inr \<lparr>value' = Some u, error = None\<rparr>)
          else Inr \<lparr>value' = None, error = error self\<rparr>
      | None \<Rightarrow> Inr \<lparr>value' = None, error = error self\<rparr>)"

definition Result_map_err ::
  "('e \<Rightarrow> bool) \<Rightarrow> ('e \<Rightarrow> 'f completion) \<Rightarrow> ('t, 'e) Result \<Rightarrow> ('t, 'f) Result completion" where
  "Result_map_err truthy f self =
     (case error self of
        Some e \<Rightarrow> if truthy e then bindC (f e) (\<lambda>u. Inr \<lparr>value' = None, error = Some u\<rparr>)
          else Inr \<lparr>value' = value' self, error = None\<rparr>
      | None \<Rightarrow> Inr \<lparr>value' = value' self, error = None\<rparr>)"

declare Result_unwrap.simps [simp del] Result_unwrap_err.simps [simp del]

lemmas Result_defs = Result_Ok_def Result_Err_def Result_ok_def Result_err_def field_truthy_def
  Result_unwrap.simps Result_unwrap_err.simps Result_map_def Result_map_err_def template_field_def

lemma Result_inject [simp]:
  "Result_Ok v = Result_Ok v' \<longleftrightarrow> v = v'" "Result_Err e = Result_Err e' \<longleftrightarrow> e = e'"
  "Result_Ok v \<noteq> Result_Err e" "Result_Err e \<noteq> Result_Ok v"
  by (auto simp: Result_Ok_def Result_Err_def)

section \<open>The contract\<close>

text \<open>
  The abstract view: a result is a sum. It is one as long as the values and errors it carries
  are truthy, which is the case for the objects the clients put in.
\<close>

fun of_sum :: "'e + 't \<Rightarrow> ('t, 'e) Result" where
  "of_sum (Inl e) = Result_Err e"
| "of_sum (Inr v) = Result_Ok v"

fun sum_map :: "('t \<Rightarrow> 'u) \<Rightarrow> 'e + 't \<Rightarrow> 'e + 'u" where
  "sum_map f (Inl e) = Inl e"
| "sum_map f (Inr v) = Inr (f v)"

fun sum_map_err :: "('e \<Rightarrow> 'f) \<Rightarrow> 'e + 't \<Rightarrow> 'f + 't" where
  "sum_map_err f (Inl e) = Inl (f e)"
| "sum_map_err f (Inr v) = Inr v"

locale truthy_result =
  fixes tv :: "'t \<Rightarrow> bool" and te :: "'e \<Rightarrow> bool"
    and good_value :: "'t \<Rightarrow> bool" and good_error :: "'e \<Rightarrow> bool"
  assumes good_value_truthy: "good_value v \<Longrightarrow> tv v"
    and good_error_truthy: "good_error e \<Longrightarrow> te e"
begin

definition good :: "'e + 't \<Rightarrow> bool" where
  "good r = (case r of Inl e \<Rightarrow> good_error e | Inr v \<Rightarrow> good_value v)"

lemma good_simps [simp]: "good (Inl e) = good_error e" "good (Inr v) = good_value v"
  by (simp_all add: good_def)

lemma ok_of_sum: "good r \<Longrightarrow> Result_ok tv (of_sum r) \<longleftrightarrow> (\<exists>v. r = Inr v)"
  by (cases r) (auto simp: Result_defs good_value_truthy)

lemma err_of_sum: "good r \<Longrightarrow> Result_err te (of_sum r) \<longleftrightarrow> (\<exists>e. r = Inl e)"
  by (cases r) (auto simp: Result_defs good_error_truthy)

lemma unwrap_of_sum: "good r \<Longrightarrow> r = Inr v \<Longrightarrow> Result_unwrap tv p (of_sum r) = Inr v"
  by (simp add: Result_defs good_value_truthy)

lemma unwrap_err_of_sum: "good r \<Longrightarrow> r = Inl e \<Longrightarrow> Result_unwrap_err te p (of_sum r) = Inr e"
  by (simp add: Result_defs good_error_truthy)

lemma map_of_sum: "good r \<Longrightarrow> Result_map tv (\<lambda>v. Inr (f v)) (of_sum r) = Inr (of_sum (sum_map f r))"
  by (cases r) (simp_all add: Result_defs good_value_truthy)

lemma map_err_of_sum:
  "good r \<Longrightarrow> Result_map_err te (\<lambda>e. Inr (f e)) (of_sum r) = Inr (of_sum (sum_map_err f r))"
  by (cases r) (simp_all add: Result_defs good_error_truthy)

text \<open>The branch the clients take on a result: \<open>if (r.ok()) ... r.unwrap() else r.unwrap_err()\<close>.\<close>

lemma branch_of_sum:
  assumes "good r"
  shows "(if Result_ok tv (of_sum r)
      then await (settle (Result_unwrap tv p (of_sum r))) f
      else await (settle (Result_unwrap_err te q (of_sum r))) g)
    = (case r of Inl e \<Rightarrow> g e | Inr v \<Rightarrow> f v)"
  using assms by (cases r) (simp_all add: Result_defs good_value_truthy good_error_truthy)

end

text \<open>At every pair of types the contract holds of the truthy values and errors.\<close>

interpretation truthy_sums: truthy_result tv te tv te for tv te
  by unfold_locales

text \<open>And only of those: a falsy value is neither a success nor an error.\<close>

lemma Result_Ok_falsy:
  assumes "\<not> truthy v"
  shows "\<not> Result_ok truthy (Result_Ok v)"
    and "\<not> Result_err te (Result_Ok v)"
    and "Result_unwrap truthy p (Result_Ok v)
      = Inl (ThrownString (js ''Attempted to unwrap an Result, but found error: undefined''))"
    and "Result_map truthy f (Result_Ok v) = Inr \<lparr>value' = None, error = None\<rparr>"
  using assms by (simp_all add: Result_defs del: js_Cons js_Nil) (simp_all add: js_append [symmetric] del: js_Cons js_Nil)

end
