(* ===== verification/Wire_Format.thy ===== *)
theory Wire_Format
  imports Json_Roundtrip
begin

text \<open>
  How a value of one of the generated interfaces looks as a JavaScript object: the properties
  in the interface's order, absent ones left out.
\<close>

named_theorems wf_encoders \<open>encoded values are values JSON can carry\<close>

definition present :: "(js_string \<times> jsval option) list \<Rightarrow> (js_string \<times> jsval) list" where
  "present fs = concat (map (\<lambda>(k, v). case v of None \<Rightarrow> [] | Some x \<Rightarrow> [(k, x)]) fs)"

definition json_object :: "(js_string \<times> jsval option) list \<Rightarrow> jsval" where
  "json_object fs = JObj (present fs)"

definition json_array :: "('a \<Rightarrow> jsval) \<Rightarrow> 'a list \<Rightarrow> jsval" where
  "json_array f xs = JArr (map f xs)"

text \<open>A number field holds an integer of at most 64 bits.\<close>

definition json_int :: "int \<Rightarrow> jsval" where
  "json_int i = JNum (to_double (mk_dec (sint (word_of_int i :: 64 word)) 0))"

definition json_string_map :: "(js_string \<times> js_string) list \<Rightarrow> jsval" where
  "json_string_map kvs = JObj (map (\<lambda>(k, v). (k, JStr v)) kvs)"

definition distinct_keys :: "(js_string \<times> js_string) list option \<Rightarrow> bool" where
  "distinct_keys m = (case m of None \<Rightarrow> True | Some kvs \<Rightarrow> distinct (map fst kvs))"

lemma some_map_option: "Some v = map_option f x \<longleftrightarrow> (\<exists>y. x = Some y \<and> v = f y)"
  by (cases x) auto

lemma wf_json_JStr [wf_encoders]: "wf_json (JStr s)"
  by simp

lemma wf_json_JBool [wf_encoders]: "wf_json (JBool b)"
  by simp

lemma wf_json_string_map_present [wf_encoders]:
  "distinct_keys m \<Longrightarrow> m = Some kvs \<Longrightarrow> wf_json (json_string_map kvs)"
  by (auto simp: distinct_keys_def json_string_map_def o_def case_prod_beta)

lemma present_keys: "map fst (present fs) = map fst (filter (\<lambda>p. snd p \<noteq> None) fs)"
  by (induction fs) (auto simp: present_def split: option.splits)

lemma wf_json_object:
  assumes "distinct (map fst fs)" and "\<And>k v. (k, Some v) \<in> set fs \<Longrightarrow> wf_json v"
  shows "wf_json (json_object fs)"
proof -
  have "\<forall>p \<in> set (present fs). (fst p, Some (snd p)) \<in> set fs"
    by (auto simp: present_def split: option.splits)
  with assms show ?thesis
    by (auto simp: json_object_def present_keys distinct_map_filter)
qed

lemma wf_json_array [wf_encoders]: "(\<And>x. x \<in> set xs \<Longrightarrow> wf_json (f x)) \<Longrightarrow> wf_json (json_array f xs)"
  by (auto simp: json_array_def)

lemma wf_json_int [wf_encoders]: "wf_json (json_int i)"
proof -
  let ?i = "sint (word_of_int i :: 64 word)"
  have "\<bar>?i\<bar> \<le> 2 ^ 64"
    using sint_ge [of "word_of_int i :: 64 word"] sint_lt [of "word_of_int i :: 64 word"] by simp
  then have "is_double (to_double (mk_dec ?i 0))"
    by (intro to_double_is_double allI integer_finite mk_dec_is_canonical)
  then show ?thesis by (simp add: json_int_def)
qed

lemma wf_json_string_map [wf_encoders]: "distinct (map fst kvs) \<Longrightarrow> wf_json (json_string_map kvs)"
  by (auto simp: json_string_map_def o_def case_prod_beta)

lemma map_of_present:
  "distinct (map fst fs) \<Longrightarrow>
     map_of (present fs) k = (case map_of fs k of None \<Rightarrow> None | Some v \<Rightarrow> v)"
proof (induction fs)
  case (Cons p fs)
  obtain k' v' where p: "p = (k', v')" by (cases p)
  with Cons.prems have "map_of fs k' = None" by (simp add: map_of_eq_None_iff)
  with Cons p show ?case
    by (cases v') (auto simp: present_def)
qed (simp add: present_def)

lemma js_get_json_object:
  assumes "distinct (map fst fs)" and "(k, v) \<in> set fs"
  shows "js_get (json_object fs) k = Inr (case v of None \<Rightarrow> JUndefined | Some x \<Rightarrow> x)"
  using assms map_of_is_SomeI [OF assms]
  by (simp add: json_object_def prop_value_def map_of_present)

lemma js_get_of_object:
  "distinct (map fst fs) \<Longrightarrow> js_get (json_object fs) k =
     Inr (case map_of fs k of Some (Some x) \<Rightarrow> x | _ \<Rightarrow> JUndefined)"
  by (simp add: json_object_def prop_value_def map_of_present split: option.split)

end
