(* ===== verification/Incremental.thy ===== *)
theory Incremental
  imports Js_Prelude
begin

text \<open>
  The interface of a stateful conversion that is fed its input in pieces: what it has put out
  and the state it is in depend on the text it was fed and not on where the pieces were cut.
  The UTF-8 decoder and the line splitter both promise it.
\<close>

fun feed_chunks :: "('s \<Rightarrow> 'a list \<Rightarrow> 's \<times> 'b list) \<Rightarrow> 's \<Rightarrow> 'a list list \<Rightarrow> 's \<times> 'b list list" where
  "feed_chunks feed s [] = (s, [])"
| "feed_chunks feed s (x # xs) =
     (let (s', ys) = feed s x; (s'', yss) = feed_chunks feed s' xs in (s'', ys # yss))"

locale incremental =
  fixes feed :: "'s \<Rightarrow> 'a list \<Rightarrow> 's \<times> 'b list"
    and invar :: "'s \<Rightarrow> bool"
  assumes feed_Nil: "invar s \<Longrightarrow> feed s [] = (s, [])"
    and feed_append: "invar s \<Longrightarrow>
      feed s (xs @ ys) = (let (s', os) = feed s xs; (s'', ps) = feed s' ys in (s'', os @ ps))"
    and feed_invar: "invar s \<Longrightarrow> invar (fst (feed s xs))"
begin

lemma feed_concat:
  "invar s \<Longrightarrow> feed s (concat xss) = (let (s', yss) = feed_chunks feed s xss in (s', concat yss))"
proof (induction xss arbitrary: s)
  case Nil
  then show ?case by (simp add: feed_Nil)
next
  case (Cons x xss)
  obtain s' ys where x: "feed s x = (s', ys)" by fastforce
  then have "invar s'" using feed_invar [OF Cons.prems, of x] by simp
  with Cons x show ?case
    by (simp add: feed_append split: prod.split)
qed

lemma chunking_irrelevant:
  assumes "invar s" and "concat xss = concat yss"
  shows "fst (feed_chunks feed s xss) = fst (feed_chunks feed s yss)
    \<and> concat (snd (feed_chunks feed s xss)) = concat (snd (feed_chunks feed s yss))"
  using feed_concat [OF assms(1), of xss] feed_concat [OF assms(1), of yss] assms(2)
  by (simp split: prod.splits)

lemma output_grows:
  assumes "invar s"
  shows "prefix (snd (feed s xs)) (snd (feed s (xs @ ys)))"
  using assms by (simp add: feed_append split: prod.split)

lemma feed_chunks_invar: "invar s \<Longrightarrow> invar (fst (feed_chunks feed s xss))"
proof (induction xss arbitrary: s)
  case (Cons x xss)
  then have "invar (fst (feed s x))" by (simp add: feed_invar)
  with Cons.IH [of "fst (feed s x)"] show ?case
    by (simp split: prod.split) (metis fst_conv)
qed simp

end

end
