(* ===== verification/Utf8.thy ===== *)
theory Utf8
  imports Json_Roundtrip Incremental
begin

text \<open>
  UTF-8, as \<open>TextDecoder\<close> and \<open>TextDecoderStream\<close> decode it (the decoder's state machine
  of the Encoding standard, errors replaced by U+FFFD, one leading byte order mark dropped) and
  as the other side encodes it.
\<close>

section \<open>UTF-16 and UTF-8 encoding of scalar values\<close>

definition scalar :: "nat \<Rightarrow> bool" where
  "scalar cp \<longleftrightarrow> cp < 0x110000 \<and> \<not> (0xD800 \<le> cp \<and> cp \<le> 0xDFFF)"

definition utf16 :: "nat \<Rightarrow> js_string" where
  "utf16 cp =
     (if cp < 0x10000 then [word_of_nat cp]
      else [word_of_nat (0xD800 + (cp - 0x10000) div 0x400), word_of_nat (0xDC00 + (cp - 0x10000) mod 0x400)])"

definition utf16s :: "nat list \<Rightarrow> js_string" where
  "utf16s cps = concat (map utf16 cps)"

definition utf8_bytes :: "nat \<Rightarrow> nat list" where
  "utf8_bytes cp =
     (if cp < 0x80 then [cp]
      else if cp < 0x800 then [192 + cp div 64, 128 + cp mod 64]
      else if cp < 0x10000 then [224 + cp div 64 div 64, 128 + cp div 64 mod 64, 128 + cp mod 64]
      else [240 + cp div 64 div 64 div 64, 128 + cp div 64 div 64 mod 64,
            128 + cp div 64 mod 64, 128 + cp mod 64])"

definition utf8_encode :: "nat list \<Rightarrow> byte list" where
  "utf8_encode cps = concat (map (\<lambda>cp. map word_of_nat (utf8_bytes cp)) cps)"

text \<open>The code points of a string; a lone surrogate reads as U+FFFD.\<close>

fun code_points :: "js_string \<Rightarrow> nat list" where
  "code_points [] = []"
| "code_points [c] = [if is_lead c \<or> is_trail c then 0xFFFD else unat c]"
| "code_points (c # d # cs) =
     (if is_lead c \<and> is_trail d then
        (0x10000 + (unat c - 0xD800) * 0x400 + (unat d - 0xDC00)) # code_points cs
      else if is_lead c \<or> is_trail c then 0xFFFD # code_points (d # cs)
      else unat c # code_points (d # cs))"

fun wf_utf16 :: "js_string \<Rightarrow> bool" where
  "wf_utf16 [] = True"
| "wf_utf16 [c] = (\<not> is_lead c \<and> \<not> is_trail c)"
| "wf_utf16 (c # d # cs) =
     (if is_lead c then is_trail d \<and> wf_utf16 cs else \<not> is_trail c \<and> wf_utf16 (d # cs))"

definition text_bytes :: "js_string \<Rightarrow> byte list" where
  "text_bytes s = utf8_encode (code_points s)"

section \<open>The decoder\<close>

record utf8_state =
  cp_acc :: nat
  cp_need :: nat
  cp_lower :: nat
  cp_upper :: nat

definition utf8_init :: utf8_state where
  "utf8_init = \<lparr>cp_acc = 0, cp_need = 0, cp_lower = 128, cp_upper = 191\<rparr>"

lemma utf8_init_simps [simp]:
  "cp_acc utf8_init = 0" "cp_need utf8_init = 0" "cp_lower utf8_init = 128" "cp_upper utf8_init = 191"
  by (simp_all add: utf8_init_def)

definition utf8_start :: "nat \<Rightarrow> utf8_state \<times> nat list" where
  "utf8_start b =
     (if b < 128 then (utf8_init, [b])
      else if 194 \<le> b \<and> b \<le> 223 then
        (utf8_init\<lparr>cp_acc := b - 192, cp_need := 1\<rparr>, [])
      else if 224 \<le> b \<and> b \<le> 239 then
        (\<lparr>cp_acc = b - 224, cp_need = 2, cp_lower = (if b = 224 then 160 else 128),
          cp_upper = (if b = 237 then 159 else 191)\<rparr>, [])
      else if 240 \<le> b \<and> b \<le> 244 then
        (\<lparr>cp_acc = b - 240, cp_need = 3, cp_lower = (if b = 240 then 144 else 128),
          cp_upper = (if b = 244 then 143 else 191)\<rparr>, [])
      else (utf8_init, [0xFFFD]))"

definition utf8_step :: "utf8_state \<Rightarrow> nat \<Rightarrow> utf8_state \<times> nat list" where
  "utf8_step s b =
     (if cp_need s = 0 then utf8_start b
      else if b < cp_lower s \<or> cp_upper s < b then apsnd ((#) 0xFFFD) (utf8_start b)
      else let cp = cp_acc s * 64 + b mod 64 in
        if cp_need s = 1 then (utf8_init, [cp])
        else (\<lparr>cp_acc = cp, cp_need = cp_need s - 1, cp_lower = 128, cp_upper = 191\<rparr>, []))"

fun utf8_run :: "utf8_state \<Rightarrow> byte list \<Rightarrow> utf8_state \<times> nat list" where
  "utf8_run s [] = (s, [])"
| "utf8_run s (b # bs) =
     (let (s', cps) = utf8_step s (unat b); (s'', cps') = utf8_run s' bs in (s'', cps @ cps'))"

definition utf8_flush :: "utf8_state \<Rightarrow> nat list" where
  "utf8_flush s = (if cp_need s = 0 then [] else [0xFFFD])"

text \<open>A \<open>TextDecoder\<close>: the state machine, and whether the first code point has been seen.\<close>

record text_decoder =
  dec_utf8 :: utf8_state
  bom_seen :: bool

definition new_decoder :: text_decoder where
  "new_decoder = \<lparr>dec_utf8 = utf8_init, bom_seen = False\<rparr>"

fun strip_bom :: "bool \<Rightarrow> nat list \<Rightarrow> bool \<times> nat list" where
  "strip_bom seen [] = (seen, [])"
| "strip_bom seen (c # cs) = (True, if \<not> seen \<and> c = 0xFEFF then cs else c # cs)"

definition decode_chunk :: "text_decoder \<Rightarrow> byte list \<Rightarrow> text_decoder \<times> js_string" where
  "decode_chunk d bs =
     (let (s, cps) = utf8_run (dec_utf8 d) bs; (seen, cps') = strip_bom (bom_seen d) cps in
      (\<lparr>dec_utf8 = s, bom_seen = seen\<rparr>, utf16s cps'))"

definition decode_flush :: "text_decoder \<Rightarrow> js_string" where
  "decode_flush d = utf16s (snd (strip_bom (bom_seen d) (utf8_flush (dec_utf8 d))))"

text \<open>\<open>new TextDecoder().decode(bytes)\<close>, all at once.\<close>

definition text_decode :: "byte list \<Rightarrow> js_string" where
  "text_decode bs = (let (d, t) = decode_chunk new_decoder bs in t @ decode_flush d)"

section \<open>Pieces do not matter\<close>

lemma utf8_run_append:
  "utf8_run s (xs @ ys) =
     (let (s', os) = utf8_run s xs; (s'', ps) = utf8_run s' ys in (s'', os @ ps))"
  by (induction xs arbitrary: s) (auto split: prod.splits)

lemma strip_bom_append:
  "strip_bom seen (xs @ ys) =
     (let (seen', os) = strip_bom seen xs; (seen'', ps) = strip_bom seen' ys in (seen'', os @ ps))"
  by (cases xs; cases ys) auto

lemma utf16s_append [simp]: "utf16s (xs @ ys) = utf16s xs @ utf16s ys"
  by (simp add: utf16s_def)

lemma decode_chunk_append:
  "decode_chunk d (xs @ ys) =
     (let (d', os) = decode_chunk d xs; (d'', ps) = decode_chunk d' ys in (d'', os @ ps))"
  by (simp add: decode_chunk_def utf8_run_append strip_bom_append split: prod.split)

interpretation utf8_decoder: incremental decode_chunk "\<lambda>_. True"
  by unfold_locales
    (simp_all add: decode_chunk_append, simp add: decode_chunk_def utf16s_def)

section \<open>Decoding what was encoded\<close>

lemma utf8_bytes_less: "scalar cp \<Longrightarrow> b \<in> set (utf8_bytes cp) \<Longrightarrow> b < 256"
  by (auto simp: utf8_bytes_def scalar_def split: if_splits)

fun utf8_run_nat :: "utf8_state \<Rightarrow> nat list \<Rightarrow> utf8_state \<times> nat list" where
  "utf8_run_nat s [] = (s, [])"
| "utf8_run_nat s (b # bs) =
     (let (s', cps) = utf8_step s b; (s'', cps') = utf8_run_nat s' bs in (s'', cps @ cps'))"

lemma utf8_run_word: "\<forall>b \<in> set bs. b < 256 \<Longrightarrow> utf8_run s (map word_of_nat bs) = utf8_run_nat s bs"
  by (induction bs arbitrary: s) (simp_all add: unat_of_nat)

lemma utf8_continue:
  assumes "x < 64" and "0 < cp_need s" and "cp_lower s \<le> 128 + x" and "128 + x \<le> cp_upper s"
  shows "utf8_step s (128 + x) =
    (if cp_need s = 1 then (utf8_init, [cp_acc s * 64 + x])
     else (\<lparr>cp_acc = cp_acc s * 64 + x, cp_need = cp_need s - 1, cp_lower = 128, cp_upper = 191\<rparr>, []))"
proof -
  have "(128 + x) mod 64 = x"
    using assms(1) mod_mult_self2 [of x 64 2] by (simp add: add.commute)
  with assms show ?thesis by (simp add: utf8_step_def Let_def)
qed

lemma utf8_lead:
  "2 \<le> a \<Longrightarrow> a < 32 \<Longrightarrow> utf8_step utf8_init (192 + a) = (utf8_init\<lparr>cp_acc := a, cp_need := 1\<rparr>, [])"
  "a < 16 \<Longrightarrow> utf8_step utf8_init (224 + a) =
     (\<lparr>cp_acc = a, cp_need = 2, cp_lower = (if a = 0 then 160 else 128),
       cp_upper = (if a = 13 then 159 else 191)\<rparr>, [])"
  "a < 5 \<Longrightarrow> utf8_step utf8_init (240 + a) =
     (\<lparr>cp_acc = a, cp_need = 3, cp_lower = (if a = 0 then 144 else 128),
       cp_upper = (if a = 4 then 143 else 191)\<rparr>, [])"
  by (auto simp: utf8_step_def utf8_start_def utf8_init_def)

lemmas utf8_leads = utf8_lead utf8_lead(2) [of 0, simplified] utf8_lead(2) [of 13, simplified]
  utf8_lead(3) [of 0, simplified] utf8_lead(3) [of 4, simplified]

lemma split64: obtains x where "n = n div 64 * 64 + x" and "x < 64" and "n mod 64 = (x :: nat)"
  using that [of "n mod 64"] by simp

text \<open>The bytes of a scalar value, by their number.\<close>

lemma utf8_bytes_cases:
  assumes "scalar cp"
  obtains (one) "cp < 128" "utf8_bytes cp = [cp]"
  | (two) p x where "utf8_bytes cp = [192 + p, 128 + x]" "2 \<le> p" "p < 32" "x < 64" "cp = p * 64 + x"
  | (three) q y x where "utf8_bytes cp = [224 + q, 128 + y, 128 + x]" "q < 16" "y < 64" "x < 64"
      "q = 0 \<Longrightarrow> 32 \<le> y" "q = 13 \<Longrightarrow> y < 32" "cp = (q * 64 + y) * 64 + x"
  | (four) r z y x where "utf8_bytes cp = [240 + r, 128 + z, 128 + y, 128 + x]" "r < 5" "z < 64" "y < 64" "x < 64"
      "r = 0 \<Longrightarrow> 16 \<le> z" "r = 4 \<Longrightarrow> z < 16" "cp = ((r * 64 + z) * 64 + y) * 64 + x"
proof -
  define p q where "p = cp div 64" and "q = p div 64"
  obtain x where x: "cp = p * 64 + x" "x < 64" "cp mod 64 = x"
    unfolding p_def by (rule split64)
  obtain y where y: "p = q * 64 + y" "y < 64" "p mod 64 = y"
    unfolding q_def by (rule split64)
  consider "cp < 0x80" | "0x80 \<le> cp" "cp < 0x800" | "0x800 \<le> cp" "cp < 0x10000"
    | "0x10000 \<le> cp" "cp < 0x110000"
    using assms by (force simp: scalar_def)
  then show thesis
  proof cases
    case 1
    then show ?thesis by (intro one) (simp_all add: utf8_bytes_def)
  next
    case 2
    then have "utf8_bytes cp = [192 + p, 128 + x]"
      by (simp add: utf8_bytes_def p_def x(3))
    moreover have "2 \<le> p" "p < 32" using 2 x by linarith+
    ultimately show ?thesis using x by (intro two)
  next
    case 3
    then have "utf8_bytes cp = [224 + q, 128 + y, 128 + x]"
      unfolding utf8_bytes_def using x(3) y(3) by (simp flip: p_def q_def)
    moreover have "q < 16" "q = 0 \<Longrightarrow> 32 \<le> y" using 3 x y by linarith+
    moreover have "q = 13 \<Longrightarrow> y < 32" using assms x y unfolding scalar_def by linarith
    moreover have "cp = (q * 64 + y) * 64 + x" using x(1) y(1) by simp
    ultimately show ?thesis using x(2) y(2) by (intro three)
  next
    case 4
    obtain z where z: "q = q div 64 * 64 + z" "z < 64" "q mod 64 = z"
      by (rule split64)
    define r where "r = q div 64"
    have "utf8_bytes cp = [240 + r, 128 + z, 128 + y, 128 + x]"
      unfolding utf8_bytes_def using 4 x(3) y(3) z(3) by (simp flip: p_def q_def r_def)
    moreover have "r < 5" "r = 0 \<Longrightarrow> 16 \<le> z" "r = 4 \<Longrightarrow> z < 16"
      using 4 x y z unfolding r_def [symmetric] by linarith+
    moreover have "cp = ((r * 64 + z) * 64 + y) * 64 + x"
      using x(1) y(1) z(1) unfolding r_def [symmetric] by simp
    ultimately show ?thesis using x(2) y(2) z(2) by (intro four)
  qed
qed

lemma utf8_run_scalar_nat:
  assumes "scalar cp"
  shows "utf8_run_nat utf8_init (utf8_bytes cp) = (utf8_init, [cp])"
  using assms
proof (cases rule: utf8_bytes_cases)
  case one
  then show ?thesis by (simp add: utf8_step_def utf8_start_def utf8_init_def)
next
  case (two p x)
  then show ?thesis by (simp add: utf8_lead utf8_continue)
next
  case (three q y x)
  then show ?thesis by (cases "q = 0"; cases "q = 13") (simp_all add: utf8_leads utf8_continue)
next
  case (four r z y x)
  then show ?thesis by (cases "r = 0"; cases "r = 4") (simp_all add: utf8_leads utf8_continue)
qed

lemma utf8_run_scalar:
  "scalar cp \<Longrightarrow> utf8_run utf8_init (map word_of_nat (utf8_bytes cp)) = (utf8_init, [cp])"
  using utf8_run_word [of "utf8_bytes cp"] utf8_bytes_less utf8_run_scalar_nat by simp

lemma utf8_run_encode:
  "\<forall>cp \<in> set cps. scalar cp \<Longrightarrow> utf8_run utf8_init (utf8_encode cps) = (utf8_init, cps)"
  by (induction cps)
    (auto simp: utf8_encode_def utf8_run_append utf8_run_scalar)

section \<open>Strings through bytes\<close>

lemma unat_unit_less: "unat (c :: code_unit) < 65536"
  using unsigned_less [of c, where ?'a = nat] by simp

lemma is_lead_unat: "is_lead c \<longleftrightarrow> 0xD800 \<le> unat c \<and> unat c \<le> 0xDBFF"
  by (simp add: is_lead_def word_le_nat_alt)

lemma is_trail_unat: "is_trail c \<longleftrightarrow> 0xDC00 \<le> unat c \<and> unat c \<le> 0xDFFF"
  by (simp add: is_trail_def word_le_nat_alt)

lemma scalar_code_points: "cp \<in> set (code_points s) \<Longrightarrow> scalar cp"
proof (induction s rule: code_points.induct)
  case (2 c)
  then show ?case
    using unat_unit_less [of c] by (auto simp: scalar_def is_lead_unat is_trail_unat split: if_splits)
next
  case (3 c d cs)
  then show ?case
    using unat_unit_less [of c] unat_unit_less [of d]
    by (auto simp: scalar_def is_lead_unat is_trail_unat split: if_splits)
qed simp

lemma utf16_unit: "utf16 (unat c) = [c]" for c :: code_unit
  using unat_unit_less [of c] by (simp add: utf16_def)

lemma utf16_pair:
  assumes "is_lead c" and "is_trail d"
  shows "utf16 (0x10000 + (unat c - 0xD800) * 0x400 + (unat d - 0xDC00)) = [c, d]"
proof -
  let ?x = "unat c - 0xD800" and ?y = "unat d - 0xDC00"
  have y: "?y < 0x400" using assms(2) unfolding is_trail_unat by arith
  then have "(?x * 0x400 + ?y) div 0x400 = ?x" "(?x * 0x400 + ?y) mod 0x400 = ?y"
    by simp_all
  moreover have "0xD800 + ?x = unat c" "0xDC00 + ?y = unat d"
    using assms by (simp_all add: is_lead_unat is_trail_unat)
  ultimately show ?thesis
    by (simp add: utf16_def add.assoc del: of_nat_add)
qed

lemma utf16s_code_points: "wf_utf16 s \<Longrightarrow> utf16s (code_points s) = s"
  by (induction s rule: wf_utf16.induct)
    (auto simp: utf16s_def utf16_unit utf16_pair simp del: One_nat_def)

lemma text_bytes_run: "utf8_run utf8_init (text_bytes s) = (utf8_init, code_points s)"
  unfolding text_bytes_def by (rule utf8_run_encode) (auto intro: scalar_code_points)

text \<open>
  A decoder that starts afresh gives the text back, unless the text starts with a byte order
  mark; and so does one that is fed the bytes in pieces.
\<close>

definition bom_free :: "js_string \<Rightarrow> bool" where
  "bom_free s \<longleftrightarrow> (case s of [] \<Rightarrow> True | c # _ \<Rightarrow> c \<noteq> 0xFEFF)"

lemma strip_bom_text:
  assumes "bom_free s"
  shows "snd (strip_bom False (code_points s)) = code_points s"
proof -
  have bom: "unat (0xFEFF :: code_unit) = 0xFEFF" by simp
  have neq: "c \<noteq> 0xFEFF \<Longrightarrow> unat c \<noteq> 0xFEFF" for c :: code_unit
    by (metis bom unsigned_word_eqI)
  show ?thesis
    using assms neq by (cases s rule: code_points.cases) (auto simp: bom_free_def)
qed

lemma decode_text_bytes:
  assumes "wf_utf16 s" and "bom_free s"
  shows "\<exists>seen. decode_chunk new_decoder (text_bytes s) = (\<lparr>dec_utf8 = utf8_init, bom_seen = seen\<rparr>, s)"
  using assms strip_bom_text [of s] utf16s_code_points [of s]
  by (auto simp: decode_chunk_def new_decoder_def text_bytes_run split: prod.splits)

lemma text_decode_bytes: "wf_utf16 s \<Longrightarrow> bom_free s \<Longrightarrow> text_decode (text_bytes s) = s"
  using decode_text_bytes [of s]
  by (auto simp: text_decode_def decode_flush_def utf8_flush_def utf8_init_def utf16s_def)

lemma wf_utf16_append: "wf_utf16 s \<Longrightarrow> wf_utf16 t \<Longrightarrow> wf_utf16 (s @ t)"
proof (induction s rule: wf_utf16.induct)
  case (2 c)
  then show ?case by (cases t) auto
qed auto

lemma wf_utf16_Cons: "\<not> is_lead c \<Longrightarrow> \<not> is_trail c \<Longrightarrow> wf_utf16 (c # t) \<longleftrightarrow> wf_utf16 t"
  by (cases t) auto

lemma text_bytes_Nil: "text_bytes s = [] \<longleftrightarrow> s = []"
  by (cases s rule: code_points.cases) (simp_all add: text_bytes_def utf8_encode_def utf8_bytes_def)

lemma utf16s_Cons [simp]: "utf16s (cp # cps) = utf16 cp @ utf16s cps"
  by (simp add: utf16s_def)

lemma utf16s_Nil [simp]: "utf16s [] = []"
  by (simp add: utf16s_def)

section \<open>Divided characters\<close>

text \<open>
  The first bytes of a character leave the decoder waiting for the others; the others, on their own,
  are errors, one each.
\<close>

lemma utf8_run_first_nat:
  assumes "scalar cp" and "0 < i" and "i < length (utf8_bytes cp)"
  shows "\<exists>s. utf8_run_nat utf8_init (take i (utf8_bytes cp)) = (s, []) \<and> cp_need s \<noteq> 0"
  using assms(1)
proof (cases rule: utf8_bytes_cases)
  case (two p x)
  then have "i = 1" using assms by simp
  with two(1-3) show ?thesis by (simp add: utf8_lead)
next
  case (three q y x)
  then consider "i = 1" | "i = 2" using assms by fastforce
  then show ?thesis
    using three(1-6) by cases (cases "q = 0"; cases "q = 13"; simp add: utf8_leads utf8_continue)+
next
  case (four r z y x)
  then consider "i = 1" | "i = 2" | "i = 3" using assms by fastforce
  then show ?thesis
    using four(1-7) by cases (cases "r = 0"; cases "r = 4"; simp add: utf8_leads utf8_continue)+
qed (use assms in simp)

lemma utf8_run_first:
  assumes "scalar cp" and "0 < i" and "i < length (utf8_bytes cp)"
  shows "\<exists>s. utf8_run utf8_init (take i (map word_of_nat (utf8_bytes cp))) = (s, []) \<and> cp_need s \<noteq> 0"
proof -
  have "\<forall>b \<in> set (take i (utf8_bytes cp)). b < 256"
    using utf8_bytes_less [OF assms(1)] by (auto dest: in_set_takeD)
  with utf8_run_first_nat [OF assms] show ?thesis by (simp add: take_map utf8_run_word)
qed

lemma utf8_run_last_nat:
  "\<forall>b \<in> set bs. 128 \<le> b \<and> b < 192 \<Longrightarrow> utf8_run_nat utf8_init bs = (utf8_init, replicate (length bs) 0xFFFD)"
  by (induction bs) (simp_all add: utf8_step_def utf8_start_def)

lemma utf8_bytes_continued:
  assumes "scalar cp" and "0 < i"
  shows "\<forall>b \<in> set (drop i (utf8_bytes cp)). 128 \<le> b \<and> b < 192"
proof -
  obtain j where i: "i = Suc j" using assms(2) by (cases i) auto
  have "\<forall>b \<in> set (tl (utf8_bytes cp)). 128 \<le> b \<and> b < 192"
    using assms(1) by (cases rule: utf8_bytes_cases) auto
  then show ?thesis
    by (auto simp: i drop_Suc dest: in_set_dropD)
qed

lemma utf8_run_last:
  assumes "scalar cp" and "0 < i"
  shows "utf8_run utf8_init (drop i (map word_of_nat (utf8_bytes cp)))
    = (utf8_init, replicate (length (utf8_bytes cp) - i) 0xFFFD)"
proof -
  have "\<forall>b \<in> set (drop i (utf8_bytes cp)). b < 256"
    using utf8_bytes_continued [OF assms] by auto
  with utf8_run_last_nat [OF utf8_bytes_continued [OF assms]] show ?thesis
    by (simp add: drop_map utf8_run_word)
qed

lemma text_decode_run:
  assumes "utf8_run utf8_init bs = (s, cps)"
  shows "text_decode bs = utf16s (snd (strip_bom False (cps @ utf8_flush s)))"
  using assms by (auto simp: text_decode_def decode_chunk_def decode_flush_def new_decoder_def strip_bom_append
      split: prod.split)

lemma strip_bom_before:
  assumes "bom_free s" and "cps = [] \<or> hd cps \<noteq> 0xFEFF"
  shows "snd (strip_bom False (code_points s @ cps)) = code_points s @ cps"
proof (cases "code_points s")
  case Nil
  with assms(2) show ?thesis by (cases cps) auto
next
  case (Cons c cs)
  with strip_bom_text [OF assms(1)] show ?thesis by (auto split: if_splits)
qed

lemma utf16s_replicate: "utf16s (replicate n 0xFFFD) = replicate n 0xFFFD"
  by (induction n) (simp_all add: utf16s_def utf16_def)

lemma text_decode_first:
  assumes "scalar cp" and "0 < i" and "i < length (utf8_bytes cp)" and "wf_utf16 p" and "bom_free p"
  shows "text_decode (text_bytes p @ take i (map word_of_nat (utf8_bytes cp))) = p @ [0xFFFD]"
proof -
  obtain s where "utf8_run utf8_init (take i (map word_of_nat (utf8_bytes cp))) = (s, [])" "cp_need s \<noteq> 0"
    using utf8_run_first [OF assms(1-3)] by blast
  then show ?thesis
    using strip_bom_before [OF assms(5), of "[0xFFFD]"] utf16s_code_points [OF assms(4)]
    by (subst text_decode_run [where cps = "code_points p" and s = s])
      (simp_all add: utf8_run_append text_bytes_run utf8_flush_def utf16_def)
qed

lemma text_decode_last:
  assumes "scalar cp" and "0 < i" and "i < length (utf8_bytes cp)" and "wf_utf16 q"
  shows "text_decode (drop i (map word_of_nat (utf8_bytes cp)) @ text_bytes q)
    = replicate (length (utf8_bytes cp) - i) 0xFFFD @ q"
proof -
  obtain n where n: "length (utf8_bytes cp) - i = Suc n" using assms(3) by (metis Suc_diff_Suc)
  show ?thesis
    using utf16s_code_points [OF assms(4)] utf16s_replicate [of "Suc n"]
    by (subst text_decode_run [where cps = "replicate (Suc n) 0xFFFD @ code_points q" and s = utf8_init])
      (simp_all add: utf8_run_append utf8_run_last [OF assms(1,2)] text_bytes_run utf8_flush_def n utf16_def)
qed

lemma text_decode_whole:
  assumes "scalar cp" and "wf_utf16 p" and "wf_utf16 q" and "bom_free (p @ utf16 cp @ q)"
  shows "text_decode (text_bytes p @ map word_of_nat (utf8_bytes cp) @ text_bytes q) = p @ utf16 cp @ q"
proof -
  have "bom_free p" using assms(4) by (cases p) (simp_all add: bom_free_def)
  moreover have "p = [] \<Longrightarrow> cp \<noteq> 0xFEFF" using assms(4) by (auto simp: bom_free_def utf16_def)
  ultimately have "snd (strip_bom False (code_points p @ cp # code_points q)) = code_points p @ cp # code_points q"
    using strip_bom_before [of p "cp # code_points q"] strip_bom_text [of p]
    by (cases p rule: code_points.cases) (auto split: if_splits)
  then show ?thesis
    using utf16s_code_points [OF assms(2)] utf16s_code_points [OF assms(3)]
    by (subst text_decode_run [where cps = "code_points p @ cp # code_points q" and s = utf8_init])
      (simp_all add: utf8_run_append utf8_run_scalar [OF assms(1)] text_bytes_run utf8_flush_def)
qed

section \<open>The length of decoded text\<close>

text \<open>
  No byte sequence, well-formed or not, decodes to more code units than it has bytes. The credit of
  a state is the number of code units its sequence may still produce beyond its further bytes.
\<close>

definition utf8_credit :: "utf8_state \<Rightarrow> nat" where
  "utf8_credit s =
     (if cp_need s = 0 then 0
      else if cp_need s = 3 \<or> (cp_acc s + 1) * 64 ^ cp_need s \<le> 65536 then 1
      else 2)"

lemma length_utf16: "length (utf16 cp) = (if cp < 65536 then 1 else 2)"
  by (simp add: utf16_def)

lemma utf8_start_length:
  "length (utf16s (snd (utf8_start b))) + utf8_credit (fst (utf8_start b)) \<le> 1"
  by (auto simp: utf8_start_def utf8_credit_def length_utf16)

lemma utf8_step_length:
  "length (utf16s (snd (utf8_step s b))) + utf8_credit (fst (utf8_step s b)) \<le> utf8_credit s + 1"
proof -
  consider (start) "cp_need s = 0" | (bad) "cp_need s \<noteq> 0" "b < cp_lower s \<or> cp_upper s < b"
    | (last) "cp_need s = 1" "\<not> (b < cp_lower s \<or> cp_upper s < b)"
    | (more) n where "cp_need s = Suc (Suc n)" "\<not> (b < cp_lower s \<or> cp_upper s < b)"
    by (cases "cp_need s"; cases "cp_need s - 1") auto
  then show ?thesis
  proof cases
    case start
    then show ?thesis using utf8_start_length [of b] by (simp add: utf8_step_def)
  next
    case bad
    then show ?thesis
      using utf8_start_length [of b]
      by (simp add: utf8_step_def utf8_credit_def [of s] length_utf16)
  next
    case last
    have "b mod 64 < 64" by simp
    with last show ?thesis
      by (auto simp: utf8_step_def utf8_credit_def length_utf16 simp del: mod_less_divisor)
  next
    case more
    have "b mod 64 + 1 \<le> 64" by (simp add: Suc_leI)
    then have "(cp_acc s * 64 + b mod 64 + 1) * 64 ^ Suc n \<le> (cp_acc s + 1) * 64 ^ Suc (Suc n)"
      using mult_le_mono1 [of "cp_acc s * 64 + b mod 64 + 1" "(cp_acc s + 1) * 64" "64 ^ Suc n"]
      by (simp add: algebra_simps)
    with more show ?thesis
      by (auto simp: utf8_step_def utf8_credit_def Let_def)
  qed
qed

lemma utf8_run_length:
  "length (utf16s (snd (utf8_run s bs))) + utf8_credit (fst (utf8_run s bs)) \<le> utf8_credit s + length bs"
proof (induction bs arbitrary: s)
  case (Cons b bs)
  from Cons [of "fst (utf8_step s (unat b))"] utf8_step_length [of s "unat b"] show ?case
    by (auto split: prod.split)
qed simp

lemma strip_bom_length: "length (utf16s (snd (strip_bom seen cps))) \<le> length (utf16s cps)"
  by (cases cps) auto

lemma text_decode_length: "length (text_decode bs) \<le> length bs"
proof -
  obtain s cps where run: "utf8_run utf8_init bs = (s, cps)" by fastforce
  obtain seen cps' where bom: "strip_bom False cps = (seen, cps')" by fastforce
  have "length (utf16s (snd (strip_bom seen (utf8_flush s)))) \<le> length (utf16s (utf8_flush s))"
    by (rule strip_bom_length)
  also have "\<dots> \<le> utf8_credit s"
    by (simp add: utf8_flush_def utf8_credit_def length_utf16)
  finally have "length (text_decode bs) \<le> length (utf16s cps') + utf8_credit s"
    by (simp add: text_decode_def decode_chunk_def decode_flush_def new_decoder_def run bom)
  moreover have "length (utf16s cps') \<le> length (utf16s cps)"
    using strip_bom_length [of False cps] by (simp add: bom)
  ultimately show ?thesis
    using utf8_run_length [of utf8_init bs] by (simp add: run utf8_credit_def [of utf8_init])
qed

end
