(* ===== verification/Json_Transport.thy ===== *)
theory Json_Transport
  imports Wire_Format Utf8
begin

text \<open>
  JSON text on its way through UTF-8: what \<open>JSON.stringify\<close> prints is well-formed UTF-16 and
  does not begin with a byte order mark, so its bytes decode to it and parse to the value.
\<close>

definition tame :: "js_string \<Rightarrow> bool" where
  "tame s \<longleftrightarrow> (\<forall>c \<in> set s. c < 128)"

lemma tame_simps [simp]: "tame []" "tame (c # s) \<longleftrightarrow> c < 128 \<and> tame s" "tame (s @ t) \<longleftrightarrow> tame s \<and> tame t"
  by (auto simp: tame_def)

lemma tame_not_surrogate: "c < 128 \<Longrightarrow> \<not> is_lead c \<and> \<not> is_trail c"
  unfolding is_lead_unat is_trail_unat word_less_nat_alt by simp

lemma tame_wf_utf16: "tame s \<Longrightarrow> wf_utf16 (s @ t) \<longleftrightarrow> wf_utf16 t"
  by (induction s) (auto simp: tame_not_surrogate wf_utf16_Cons)

lemma hex_digit_tame: "n < 16 \<Longrightarrow> hex_digit n < 128"
  unfolding hex_digit_def word_less_nat_alt by (simp add: unat_of_nat del: of_nat_add)

lemma unicode_escape_tame: "tame (unicode_escape c)"
proof -
  have "unat c div 4096 < 16"
    using unat_unit_less [of c] by (simp add: less_mult_imp_div_less)
  then show ?thesis by (simp add: unicode_escape_def Let_def hex_digit_tame)
qed

lemma digit_tame: "is_digit c \<Longrightarrow> c < 128"
  unfolding is_digit_def word_le_nat_alt word_less_nat_alt by simp

lemma nat_digits_tame: "c \<in> set (nat_digits n) \<Longrightarrow> c < 128"
  by (auto dest: nat_digits_digits digit_tame)

lemma num_to_string_tame:
  assumes "is_double d"
  shows "tame (num_to_string d)"
proof -
  obtain m e where Dec: "d = Dec m e" using is_double_Dec [OF assms] by blast
  have "hd (nat_digits k) < 128" for k
    by (rule nat_digits_tame [of _ k]) simp
  moreover have "c \<in> set (tl (nat_digits k)) \<Longrightarrow> c < 128" for k c
    by (rule nat_digits_tame [of _ k]) (simp add: list.set_sel)
  ultimately have "tame (print_decimal k e)" for k
    by (auto simp: print_decimal_def Let_def tame_def
        dest: in_set_takeD in_set_dropD nat_digits_tame)
  with Dec show ?thesis by (simp add: tame_def)
qed

lemma wf_utf16_tame: "tame s \<Longrightarrow> wf_utf16 s"
  using tame_wf_utf16 [of s "[]"] by simp

declare wf_utf16.simps [simp del]

lemma quote_unit_wf: "\<not> is_lead c \<Longrightarrow> \<not> is_trail c \<Longrightarrow> wf_utf16 (quote_unit c)"
  by (simp add: quote_unit_def wf_utf16_tame unicode_escape_tame wf_utf16.simps(2))

lemma quote_units_wf: "wf_utf16 (quote_units s)"
  by (induction s rule: quote_units.induct)
    (auto intro!: wf_utf16_append simp: quote_unit_wf wf_utf16_tame unicode_escape_tame wf_utf16.simps(3))

lemma json_quote_wf: "wf_utf16 (json_quote s)"
  by (simp add: json_quote_def tame_not_surrogate wf_utf16_Cons wf_utf16_append wf_utf16_tame quote_units_wf)

lemma js_join_wf: "\<forall>p \<in> set ps. wf_utf16 p \<Longrightarrow> wf_utf16 sep \<Longrightarrow> wf_utf16 (js_join sep ps)"
  by (induction sep ps rule: js_join.induct) (auto intro!: wf_utf16_append simp: wf_utf16_tame)

lemma js_wf: "wf_utf16 (js ''null'')" "wf_utf16 (js ''true'')" "wf_utf16 (js ''false'')"
  by (simp_all add: wf_utf16_tame)

lemma value_text_wf: "wf_json v \<Longrightarrow> wf_utf16 (value_text v)"
proof (induction v)
  case (JArr vs)
  then have "wf_utf16 (js_join [44] (map value_text vs))"
    by (intro js_join_wf) (auto simp: wf_utf16_tame)
  then show ?case
    by (simp add: value_text_def stringify_elems_map tame_not_surrogate wf_utf16_Cons wf_utf16_append wf_utf16_tame)
next
  case (JObj kvs)
  then have "wf_utf16 (js_join [44] (map (\<lambda>(k, v). json_quote k @ 58 # value_text v) kvs))"
    by (intro js_join_wf)
      (auto simp: wf_utf16_tame snds.simps tame_not_surrogate wf_utf16_Cons
        intro!: wf_utf16_append json_quote_wf)
  with JObj.prems show ?case
    by (simp add: value_text_def stringify_props_map tame_not_surrogate wf_utf16_Cons wf_utf16_append wf_utf16_tame)
qed (auto simp: value_text_def json_quote_wf wf_utf16_tame num_to_string_tame simp del: js_Cons
    intro: js_wf)

lemma value_text_bom_free:
  assumes "wf_json v"
  shows "bom_free (value_text v)"
proof -
  have "bom_free (num_to_string d)" if "is_double d" for d
    using num_to_string_tame [OF that] by (cases "num_to_string d") (auto simp: bom_free_def)
  with assms show ?thesis
    by (cases v) (auto simp: value_text_def bom_free_def json_quote_def)
qed

text \<open>What a receiver makes of the bytes of a value's text.\<close>

lemma parse_text_bytes:
  assumes "wf_json v"
  shows "json_parse (text_decode (text_bytes (value_text v))) = Inr v"
  using assms json_parse_stringify [OF assms wf_json_stringify]
  by (simp add: text_decode_bytes value_text_wf value_text_bom_free)

end
