(* ===== verification/Stream_Model.thy ===== *)
theory Stream_Model
  imports Js_Prelude
begin

text \<open>
  The Streams API as far as the source uses it: readable streams, transform streams given by
  their \<open>transform\<close> and \<open>flush\<close> callbacks, and \<open>pipeThrough\<close>. First the reference
  semantics (what a stage makes of a whole input), then a step relation in which arrivals,
  callbacks and reads interleave, and the proof that every interleaving delivers a prefix of
  the reference output and all of it in the end.
\<close>

section \<open>Streams and transformers\<close>

text \<open>
  A stream is observed as the chunks it has delivered so far and how it stands: still open,
  closed, or errored.
\<close>

datatype ending = Open | Closed | Errored js_error

record 'a stream =
  chunks :: "'a list"
  ending :: ending

text \<open>
  A callback returns the new state of its closure, the chunks it enqueued, and the value it
  threw, if it threw one (chunks enqueued before the throw count).
\<close>

record ('s, 'a, 'b) transformer =
  tstart :: 's
  ttransform :: "'s \<Rightarrow> 'a \<Rightarrow> 's \<times> 'b list \<times> js_error option"
  tflush :: "'s \<Rightarrow> 'b list \<times> js_error option"

fun consume ::
  "('s, 'a, 'b) transformer \<Rightarrow> 's \<Rightarrow> 'a list \<Rightarrow> 's \<times> 'b list \<times> js_error option" where
  "consume T s [] = (s, [], None)"
| "consume T s (x # xs) =
     (case ttransform T s x of
        (s', ys, Some e) \<Rightarrow> (s', ys, Some e)
      | (s', ys, None) \<Rightarrow> (case consume T s' xs of (s'', zs, e) \<Rightarrow> (s'', ys @ zs, e)))"

fun finish ::
  "('s, 'a, 'b) transformer \<Rightarrow> ending \<Rightarrow> 's \<times> 'b list \<times> js_error option \<Rightarrow> 'b list \<times> ending" where
  "finish T en (s, ys, Some e) = (ys, Errored e)"
| "finish T Open (s, ys, None) = (ys, Open)"
| "finish T (Errored e) (s, ys, None) = (ys, Errored e)"
| "finish T Closed (s, ys, None) =
     (case tflush T s of (zs, None) \<Rightarrow> (ys @ zs, Closed) | (zs, Some e) \<Rightarrow> (ys @ zs, Errored e))"

definition pipeThrough :: "'a stream \<Rightarrow> ('s, 'a, 'b) transformer \<Rightarrow> 'b stream" where
  "pipeThrough st T =
     (case finish T (ending st) (consume T (tstart T) (chunks st)) of
        (ys, en) \<Rightarrow> \<lparr>chunks = ys, ending = en\<rparr>)"

lemma consume_append:
  "consume T s (xs @ ys) =
     (case consume T s xs of
        (s', os, Some e) \<Rightarrow> (s', os, Some e)
      | (s', os, None) \<Rightarrow> (case consume T s' ys of (s'', ps, e) \<Rightarrow> (s'', os @ ps, e)))"
  by (induction xs arbitrary: s) (auto split: prod.splits option.splits)

lemma finish_prefix: "prefix (fst (snd r)) (fst (finish T en r))"
  by (cases "(T, en, r)" rule: finish.cases) (auto split: prod.splits option.splits)

text \<open>More input never takes output back.\<close>

lemma pipeThrough_grows:
  "prefix (chunks (pipeThrough \<lparr>chunks = xs, ending = Open\<rparr> T))
     (chunks (pipeThrough \<lparr>chunks = xs @ ys, ending = en\<rparr> T))"
proof -
  obtain s os e where c: "consume T (tstart T) xs = (s, os, e)"
    by (cases "consume T (tstart T) xs")
  then have "prefix os (fst (snd (consume T (tstart T) (xs @ ys))))"
    by (auto simp: consume_append split: option.splits prod.splits)
  moreover note finish_prefix [of "consume T (tstart T) (xs @ ys)" T en]
  moreover have "chunks (pipeThrough \<lparr>chunks = xs, ending = Open\<rparr> T) = os"
    using c by (cases e) (auto simp: pipeThrough_def)
  ultimately show ?thesis
    by (auto simp: pipeThrough_def split: prod.splits dest: prefix_order.trans)
qed

section \<open>Stages that do not throw\<close>

locale total_stage =
  fixes T :: "('s, 'a, 'b) transformer"
    and invar :: "'s \<Rightarrow> bool"
  assumes invar_start: "invar (tstart T)"
    and transform_total: "invar s \<Longrightarrow> \<exists>s' ys. ttransform T s x = (s', ys, None) \<and> invar s'"
    and flush_total: "invar s \<Longrightarrow> snd (tflush T s) = None"
begin

lemma consume_total:
  "invar s \<Longrightarrow> \<exists>s' ys. consume T s xs = (s', ys, None) \<and> invar s'"
proof (induction xs arbitrary: s)
  case (Cons x xs)
  obtain s' ys where x: "ttransform T s x = (s', ys, None)" "invar s'"
    using transform_total [OF Cons.prems] by blast
  with Cons.IH [OF x(2)] show ?case by auto
qed simp

lemma ending_pipeThrough: "ending (pipeThrough st T) = ending st"
proof -
  obtain s ys where c: "consume T (tstart T) (chunks st) = (s, ys, None)" "invar s"
    using consume_total [OF invar_start] by blast
  then show ?thesis
    using flush_total [OF c(2)]
    by (cases "ending st") (auto simp: pipeThrough_def split: prod.splits option.splits)
qed

end

section \<open>Interleavings\<close>

text \<open>
  One stage at work. The source delivers chunks and at some point closes or fails; the stage
  takes the next pending chunk when it gets to it; the consumer reads from the stage's queue
  when it wants. When a callback throws or the source fails, the queue is thrown away, as the
  Streams standard prescribes. The fields \<open>arrived\<close> and \<open>delivered\<close> record the history.
\<close>

record ('s, 'a, 'b) pipe =
  arrived :: "'a list"
  pending :: "'a list"
  source :: ending
  tstate :: 's
  queue :: "'b list"
  outcome :: ending
  delivered :: "'b list"

definition pipe_init :: "('s, 'a, 'b) transformer \<Rightarrow> ('s, 'a, 'b) pipe" where
  "pipe_init T = \<lparr>arrived = [], pending = [], source = Open, tstate = tstart T, queue = [],
     outcome = Open, delivered = []\<rparr>"

inductive env_step :: "('s, 'a, 'b) pipe \<Rightarrow> ('s, 'a, 'b) pipe \<Rightarrow> bool" where
  arrive: "source p = Open \<Longrightarrow> env_step p (p\<lparr>arrived := arrived p @ [x], pending := pending p @ [x]\<rparr>)"
| source_closes: "source p = Open \<Longrightarrow> env_step p (p\<lparr>source := Closed\<rparr>)"
| source_fails: "source p = Open \<Longrightarrow> env_step p (p\<lparr>source := Errored e\<rparr>)"

inductive work_step :: "('s, 'a, 'b) transformer \<Rightarrow> ('s, 'a, 'b) pipe \<Rightarrow> ('s, 'a, 'b) pipe \<Rightarrow> bool"
  for T where
  transform_returns: "outcome p = Open \<Longrightarrow> pending p = x # xs \<Longrightarrow>
     ttransform T (tstate p) x = (s', ys, None) \<Longrightarrow>
     work_step T p (p\<lparr>pending := xs, tstate := s', queue := queue p @ ys\<rparr>)"
| transform_throws: "outcome p = Open \<Longrightarrow> pending p = x # xs \<Longrightarrow>
     ttransform T (tstate p) x = (s', ys, Some e) \<Longrightarrow>
     work_step T p (p\<lparr>pending := xs, tstate := s', queue := [], outcome := Errored e\<rparr>)"
| flush_returns: "outcome p = Open \<Longrightarrow> pending p = [] \<Longrightarrow> source p = Closed \<Longrightarrow>
     tflush T (tstate p) = (ys, None) \<Longrightarrow>
     work_step T p (p\<lparr>queue := queue p @ ys, outcome := Closed\<rparr>)"
| flush_throws: "outcome p = Open \<Longrightarrow> pending p = [] \<Longrightarrow> source p = Closed \<Longrightarrow>
     tflush T (tstate p) = (ys, Some e) \<Longrightarrow>
     work_step T p (p\<lparr>queue := [], outcome := Errored e\<rparr>)"
| propagate: "outcome p = Open \<Longrightarrow> pending p = [] \<Longrightarrow> source p = Errored e \<Longrightarrow>
     work_step T p (p\<lparr>queue := [], outcome := Errored e\<rparr>)"
| deliver: "queue p = y # ys \<Longrightarrow>
     work_step T p (p\<lparr>queue := ys, delivered := delivered p @ [y]\<rparr>)"

inductive pipe_reachable :: "('s, 'a, 'b) transformer \<Rightarrow> ('s, 'a, 'b) pipe \<Rightarrow> bool" for T where
  initially: "pipe_reachable T (pipe_init T)"
| by_env: "pipe_reachable T p \<Longrightarrow> env_step p q \<Longrightarrow> pipe_reachable T q"
| by_work: "pipe_reachable T p \<Longrightarrow> work_step T p q \<Longrightarrow> pipe_reachable T q"

text \<open>
  The invariant ties the concrete state to the reference semantics of the chunks taken so far.
\<close>

definition pipe_inv :: "('s, 'a, 'b) transformer \<Rightarrow> ('s, 'a, 'b) pipe \<Rightarrow> bool" where
  "pipe_inv T p \<longleftrightarrow> (\<exists>taken. arrived p = taken @ pending p \<and>
     (case outcome p of
        Open \<Rightarrow> consume T (tstart T) taken = (tstate p, delivered p @ queue p, None)
      | Closed \<Rightarrow> pending p = [] \<and> source p = Closed \<and>
          finish T Closed (consume T (tstart T) taken) = (delivered p @ queue p, Closed)
      | Errored e \<Rightarrow> queue p = [] \<and> (\<exists>s ys. prefix (delivered p) ys \<and>
          (consume T (tstart T) taken = (s, ys, Some e) \<or>
           pending p = [] \<and> source p \<noteq> Open \<and>
           finish T (source p) (consume T (tstart T) taken) = (ys, Errored e)))))"

lemma pipe_inv_init: "pipe_inv T (pipe_init T)"
  by (simp add: pipe_inv_def pipe_init_def)

lemma env_step_inv: "env_step p q \<Longrightarrow> pipe_inv T p \<Longrightarrow> pipe_inv T q"
proof (induction rule: env_step.induct)
  case (arrive p x)
  then show ?case
    by (cases "outcome p") (auto simp: pipe_inv_def)
next
  case (source_closes p)
  then show ?case
    by (cases "outcome p") (auto simp: pipe_inv_def)
next
  case (source_fails p e)
  then show ?case
    by (cases "outcome p") (auto simp: pipe_inv_def)
qed

lemma consume_snoc:
  assumes "consume T s xs = (s', os, None)" and "ttransform T s' x = (s'', ys, e)"
  shows "consume T s (xs @ [x]) = (s'', os @ ys, e)"
  using assms by (cases e) (simp_all add: consume_append)

lemma work_step_inv: "work_step T p q \<Longrightarrow> pipe_inv T p \<Longrightarrow> pipe_inv T q"
proof (induction rule: work_step.induct)
  case (transform_returns p x xs s' ys)
  then obtain taken where a: "arrived p = (taken @ [x]) @ xs"
    and t: "consume T (tstart T) taken = (tstate p, delivered p @ queue p, None)"
    by (auto simp: pipe_inv_def)
  have "consume T (tstart T) (taken @ [x]) = (s', (delivered p @ queue p) @ ys, None)"
    by (rule consume_snoc [OF t transform_returns(3)])
  with a transform_returns(1) show ?case
    unfolding pipe_inv_def by (intro exI [of _ "taken @ [x]"]) simp
next
  case (transform_throws p x xs s' ys e)
  then obtain taken where a: "arrived p = (taken @ [x]) @ xs"
    and t: "consume T (tstart T) taken = (tstate p, delivered p @ queue p, None)"
    by (auto simp: pipe_inv_def)
  have "consume T (tstart T) (taken @ [x]) = (s', (delivered p @ queue p) @ ys, Some e)"
    by (rule consume_snoc [OF t transform_throws(3)])
  with a show ?case
    unfolding pipe_inv_def by (intro exI [of _ "taken @ [x]"])
      (auto intro!: exI [of _ s'] exI [of _ "delivered p @ queue p @ ys"])
next
  case (deliver p y ys)
  then show ?case
    by (cases "outcome p") (auto simp: pipe_inv_def)
qed (auto simp: pipe_inv_def)

lemma pipe_reachable_inv: "pipe_reachable T p \<Longrightarrow> pipe_inv T p"
  by (induction rule: pipe_reachable.induct)
    (auto intro: pipe_inv_init env_step_inv work_step_inv)

text \<open>Whatever the interleaving, the consumer has read a prefix of the reference output.\<close>

definition history :: "('s, 'a, 'b) pipe \<Rightarrow> 'a stream" where
  "history p = \<lparr>chunks = arrived p, ending = source p\<rparr>"

lemma finish_error_kept:
  "consume T s xs = (s', ys, Some e) \<Longrightarrow> finish T en (consume T s (xs @ zs)) = (ys, Errored e)"
  by (simp add: consume_append)

lemma delivered_prefix:
  assumes "pipe_reachable T p"
  shows "prefix (delivered p) (chunks (pipeThrough (history p) T))"
proof -
  obtain taken where a: "arrived p = taken @ pending p"
    and o: "case outcome p of
        Open \<Rightarrow> consume T (tstart T) taken = (tstate p, delivered p @ queue p, None)
      | Closed \<Rightarrow> pending p = [] \<and> source p = Closed \<and>
          finish T Closed (consume T (tstart T) taken) = (delivered p @ queue p, Closed)
      | Errored e \<Rightarrow> queue p = [] \<and> (\<exists>s ys. prefix (delivered p) ys \<and>
          (consume T (tstart T) taken = (s, ys, Some e) \<or>
           pending p = [] \<and> source p \<noteq> Open \<and>
           finish T (source p) (consume T (tstart T) taken) = (ys, Errored e)))"
    using pipe_reachable_inv [OF assms] by (auto simp: pipe_inv_def)
  show ?thesis
  proof (cases "outcome p")
    case Open
    with o have "chunks (pipeThrough \<lparr>chunks = taken, ending = Open\<rparr> T) = delivered p @ queue p"
      by (simp add: pipeThrough_def)
    then show ?thesis
      using pipeThrough_grows [of taken T "pending p" "source p"] a
      by (auto simp: history_def dest: append_prefixD)
  next
    case Closed
    with o a show ?thesis by (simp add: pipeThrough_def history_def)
  next
    case (Errored e)
    with o a show ?thesis
      by (auto simp: pipeThrough_def history_def finish_error_kept)
  qed
qed

text \<open>
  A consumer that has emptied the queue of a stage with nothing left to do has read all of it.
\<close>

lemma delivered_when_closed:
  assumes "pipe_reachable T p" and "outcome p = Closed" and "queue p = []"
  shows "pipeThrough (history p) T = \<lparr>chunks = delivered p, ending = Closed\<rparr>"
  using pipe_reachable_inv [OF assms(1)] assms(2,3)
  by (auto simp: pipe_inv_def pipeThrough_def history_def)

lemma delivered_when_idle:
  assumes "pipe_reachable T p" and "outcome p = Open" and "source p = Open"
    and "pending p = []" and "queue p = []"
  shows "pipeThrough (history p) T = \<lparr>chunks = delivered p, ending = Open\<rparr>"
  using pipe_reachable_inv [OF assms(1)] assms(2-)
  by (auto simp: pipe_inv_def pipeThrough_def history_def)

text \<open>
  The stage and its consumer cannot go on for ever without new input: each of their steps
  makes the pair of pending work and queued chunks smaller.
\<close>

definition work_measure :: "('s, 'a, 'b) pipe \<Rightarrow> nat \<times> nat" where
  "work_measure p = (length (pending p) + (if outcome p = Open then 1 else 0), length (queue p))"

lemma work_step_decreases:
  "work_step T p q \<Longrightarrow> (work_measure q, work_measure p) \<in> less_than <*lex*> less_than"
  by (induction rule: work_step.induct) (auto simp: work_measure_def)

lemma work_terminates: "wf {(q, p). work_step T p q}"
proof (rule wf_subset)
  show "wf (inv_image (less_than <*lex*> less_than) (work_measure :: ('a, 'b, 'c) pipe \<Rightarrow> _))"
    by (intro wf_inv_image wf_lex_prod wf_less_than)
  show "{(q, p). work_step T p q} \<subseteq> inv_image (less_than <*lex*> less_than) work_measure"
    using work_step_decreases by (auto simp: inv_image_def)
qed

text \<open>And it never gets stuck while there is something to do.\<close>

lemma work_progress:
  assumes "outcome p = Open \<and> (pending p \<noteq> [] \<or> source p \<noteq> Open) \<or> queue p \<noteq> []"
  shows "\<exists>q. work_step T p q"
proof (cases "queue p")
  case (Cons y ys)
  then show ?thesis by (blast intro: deliver)
next
  case q: Nil
  with assms have o: "outcome p = Open" by simp
  show ?thesis
  proof (cases "pending p")
    case (Cons x xs)
    obtain s' ys e where "ttransform T (tstate p) x = (s', ys, e)"
      by (cases "ttransform T (tstate p) x")
    with o Cons show ?thesis
      by (cases e) (auto intro: transform_returns transform_throws)
  next
    case Nil
    obtain ys e where "tflush T (tstate p) = (ys, e)" by (cases "tflush T (tstate p)")
    with o Nil q assms show ?thesis
      by (cases "source p"; cases e) (auto intro: flush_returns flush_throws propagate)
  qed
qed

section \<open>Draining a stage\<close>

lemma work_step_history: "work_step T p q \<Longrightarrow> arrived q = arrived p \<and> source q = source p"
  by (induction rule: work_step.induct) auto

lemma work_steps_history:
  "(work_step T)\<^sup>*\<^sup>* p q \<Longrightarrow> arrived q = arrived p \<and> source q = source p"
  by (induction rule: rtranclp_induct) (auto dest: work_step_history)

lemma work_steps_reachable: "(work_step T)\<^sup>*\<^sup>* p q \<Longrightarrow> pipe_reachable T p \<Longrightarrow> pipe_reachable T q"
  by (induction rule: rtranclp_induct) (auto intro: by_work)

text \<open>A system whose steps terminate comes to rest from every state.\<close>

lemma terminates_rests:
  assumes "wf {(s', s). step s s'}"
  shows "\<exists>s'. step\<^sup>*\<^sup>* s s' \<and> (\<nexists>s''. step s' s'')"
proof (induction s rule: wf_induct [OF assms])
  case (1 s)
  show ?case
  proof (cases "\<exists>s'. step s s'")
    case True
    then obtain s' where s: "step s s'" by blast
    with 1 obtain r where "step\<^sup>*\<^sup>* s' r" and "\<nexists>r'. step r r'" by blast
    with s show ?thesis by (blast intro: converse_rtranclp_into_rtranclp)
  qed blast
qed

lemma work_rests: "\<exists>q. (work_step T)\<^sup>*\<^sup>* p q \<and> (\<nexists>q'. work_step T q q')"
  by (rule terminates_rests [OF work_terminates])

text \<open>
  When the source has closed, a stage that does not throw delivers all of its output, whatever
  the order of its steps and the consumer's.
\<close>

context total_stage
begin

lemma not_errored:
  assumes "pipe_reachable T p" and "source p = Closed"
  shows "outcome p \<noteq> Errored e"
proof
  assume e: "outcome p = Errored e"
  obtain taken where "\<exists>s ys. consume T (tstart T) taken = (s, ys, Some e) \<or>
      finish T Closed (consume T (tstart T) taken) = (ys, Errored e)"
    using pipe_reachable_inv [OF assms(1)] e assms(2) by (auto simp: pipe_inv_def)
  moreover obtain s ys where "consume T (tstart T) taken = (s, ys, None)" and "invar s"
    using consume_total [OF invar_start] by blast
  ultimately show False
    using flush_total [of s] by (auto split: prod.splits option.splits)
qed

lemma drained:
  assumes p: "pipe_reachable T p" and c: "source p = Closed"
    and q: "(work_step T)\<^sup>*\<^sup>* p q" and rest: "\<nexists>q'. work_step T q q'"
  shows "outcome q = Closed \<and> delivered q = chunks (pipeThrough \<lparr>chunks = arrived p, ending = Closed\<rparr> T)"
proof -
  have r: "pipe_reachable T q" and h: "arrived q = arrived p" "source q = Closed"
    using work_steps_reachable [OF q p] work_steps_history [OF q] c by auto
  have "outcome q \<noteq> Open" and empty: "queue q = []"
    using work_progress [of q T] rest h by auto
  with not_errored [OF r h(2)] have o: "outcome q = Closed"
    by (cases "outcome q") auto
  with delivered_when_closed [OF r o empty] h show ?thesis
    by (simp add: history_def)
qed

end

end
