(* ===== verification/Js_Sort.thy ===== *)
theory Js_Sort
  imports Js_Prelude "HOL-Library.Multiset"
begin

text \<open>
  \<open>Array.prototype.sort\<close> with a comparison function. The standard asks for a stable sort and
  leaves the algorithm open; it fixes the result whenever the comparison is consistent on the
  elements at hand. The contract is the locale \<open>comparison\<close>, the executable model an insertion
  sort, and \<open>stable_sort_unique\<close> says that every algorithm that meets the standard returns
  what the model returns.
\<close>

section \<open>The method\<close>

fun insert_by :: "('a \<Rightarrow> 'a \<Rightarrow> int) \<Rightarrow> 'a \<Rightarrow> 'a list \<Rightarrow> 'a list" where
  "insert_by cmp x [] = [x]"
| "insert_by cmp x (y # ys) = (if cmp y x < 0 then y # insert_by cmp x ys else x # y # ys)"

definition js_sort :: "('a \<Rightarrow> 'a \<Rightarrow> int) \<Rightarrow> 'a list \<Rightarrow> 'a list" where
  "js_sort cmp xs = foldr (insert_by cmp) xs []"

text \<open>What the standard asks of the result: in order, nothing lost, and equal elements in the
  order they had.\<close>

fun in_order :: "('a \<Rightarrow> 'a \<Rightarrow> int) \<Rightarrow> 'a list \<Rightarrow> bool" where
  "in_order cmp [] = True"
| "in_order cmp (x # xs) = ((\<forall>y \<in> set xs. cmp x y \<le> 0) \<and> in_order cmp xs)"

definition stable_sort_of :: "('a \<Rightarrow> 'a \<Rightarrow> int) \<Rightarrow> 'a list \<Rightarrow> 'a list \<Rightarrow> bool" where
  "stable_sort_of cmp xs ys \<longleftrightarrow> in_order cmp ys \<and> mset ys = mset xs \<and>
     (\<forall>x \<in> set xs. filter (\<lambda>y. cmp x y = 0) ys = filter (\<lambda>y. cmp x y = 0) xs)"

lemma mset_insert_by: "mset (insert_by cmp x ys) = add_mset x (mset ys)"
  by (induction ys) auto

lemma mset_js_sort: "mset (js_sort cmp xs) = mset xs"
  by (induction xs) (auto simp: js_sort_def mset_insert_by)

lemma set_insert_by: "set (insert_by cmp x ys) = insert x (set ys)"
  by (induction ys) auto

lemma set_js_sort: "set (js_sort cmp xs) = set xs"
  by (metis mset_js_sort set_mset_mset)

section \<open>The contract of a comparison function\<close>

locale comparison =
  fixes cmp :: "'a \<Rightarrow> 'a \<Rightarrow> int" and dom :: "'a \<Rightarrow> bool"
  assumes flip: "dom x \<Longrightarrow> dom y \<Longrightarrow> cmp y x < 0 \<longleftrightarrow> 0 < cmp x y"
    and trans: "dom x \<Longrightarrow> dom y \<Longrightarrow> dom z \<Longrightarrow> cmp x y \<le> 0 \<Longrightarrow> cmp y z \<le> 0 \<Longrightarrow> cmp x z \<le> 0"
begin

lemma self: "dom x \<Longrightarrow> cmp x x = 0"
  using flip [of x x] by linarith

lemma total: "dom x \<Longrightarrow> dom y \<Longrightarrow> cmp x y \<le> 0 \<or> cmp y x \<le> 0"
  using flip [of x y] by linarith

lemma zero_sym: "dom x \<Longrightarrow> dom y \<Longrightarrow> cmp x y = 0 \<longleftrightarrow> cmp y x = 0"
  using flip [of x y] flip [of y x] by linarith

lemma zero_trans:
  assumes "dom x" "dom y" "dom z" and "cmp x y = 0" and "cmp y z = 0"
  shows "cmp x z = 0"
  using assms trans [of x y z] trans [of z y x] flip [of z x] zero_sym [of x y] zero_sym [of y z]
  by fastforce

lemma in_order_insert_by:
  assumes "dom x" and "\<forall>y \<in> set ys. dom y" and "in_order cmp ys"
  shows "in_order cmp (insert_by cmp x ys)"
  using assms(2,3)
proof (induction ys)
  case (Cons y ys)
  show ?case
  proof (cases "cmp y x < 0")
    case True
    with Cons show ?thesis by (simp add: set_insert_by)
  next
    case False
    then have xy: "cmp x y \<le> 0"
      using flip [of x y] assms(1) Cons.prems(1) by simp
    with Cons.prems assms(1) have "\<forall>z \<in> set ys. cmp x z \<le> 0"
      by (auto intro: trans [of x y])
    with False xy Cons.prems show ?thesis by simp
  qed
qed simp

lemma in_order_js_sort:
  assumes "\<forall>x \<in> set xs. dom x"
  shows "in_order cmp (js_sort cmp xs)"
  using assms
proof (induction xs)
  case (Cons x xs)
  then show ?case
    using in_order_insert_by [of x "js_sort cmp xs"] by (simp add: js_sort_def set_js_sort [unfolded js_sort_def])
qed (simp add: js_sort_def)

lemma filter_insert_by:
  assumes "dom x" and "\<forall>y \<in> set ys. dom y" and "dom z"
  shows "filter (\<lambda>y. cmp z y = 0) (insert_by cmp x ys)
    = (if cmp z x = 0 then [x] else []) @ filter (\<lambda>y. cmp z y = 0) ys"
  using assms(2)
proof (induction ys)
  case (Cons y ys)
  have "cmp z y \<noteq> 0" if "cmp y x < 0" and "cmp z x = 0"
    using zero_trans [of y z x] zero_sym [of y z] that assms(1,3) Cons.prems by auto
  with Cons show ?case by auto
qed simp

lemma js_sort_stable:
  assumes "\<forall>x \<in> set xs. dom x" and "dom z"
  shows "filter (\<lambda>y. cmp z y = 0) (js_sort cmp xs) = filter (\<lambda>y. cmp z y = 0) xs"
  using assms(1)
proof (induction xs)
  case (Cons x xs)
  then show ?case
    using filter_insert_by [of x "js_sort cmp xs" z] assms(2)
    by (simp add: js_sort_def set_js_sort [unfolded js_sort_def])
qed (simp add: js_sort_def)

theorem js_sort_is_stable_sort:
  assumes "\<forall>x \<in> set xs. dom x"
  shows "stable_sort_of cmp xs (js_sort cmp xs)"
  using assms by (auto simp: stable_sort_of_def in_order_js_sort mset_js_sort js_sort_stable)

text \<open>The standard leaves no choice of result.\<close>

lemma in_order_hd_class:
  assumes "in_order cmp (y # ys)" and "\<forall>x \<in> set (y # ys). dom x"
    and "in_order cmp (z # zs)" and "set (z # zs) = set (y # ys)"
  shows "cmp z y = 0"
proof -
  have "y \<in> set (z # zs)" and "z \<in> set (y # ys)" using assms(4) by auto
  with assms(1,3) self have "cmp z y \<le> 0 \<and> cmp y z \<le> 0"
    using assms(2,4) by auto
  moreover have "dom y" and "dom z" using assms(2,4) by auto
  ultimately show ?thesis using flip [of y z] by fastforce
qed

theorem stable_sort_unique:
  assumes "\<forall>x \<in> set xs. dom x" and "stable_sort_of cmp xs ys" and "stable_sort_of cmp xs zs"
  shows "ys = zs"
proof -
  have "\<lbrakk>in_order cmp ys; in_order cmp zs; mset ys = mset zs; \<forall>x \<in> set ys. dom x;
      \<forall>x \<in> set ys. filter (\<lambda>y. cmp x y = 0) ys = filter (\<lambda>y. cmp x y = 0) zs\<rbrakk> \<Longrightarrow> ys = zs" for ys zs
  proof (induction ys arbitrary: zs)
    case (Cons y ys)
    from Cons.prems(3) obtain z zs' where zs: "zs = z # zs'" by (cases zs) auto
    have "set (z # zs') = set (y # ys)"
      using Cons.prems(3) zs by (metis set_mset_mset)
    then have zy: "cmp z y = 0" and "dom y" "dom z"
      using in_order_hd_class [of y ys z zs'] Cons.prems zs by auto
    then have "cmp y z = 0" and "cmp y y = 0" using zero_sym self by auto
    with Cons.prems(5) zs have "y = z" by auto
    moreover from this Cons.prems zs have "mset ys = mset zs'" by simp
    moreover have "\<forall>x \<in> set ys. filter (\<lambda>w. cmp x w = 0) ys = filter (\<lambda>w. cmp x w = 0) zs'"
      using Cons.prems(5) zs \<open>y = z\<close> by (auto split: if_splits)
    ultimately show ?case using Cons zs by auto
  qed simp
  moreover have "set ys = set xs" using assms(2) by (metis stable_sort_of_def set_mset_mset)
  ultimately show ?thesis
    using assms by (auto simp: stable_sort_of_def)
qed

end

section \<open>Sorting by keys of a linear order\<close>

text \<open>A comparison that agrees with a linear order sorts as the library does.\<close>

lemma insert_by_insort:
  assumes "\<And>y. y \<in> set ys \<Longrightarrow> cmp y x < 0 \<longleftrightarrow> y < (x :: 'a :: linorder)"
  shows "insert_by cmp x ys = insort x ys"
  using assms by (induction ys) (auto simp: not_less)

lemma js_sort_sort:
  assumes "\<And>x y. x \<in> set xs \<Longrightarrow> y \<in> set xs \<Longrightarrow> cmp y x < 0 \<longleftrightarrow> y < (x :: 'a :: linorder)"
  shows "js_sort cmp xs = sort xs"
  using assms
proof (induction xs)
  case (Cons x xs)
  then have "js_sort cmp xs = sort xs" by auto
  moreover have "insert_by cmp x (sort xs) = insort x (sort xs)"
    by (rule insert_by_insort) (simp add: Cons.prems)
  ultimately show ?case by (simp add: js_sort_def)
qed (simp add: js_sort_def)

end
