(* ===== verification/Util.thy ===== *)
theory Util
  imports Result_Type Json_Transport Stream_Model Js_Sort
begin

text \<open>
  \<open>client/src/util.ts\<close>: \<open>trimUrl\<close>, \<open>doFetch\<close>, \<open>ResponseError\<close> and \<open>sortBy\<close>, with what
  they use of \<open>fetch\<close> and \<open>Response\<close>. The network is a parameter of the model.
\<close>

section \<open>URLs\<close>

record URL =
  href :: js_string

definition URL_toString :: "URL \<Rightarrow> js_string" where
  "URL_toString u = href u"

definition trimUrl :: "URL \<Rightarrow> js_string" where
  "trimUrl orig =
     (let url = URL_toString orig in
      if js_endsWith url (js ''/'') then js_slice0 (length url - 1) url else url)"

text \<open>One slash at the end goes, and only one.\<close>

lemma trimUrl_slash: "trimUrl \<lparr>href = s @ js ''/''\<rparr> = s"
  by (simp add: trimUrl_def URL_toString_def js_slice0_def)

lemma trimUrl_none: "\<not> js_endsWith s (js ''/'') \<Longrightarrow> trimUrl \<lparr>href = s\<rparr> = s"
  by (simp add: trimUrl_def URL_toString_def)

section \<open>Requests and responses\<close>

record request =
  request_url :: js_string
  request_method :: js_string
  headers :: "(js_string \<times> js_string) list"
  request_body :: "js_string option"

text \<open>
  A response is its status and its body, a stream of bytes that may still be arriving; a null
  body is \<open>None\<close>.
\<close>

record response =
  http_status :: nat
  response_body :: "byte list stream option"

definition response_ok :: "response \<Rightarrow> bool" where
  "response_ok r \<longleftrightarrow> 200 \<le> http_status r \<and> http_status r \<le> 299"

text \<open>
  \<open>fetch\<close> is the environment's: given the requests made before and the request, it answers,
  fails, or does not return. The world records the requests in the order they were made.
\<close>

type_synonym network = "request list \<Rightarrow> request \<Rightarrow> response promise"

record world =
  fetched :: "request list"

definition fetch :: "network \<Rightarrow> request \<Rightarrow> 'z world_scheme \<Rightarrow> response promise \<times> 'z world_scheme" where
  "fetch net req w = (net (fetched w) req, w\<lparr>fetched := fetched w @ [req]\<rparr>)"

text \<open>The methods \<open>arrayBuffer\<close> and \<open>json\<close> of a response, each called once per response.\<close>

definition response_bytes :: "response \<Rightarrow> byte list promise" where
  "response_bytes r =
     (case response_body r of
        None \<Rightarrow> Fulfilled []
      | Some st \<Rightarrow> (case ending st of
          Open \<Rightarrow> Pending
        | Errored e \<Rightarrow> Rejected e
        | Closed \<Rightarrow> Fulfilled (concat (chunks st))))"

definition response_json :: "response \<Rightarrow> jsval promise" where
  "response_json r = await (response_bytes r) (\<lambda>bs. settle (json_parse (text_decode bs)))"

section \<open>doFetch\<close>

text \<open>
  The error of a call is a response with a status outside 200 to 299 or whatever \<open>fetch\<close>
  threw: the \<open>catch\<close> clause calls it \<open>response\<close> all the same.
\<close>

datatype fetch_error = HttpResponse response | Thrown js_error

definition authorized_request :: "js_string \<Rightarrow> js_string \<Rightarrow> jsval \<Rightarrow> request" where
  "authorized_request url authToken body =
     \<lparr>request_url = url,
      request_method = js ''POST'',
      headers = [(js ''Content-Type'', js ''application/json''),
                 (js ''Authorization'', js ''Bearer '' @ authToken)],
      request_body = json_stringify body\<rparr>"

definition doFetch ::
  "network \<Rightarrow> js_string \<Rightarrow> js_string \<Rightarrow> jsval \<Rightarrow> 'z world_scheme \<Rightarrow>
     (response, fetch_error) Result promise \<times> 'z world_scheme" where
  "doFetch net url authToken body w =
     (case fetch net (authorized_request url authToken body) w of
        (Pending, w') \<Rightarrow> (Pending, w')
      | (Fulfilled r, w') \<Rightarrow>
          (Fulfilled (if response_ok r then Result_Ok r else Result_Err (HttpResponse r)), w')
      | (Rejected e, w') \<Rightarrow> (Fulfilled (Result_Err (Thrown e)), w'))"

text \<open>
  Responses and thrown errors are objects, hence truthy, and \<open>JSON.stringify\<close> prints them
  without properties.
\<close>

definition object_truthy :: "'a \<Rightarrow> bool" where
  "object_truthy x = True"

definition print_object :: "'a \<Rightarrow> js_string completion" where
  "print_object x = Inr (js ''{}'')"

interpretation fetch_result: truthy_result
  "object_truthy :: response \<Rightarrow> bool" "object_truthy :: fetch_error \<Rightarrow> bool"
  "\<lambda>_. True" "\<lambda>_. True"
  by unfold_locales (simp_all add: object_truthy_def)

definition fetch_outcome :: "response promise \<Rightarrow> (fetch_error + response) promise" where
  "fetch_outcome p =
     (case p of
        Pending \<Rightarrow> Pending
      | Rejected e \<Rightarrow> Fulfilled (Inl (Thrown e))
      | Fulfilled r \<Rightarrow> Fulfilled (if response_ok r then Inr r else Inl (HttpResponse r)))"

lemma doFetch_refines:
  "doFetch net url token body w =
     (await (fetch_outcome (net (fetched w) (authorized_request url token body)))
        (\<lambda>r. Fulfilled (of_sum r)),
      w\<lparr>fetched := fetched w @ [authorized_request url token body]\<rparr>)"
  by (simp add: doFetch_def fetch_def fetch_outcome_def split: promise.split)

lemma doFetch_never_rejects: "fst (doFetch net url token body w) \<noteq> Rejected e"
  by (simp add: doFetch_def fetch_def split: promise.split)

section \<open>ResponseError\<close>

record ResponseError =
  error_body :: jsval
  error_response :: response
  error_status :: jsval

text \<open>An error thrown by \<open>fetch\<close> has no method \<open>json\<close>, so calling it throws.\<close>

definition error_json :: "fetch_error \<Rightarrow> (jsval \<Rightarrow> response \<Rightarrow> 'a promise) \<Rightarrow> 'a promise" where
  "error_json e k =
     (case e of
        Thrown _ \<Rightarrow> Rejected TypeError
      | HttpResponse r \<Rightarrow> await (response_json r) (\<lambda>body. k body r))"

definition ResponseError_fromResponse :: "fetch_error \<Rightarrow> ResponseError promise" where
  "ResponseError_fromResponse e =
     error_json e (\<lambda>body r.
       await (settle (js_get body (js ''code'')))
         (\<lambda>status. Fulfilled \<lparr>error_body = body, error_response = r, error_status = status\<rparr>))"

definition ResponseError_fromStreamResponse :: "fetch_error \<Rightarrow> ResponseError promise" where
  "ResponseError_fromStreamResponse e =
     error_json e (\<lambda>body r.
       await (settle (js_get body (js ''error'')))
         (\<lambda>err. await (settle (js_get err (js ''httpStatus'')))
           (\<lambda>status. Fulfilled \<lparr>error_body = err, error_response = r, error_status = status\<rparr>)))"

section \<open>sortBy\<close>

text \<open>
  A comparison with an \<open>undefined\<close> operand is false, so that such fields count as equal.
\<close>

fun field_less :: "js_string option \<Rightarrow> js_string option \<Rightarrow> bool" where
  "field_less (Some x) (Some y) = (x < y)"
| "field_less _ _ = False"

fun sortBy :: "('a \<Rightarrow> js_string option) list \<Rightarrow> 'a \<Rightarrow> 'a \<Rightarrow> int" where
  "sortBy [] a b = 0"
| "sortBy (f # fs) a b =
     (if field_less (f b) (f a) then 1
      else if field_less (f a) (f b) then -1
      else sortBy fs a b)"

definition fields_present :: "('a \<Rightarrow> js_string option) list \<Rightarrow> 'a \<Rightarrow> bool" where
  "fields_present fs a \<longleftrightarrow> (\<forall>f \<in> set fs. f a \<noteq> None)"

lemma fields_present_Cons:
  "fields_present (f # fs) a \<longleftrightarrow> (\<exists>x. f a = Some x) \<and> fields_present fs a"
  by (auto simp: fields_present_def)

lemma sortBy_range: "sortBy fs a b \<in> {-1, 0, 1}"
  by (induction fs) auto

text \<open>The sign of the result is the lexicographic order of the fields.\<close>

fun key :: "('a \<Rightarrow> js_string option) list \<Rightarrow> 'a \<Rightarrow> js_string list" where
  "key [] a = []"
| "key (f # fs) a = the (f a) # key fs a"

lemma sortBy_key:
  assumes "fields_present fs a" and "fields_present fs b"
  shows "(sortBy fs a b < 0 \<longleftrightarrow> key fs a < key fs b) \<and> (0 < sortBy fs a b \<longleftrightarrow> key fs b < key fs a)"
  using assms
proof (induction fs)
  case (Cons f fs)
  then obtain x y where "f a = Some x" and "f b = Some y"
    by (auto simp: fields_present_Cons)
  with Cons show ?case
    by (cases x y rule: linorder_cases) (auto simp: fields_present_Cons)
qed simp

interpretation sort_fields: comparison "sortBy fs" "fields_present fs" for fs
proof unfold_locales
  fix x y z assume x: "fields_present fs x" and y: "fields_present fs y"
  then show "sortBy fs y x < 0 \<longleftrightarrow> 0 < sortBy fs x y"
    using sortBy_key [of fs x y] sortBy_key [of fs y x] by simp
  assume z: "fields_present fs z" and "sortBy fs x y \<le> 0" "sortBy fs y z \<le> 0"
  then show "sortBy fs x z \<le> 0"
    using sortBy_key [OF x y] sortBy_key [OF y z] sortBy_key [OF x z]
    by (simp add: not_less [symmetric])
qed

section \<open>Arrays in responses\<close>

text \<open>\<open>xs.map(f)\<close> on a value that should be an array: other values have no such method.\<close>

fun array_map :: "(jsval \<Rightarrow> 'a completion) \<Rightarrow> jsval \<Rightarrow> 'a list completion" where
  "array_map f (JArr vs) = mapC f vs"
| "array_map f v = Inl TypeError"

lemma array_map_get:
  assumes "\<And>x. x \<in> set xs \<Longrightarrow> js_get (enc x) k = Inr (f x)"
  shows "array_map (\<lambda>j. js_get j k) (json_array enc xs) = Inr (map f xs)"
  using assms by (simp add: json_array_def mapC_map_Inr)

section \<open>Unary calls\<close>

text \<open>
  What every call with a single response promises: it makes one request, and its outcome is a
  function of what comes back. \<open>view\<close> is what the call extracts from the response's JSON.
\<close>

definition unary_outcome ::
  "(jsval \<Rightarrow> 'a completion) \<Rightarrow> response promise \<Rightarrow> (ResponseError + 'a) promise" where
  "unary_outcome view p =
     (case p of
        Pending \<Rightarrow> Pending
      | Rejected _ \<Rightarrow> Rejected TypeError
      | Fulfilled r \<Rightarrow>
          if response_ok r then
            await (response_json r) (\<lambda>v. await (settle (view v)) (\<lambda>x. Fulfilled (Inr x)))
          else
            await (response_json r)
              (\<lambda>body. await (settle (js_get body (js ''code'')))
                (\<lambda>status. Fulfilled (Inl \<lparr>error_body = body, error_response = r, error_status = status\<rparr>))))"

text \<open>A response whose body is the JSON text of a value, cut into chunks in any way.\<close>

definition json_response :: "nat \<Rightarrow> jsval \<Rightarrow> response \<Rightarrow> bool" where
  "json_response status v r \<longleftrightarrow> http_status r = status \<and>
     (\<exists>cs. response_body r = Some \<lparr>chunks = cs, ending = Closed\<rparr> \<and> concat cs = text_bytes (value_text v))"

lemma response_json_value: "wf_json v \<Longrightarrow> json_response s v r \<Longrightarrow> response_json r = Fulfilled v"
  by (auto simp: json_response_def response_json_def response_bytes_def parse_text_bytes)

text \<open>
  The request may depend on the world (a list call sends the labels of its selectors), but the
  call must not change what it depends on: \<open>repeats\<close> says the same call sends the same request
  again, as long as \<open>valid\<close> holds, which it preserves.
\<close>

locale unary_call =
  fixes call :: "network \<Rightarrow> 'w world_scheme \<Rightarrow> ('a, ResponseError) Result promise \<times> 'w world_scheme"
    and req :: "'w world_scheme \<Rightarrow> request"
    and view :: "jsval \<Rightarrow> 'a completion"
    and valid :: "'w world_scheme \<Rightarrow> bool"
  assumes outcome: "valid w \<Longrightarrow> fst (call net w) =
      await (unary_outcome view (net (fetched w) (req w))) (\<lambda>r. Fulfilled (of_sum r))"
    and one_request: "valid w \<Longrightarrow> fetched (snd (call net w)) = fetched w @ [req w]"
    and valid_call: "valid w \<Longrightarrow> valid (snd (call net w))"
    and repeats: "valid w \<Longrightarrow> req (snd (call net w)) = req w"
begin

lemma answered:
  assumes "valid w" and "net (fetched w) (req w) = Fulfilled r" and "json_response s v r"
    and "200 \<le> s" "s \<le> 299" and "wf_json v"
  shows "fst (call net w) = (case view v of Inl e \<Rightarrow> Rejected e | Inr x \<Rightarrow> Fulfilled (Result_Ok x))"
  using assms response_json_value [OF assms(6,3)]
  by (auto simp: outcome unary_outcome_def response_ok_def json_response_def split: sum.split)

lemma success:
  assumes "valid w" and "net (fetched w) (req w) = Fulfilled r" and "json_response s v r"
    and "200 \<le> s" "s \<le> 299" and "wf_json v" and "view v = Inr x"
  shows "fst (call net w) = Fulfilled (Result_Ok x)"
  using answered [where net = net and w = w, OF assms(1-6)] assms(7) by simp

lemma http_error:
  assumes "valid w" and "net (fetched w) (req w) = Fulfilled r" and "json_response s v r"
    and "s < 200 \<or> 299 < s" and "wf_json v" and "js_get v (js ''code'') = Inr code"
  shows "fst (call net w) = Fulfilled (Result_Err
    \<lparr>error_body = v, error_response = r, error_status = code\<rparr>)"
  using assms response_json_value [OF assms(5,3)]
  by (auto simp: outcome unary_outcome_def response_ok_def json_response_def simp del: js_Cons)

lemma network_failure:
  "valid w \<Longrightarrow> net (fetched w) (req w) = Rejected e \<Longrightarrow> fst (call net w) = Rejected TypeError"
  by (simp add: outcome unary_outcome_def)

lemma unanswered: "valid w \<Longrightarrow> net (fetched w) (req w) = Pending \<Longrightarrow> fst (call net w) = Pending"
  by (simp add: outcome unary_outcome_def)

text \<open>A fulfilled call tells success from error by the status alone.\<close>

lemma fulfilled_cases:
  assumes "valid w" and "fst (call net w) = Fulfilled res"
  shows "\<exists>r. net (fetched w) (req w) = Fulfilled r \<and>
    (if response_ok r then \<exists>x. res = Result_Ok x
     else \<exists>e. res = Result_Err e \<and> error_response e = r)"
proof (cases "net (fetched w) (req w)")
  case (Fulfilled r)
  with assms show ?thesis
    by (intro exI [of _ r])
      (auto simp: outcome unary_outcome_def await_Fulfilled_iff split: if_splits)
qed (use assms in \<open>simp_all add: outcome unary_outcome_def\<close>)

text \<open>A sequence of calls makes the same request each time, in order.\<close>

lemma calls_requests:
  "valid w \<Longrightarrow> fetched (((\<lambda>w. snd (call net w)) ^^ n) w) = fetched w @ replicate n (req w)"
  by (induction n arbitrary: w)
    (simp_all add: one_request valid_call repeats funpow_Suc_right del: funpow.simps(2))

end

text \<open>
  The shape all unary calls of the clients have, once the request is made.
\<close>

definition handle_unary ::
  "(jsval \<Rightarrow> 'a completion) \<Rightarrow> (response, fetch_error) Result \<Rightarrow> ('a, ResponseError) Result promise" where
  "handle_unary view result =
     (if Result_ok object_truthy result then
        await (settle (Result_unwrap object_truthy print_object result))
          (\<lambda>r. await (response_json r)
            (\<lambda>data. await (settle (view data)) (\<lambda>x. Fulfilled (Result_Ok x))))
      else
        await (settle (Result_unwrap_err object_truthy print_object result))
          (\<lambda>e. await (ResponseError_fromResponse e) (\<lambda>err. Fulfilled (Result_Err err))))"

lemma await_assoc: "await (await p f) g = await p (\<lambda>x. await (f x) g)"
  by (cases p) auto

lemma handle_unary_outcome:
  "await (fst (doFetch net url token body w)) (handle_unary view) =
     await (unary_outcome view (net (fetched w) (authorized_request url token body)))
       (\<lambda>r. Fulfilled (of_sum r))"
  by (simp add: doFetch_refines handle_unary_def await_assoc fetch_outcome_def unary_outcome_def
      fetch_result.branch_of_sum Result_defs object_truthy_def ResponseError_fromResponse_def
      error_json_def del: js_Cons split: promise.split)

lemma doFetch_world:
  "snd (doFetch net url token body w)
     = w\<lparr>fetched := fetched w @ [authorized_request url token body]\<rparr>"
  by (simp add: doFetch_refines)

end
