(* ===== verification/Broker_Types.thy ===== *)
theory Broker_Types
  imports Wire_Format
begin

text \<open>
  The interfaces of \<open>client/src/gen/broker/protocol/broker.ts\<close>. Every property of an
  interface is optional, so every field of a record is an option and \<open>None\<close> is a property
  that is not there. Integers that the JSON mapping sends as strings are strings here too; a
  field whose name Isabelle reserves or already uses carries a prime. For each type that a call
  of the client sends or receives, \<open>json_of_\<dots>\<close> is the object a value of the type is at run
  time.
\<close>


section \<open>Types of the calls the client makes\<close>

record ProtocolLabel =
  name :: "js_string option"
  value' :: "js_string option"

definition json_of_ProtocolLabel :: "ProtocolLabel \<Rightarrow> jsval" where
  "json_of_ProtocolLabel r = json_object
     [(js ''name'', map_option JStr (ProtocolLabel.name r)),
      (js ''value'', map_option JStr (ProtocolLabel.value' r))]"

lemma wf_json_of_Broker_Types_ProtocolLabel [wf_encoders]: "wf_json (json_of_ProtocolLabel r)"
  unfolding json_of_ProtocolLabel_def
  by (intro wf_json_object) (auto simp: js_inject some_map_option intro: wf_encoders simp del: js_Cons js_Nil)

record ProtocolLabelSet =
  labels :: "ProtocolLabel list option"

definition json_of_ProtocolLabelSet :: "ProtocolLabelSet \<Rightarrow> jsval" where
  "json_of_ProtocolLabelSet r = json_object
     [(js ''labels'', map_option (json_array json_of_ProtocolLabel) (ProtocolLabelSet.labels r))]"

lemma wf_json_of_Broker_Types_ProtocolLabelSet [wf_encoders]: "wf_json (json_of_ProtocolLabelSet r)"
  unfolding json_of_ProtocolLabelSet_def
  by (intro wf_json_object) (auto simp: js_inject some_map_option intro: wf_encoders simp del: js_Cons js_Nil)

datatype ProtocolCompressionCodec =
    INVALID
  | NONE
  | GZIP
  | ZSTANDARD
  | SNAPPY
  | GZIP_OFFLOAD_DECOMPRESSION

fun ProtocolCompressionCodec_name :: "ProtocolCompressionCodec \<Rightarrow> string" where
  "ProtocolCompressionCodec_name ProtocolCompressionCodec.INVALID = ''INVALID''"
| "ProtocolCompressionCodec_name ProtocolCompressionCodec.NONE = ''NONE''"
| "ProtocolCompressionCodec_name ProtocolCompressionCodec.GZIP = ''GZIP''"
| "ProtocolCompressionCodec_name ProtocolCompressionCodec.ZSTANDARD = ''ZSTANDARD''"
| "ProtocolCompressionCodec_name ProtocolCompressionCodec.SNAPPY = ''SNAPPY''"
| "ProtocolCompressionCodec_name ProtocolCompressionCodec.GZIP_OFFLOAD_DECOMPRESSION = ''GZIP_OFFLOAD_DECOMPRESSION''"

definition json_of_ProtocolCompressionCodec :: "ProtocolCompressionCodec \<Rightarrow> jsval" where
  "json_of_ProtocolCompressionCodec s = JStr (js (ProtocolCompressionCodec_name s))"

lemma wf_json_of_Broker_Types_ProtocolCompressionCodec [wf_encoders]: "wf_json (json_of_ProtocolCompressionCodec s)"
  by (simp add: json_of_ProtocolCompressionCodec_def)

record ProtocolJournalSpecFragment =
  length' :: "js_string option"
  compressionCodec :: "ProtocolCompressionCodec option"
  stores :: "js_string list option"
  refreshInterval :: "js_string option"
  retention :: "js_string option"
  flushInterval :: "js_string option"
  pathPostfixTemplate :: "js_string option"

definition json_of_ProtocolJournalSpecFragment :: "ProtocolJournalSpecFragment \<Rightarrow> jsval" where
  "json_of_ProtocolJournalSpecFragment r = json_object
     [(js ''length'', map_option JStr (ProtocolJournalSpecFragment.length' r)),
      (js ''compressionCodec'', map_option json_of_ProtocolCompressionCodec (ProtocolJournalSpecFragment.compressionCodec r)),
      (js ''stores'', map_option (json_array JStr) (ProtocolJournalSpecFragment.stores r)),
      (js ''refreshInterval'', map_option JStr (ProtocolJournalSpecFragment.refreshInterval r)),
      (js ''retention'', map_option JStr (ProtocolJournalSpecFragment.retention r)),
      (js ''flushInterval'', map_option JStr (ProtocolJournalSpecFragment.flushInterval r)),
      (js ''pathPostfixTemplate'', map_option JStr (ProtocolJournalSpecFragment.pathPostfixTemplate r))]"

lemma wf_json_of_Broker_Types_ProtocolJournalSpecFragment [wf_encoders]: "wf_json (json_of_ProtocolJournalSpecFragment r)"
  unfolding json_of_ProtocolJournalSpecFragment_def
  by (intro wf_json_object) (auto simp: js_inject some_map_option intro: wf_encoders simp del: js_Cons js_Nil)

record ProtocolJournalSpec =
  name :: "js_string option"
  replication :: "int option"
  labels :: "ProtocolLabelSet option"
  fragment :: "ProtocolJournalSpecFragment option"
  flags :: "int option"
  maxAppendRate :: "js_string option"

definition json_of_ProtocolJournalSpec :: "ProtocolJournalSpec \<Rightarrow> jsval" where
  "json_of_ProtocolJournalSpec r = json_object
     [(js ''name'', map_option JStr (ProtocolJournalSpec.name r)),
      (js ''replication'', map_option json_int (ProtocolJournalSpec.replication r)),
      (js ''labels'', map_option json_of_ProtocolLabelSet (ProtocolJournalSpec.labels r)),
      (js ''fragment'', map_option json_of_ProtocolJournalSpecFragment (ProtocolJournalSpec.fragment r)),
      (js ''flags'', map_option json_int (ProtocolJournalSpec.flags r)),
      (js ''maxAppendRate'', map_option JStr (ProtocolJournalSpec.maxAppendRate r))]"

lemma wf_json_of_Broker_Types_ProtocolJournalSpec [wf_encoders]: "wf_json (json_of_ProtocolJournalSpec r)"
  unfolding json_of_ProtocolJournalSpec_def
  by (intro wf_json_object) (auto simp: js_inject some_map_option intro: wf_encoders simp del: js_Cons js_Nil)

record ProtocolSHA1Sum =
  part1 :: "js_string option"
  part2 :: "js_string option"
  part3 :: "int option"

definition json_of_ProtocolSHA1Sum :: "ProtocolSHA1Sum \<Rightarrow> jsval" where
  "json_of_ProtocolSHA1Sum r = json_object
     [(js ''part1'', map_option JStr (ProtocolSHA1Sum.part1 r)),
      (js ''part2'', map_option JStr (ProtocolSHA1Sum.part2 r)),
      (js ''part3'', map_option json_int (ProtocolSHA1Sum.part3 r))]"

lemma wf_json_of_Broker_Types_ProtocolSHA1Sum [wf_encoders]: "wf_json (json_of_ProtocolSHA1Sum r)"
  unfolding json_of_ProtocolSHA1Sum_def
  by (intro wf_json_object) (auto simp: js_inject some_map_option intro: wf_encoders simp del: js_Cons js_Nil)

record ProtocolFragment =
  journal :: "js_string option"
  begin' :: "js_string option"
  end' :: "js_string option"
  sum' :: "ProtocolSHA1Sum option"
  compressionCodec :: "ProtocolCompressionCodec option"
  backingStore :: "js_string option"
  modTime :: "js_string option"
  pathPostfix :: "js_string option"

definition json_of_ProtocolFragment :: "ProtocolFragment \<Rightarrow> jsval" where
  "json_of_ProtocolFragment r = json_object
     [(js ''journal'', map_option JStr (ProtocolFragment.journal r)),
      (js ''begin'', map_option JStr (ProtocolFragment.begin' r)),
      (js ''end'', map_option JStr (ProtocolFragment.end' r)),
      (js ''sum'', map_option json_of_ProtocolSHA1Sum (ProtocolFragment.sum' r)),
      (js ''compressionCodec'', map_option json_of_ProtocolCompressionCodec (ProtocolFragment.compressionCodec r)),
      (js ''backingStore'', map_option JStr (ProtocolFragment.backingStore r)),
      (js ''modTime'', map_option JStr (ProtocolFragment.modTime r)),
      (js ''pathPostfix'', map_option JStr (ProtocolFragment.pathPostfix r))]"

lemma wf_json_of_Broker_Types_ProtocolFragment [wf_encoders]: "wf_json (json_of_ProtocolFragment r)"
  unfolding json_of_ProtocolFragment_def
  by (intro wf_json_object) (auto simp: js_inject some_map_option intro: wf_encoders simp del: js_Cons js_Nil)

record HeaderEtcd =
  clusterId :: "js_string option"
  memberId :: "js_string option"
  revision :: "js_string option"
  raftTerm :: "js_string option"

definition json_of_HeaderEtcd :: "HeaderEtcd \<Rightarrow> jsval" where
  "json_of_HeaderEtcd r = json_object
     [(js ''clusterId'', map_option JStr (HeaderEtcd.clusterId r)),
      (js ''memberId'', map_option JStr (HeaderEtcd.memberId r)),
      (js ''revision'', map_option JStr (HeaderEtcd.revision r)),
      (js ''raftTerm'', map_option JStr (HeaderEtcd.raftTerm r))]"

lemma wf_json_of_Broker_Types_HeaderEtcd [wf_encoders]: "wf_json (json_of_HeaderEtcd r)"
  unfolding json_of_HeaderEtcd_def
  by (intro wf_json_object) (auto simp: js_inject some_map_option intro: wf_encoders simp del: js_Cons js_Nil)

record ProcessSpecID =
  zone :: "js_string option"
  suffix' :: "js_string option"

definition json_of_ProcessSpecID :: "ProcessSpecID \<Rightarrow> jsval" where
  "json_of_ProcessSpecID r = json_object
     [(js ''zone'', map_option JStr (ProcessSpecID.zone r)),
      (js ''suffix'', map_option JStr (ProcessSpecID.suffix' r))]"

lemma wf_json_of_Broker_Types_ProcessSpecID [wf_encoders]: "wf_json (json_of_ProcessSpecID r)"
  unfolding json_of_ProcessSpecID_def
  by (intro wf_json_object) (auto simp: js_inject some_map_option intro: wf_encoders simp del: js_Cons js_Nil)

record ProtocolRoute =
  members :: "ProcessSpecID list option"
  primary :: "int option"
  endpoints :: "js_string list option"

definition json_of_ProtocolRoute :: "ProtocolRoute \<Rightarrow> jsval" where
  "json_of_ProtocolRoute r = json_object
     [(js ''members'', map_option (json_array json_of_ProcessSpecID) (ProtocolRoute.members r)),
      (js ''primary'', map_option json_int (ProtocolRoute.primary r)),
      (js ''endpoints'', map_option (json_array JStr) (ProtocolRoute.endpoints r))]"

lemma wf_json_of_Broker_Types_ProtocolRoute [wf_encoders]: "wf_json (json_of_ProtocolRoute r)"
  unfolding json_of_ProtocolRoute_def
  by (intro wf_json_object) (auto simp: js_inject some_map_option intro: wf_encoders simp del: js_Cons js_Nil)

record ListResponseJournal =
  spec :: "ProtocolJournalSpec option"
  modRevision :: "js_string option"
  route :: "ProtocolRoute option"

definition json_of_ListResponseJournal :: "ListResponseJournal \<Rightarrow> jsval" where
  "json_of_ListResponseJournal r = json_object
     [(js ''spec'', map_option json_of_ProtocolJournalSpec (ListResponseJournal.spec r)),
      (js ''modRevision'', map_option JStr (ListResponseJournal.modRevision r)),
      (js ''route'', map_option json_of_ProtocolRoute (ListResponseJournal.route r))]"

lemma wf_json_of_Broker_Types_ListResponseJournal [wf_encoders]: "wf_json (json_of_ListResponseJournal r)"
  unfolding json_of_ListResponseJournal_def
  by (intro wf_json_object) (auto simp: js_inject some_map_option intro: wf_encoders simp del: js_Cons js_Nil)

record ProtobufAny =
  typeUrl :: "js_string option"
  value' :: "js_string option"

definition json_of_ProtobufAny :: "ProtobufAny \<Rightarrow> jsval" where
  "json_of_ProtobufAny r = json_object
     [(js ''typeUrl'', map_option JStr (ProtobufAny.typeUrl r)),
      (js ''value'', map_option JStr (ProtobufAny.value' r))]"

lemma wf_json_of_Broker_Types_ProtobufAny [wf_encoders]: "wf_json (json_of_ProtobufAny r)"
  unfolding json_of_ProtobufAny_def
  by (intro wf_json_object) (auto simp: js_inject some_map_option intro: wf_encoders simp del: js_Cons js_Nil)

datatype ProtocolStatus =
    OK
  | JOURNAL_NOT_FOUND
  | NO_JOURNAL_PRIMARY_BROKER
  | NOT_JOURNAL_PRIMARY_BROKER
  | NOT_JOURNAL_BROKER
  | INSUFFICIENT_JOURNAL_BROKERS
  | OFFSET_NOT_YET_AVAILABLE
  | WRONG_ROUTE
  | PROPOSAL_MISMATCH
  | ETCD_TRANSACTION_FAILED
  | NOT_ALLOWED
  | WRONG_APPEND_OFFSET
  | INDEX_HAS_GREATER_OFFSET
  | REGISTER_MISMATCH

fun ProtocolStatus_name :: "ProtocolStatus \<Rightarrow> string" where
  "ProtocolStatus_name ProtocolStatus.OK = ''OK''"
| "ProtocolStatus_name ProtocolStatus.JOURNAL_NOT_FOUND = ''JOURNAL_NOT_FOUND''"
| "ProtocolStatus_name ProtocolStatus.NO_JOURNAL_PRIMARY_BROKER = ''NO_JOURNAL_PRIMARY_BROKER''"
| "ProtocolStatus_name ProtocolStatus.NOT_JOURNAL_PRIMARY_BROKER = ''NOT_JOURNAL_PRIMARY_BROKER''"
| "ProtocolStatus_name ProtocolStatus.NOT_JOURNAL_BROKER = ''NOT_JOURNAL_BROKER''"
| "ProtocolStatus_name ProtocolStatus.INSUFFICIENT_JOURNAL_BROKERS = ''INSUFFICIENT_JOURNAL_BROKERS''"
| "ProtocolStatus_name ProtocolStatus.OFFSET_NOT_YET_AVAILABLE = ''OFFSET_NOT_YET_AVAILABLE''"
| "ProtocolStatus_name ProtocolStatus.WRONG_ROUTE = ''WRONG_ROUTE''"
| "ProtocolStatus_name ProtocolStatus.PROPOSAL_MISMATCH = ''PROPOSAL_MISMATCH''"
| "ProtocolStatus_name ProtocolStatus.ETCD_TRANSACTION_FAILED = ''ETCD_TRANSACTION_FAILED''"
| "ProtocolStatus_name ProtocolStatus.NOT_ALLOWED = ''NOT_ALLOWED''"
| "ProtocolStatus_name ProtocolStatus.WRONG_APPEND_OFFSET = ''WRONG_APPEND_OFFSET''"
| "ProtocolStatus_name ProtocolStatus.INDEX_HAS_GREATER_OFFSET = ''INDEX_HAS_GREATER_OFFSET''"
| "ProtocolStatus_name ProtocolStatus.REGISTER_MISMATCH = ''REGISTER_MISMATCH''"

definition json_of_ProtocolStatus :: "ProtocolStatus \<Rightarrow> jsval" where
  "json_of_ProtocolStatus s = JStr (js (ProtocolStatus_name s))"

lemma wf_json_of_Broker_Types_ProtocolStatus [wf_encoders]: "wf_json (json_of_ProtocolStatus s)"
  by (simp add: json_of_ProtocolStatus_def)

record ProtocolHeader =
  processId :: "ProcessSpecID option"
  route :: "ProtocolRoute option"
  etcd :: "HeaderEtcd option"

definition json_of_ProtocolHeader :: "ProtocolHeader \<Rightarrow> jsval" where
  "json_of_ProtocolHeader r = json_object
     [(js ''processId'', map_option json_of_ProcessSpecID (ProtocolHeader.processId r)),
      (js ''route'', map_option json_of_ProtocolRoute (ProtocolHeader.route r)),
      (js ''etcd'', map_option json_of_HeaderEtcd (ProtocolHeader.etcd r))]"

lemma wf_json_of_Broker_Types_ProtocolHeader [wf_encoders]: "wf_json (json_of_ProtocolHeader r)"
  unfolding json_of_ProtocolHeader_def
  by (intro wf_json_object) (auto simp: js_inject some_map_option intro: wf_encoders simp del: js_Cons js_Nil)

record ProtocolLabelSelector =
  include' :: "ProtocolLabelSet option"
  exclude' :: "ProtocolLabelSet option"

definition json_of_ProtocolLabelSelector :: "ProtocolLabelSelector \<Rightarrow> jsval" where
  "json_of_ProtocolLabelSelector r = json_object
     [(js ''include'', map_option json_of_ProtocolLabelSet (ProtocolLabelSelector.include' r)),
      (js ''exclude'', map_option json_of_ProtocolLabelSet (ProtocolLabelSelector.exclude' r))]"

lemma wf_json_of_Broker_Types_ProtocolLabelSelector [wf_encoders]: "wf_json (json_of_ProtocolLabelSelector r)"
  unfolding json_of_ProtocolLabelSelector_def
  by (intro wf_json_object) (auto simp: js_inject some_map_option intro: wf_encoders simp del: js_Cons js_Nil)

record ProtocolListRequest =
  selector :: "ProtocolLabelSelector option"

definition json_of_ProtocolListRequest :: "ProtocolListRequest \<Rightarrow> jsval" where
  "json_of_ProtocolListRequest r = json_object
     [(js ''selector'', map_option json_of_ProtocolLabelSelector (ProtocolListRequest.selector r))]"

lemma wf_json_of_Broker_Types_ProtocolListRequest [wf_encoders]: "wf_json (json_of_ProtocolListRequest r)"
  unfolding json_of_ProtocolListRequest_def
  by (intro wf_json_object) (auto simp: js_inject some_map_option intro: wf_encoders simp del: js_Cons js_Nil)

record ProtocolListResponse =
  status :: "ProtocolStatus option"
  header :: "ProtocolHeader option"
  journals :: "ListResponseJournal list option"

definition json_of_ProtocolListResponse :: "ProtocolListResponse \<Rightarrow> jsval" where
  "json_of_ProtocolListResponse r = json_object
     [(js ''status'', map_option json_of_ProtocolStatus (ProtocolListResponse.status r)),
      (js ''header'', map_option json_of_ProtocolHeader (ProtocolListResponse.header r)),
      (js ''journals'', map_option (json_array json_of_ListResponseJournal) (ProtocolListResponse.journals r))]"

lemma wf_json_of_Broker_Types_ProtocolListResponse [wf_encoders]: "wf_json (json_of_ProtocolListResponse r)"
  unfolding json_of_ProtocolListResponse_def
  by (intro wf_json_object) (auto simp: js_inject some_map_option intro: wf_encoders simp del: js_Cons js_Nil)

record ProtocolReadRequest =
  header :: "ProtocolHeader option"
  journal :: "js_string option"
  offset :: "js_string option"
  block :: "bool option"
  doNotProxy :: "bool option"
  metadataOnly :: "bool option"
  endOffset :: "js_string option"
  beginModTime :: "js_string option"

definition json_of_ProtocolReadRequest :: "ProtocolReadRequest \<Rightarrow> jsval" where
  "json_of_ProtocolReadRequest r = json_object
     [(js ''header'', map_option json_of_ProtocolHeader (ProtocolReadRequest.header r)),
      (js ''journal'', map_option JStr (ProtocolReadRequest.journal r)),
      (js ''offset'', map_option JStr (ProtocolReadRequest.offset r)),
      (js ''block'', map_option JBool (ProtocolReadRequest.block r)),
      (js ''doNotProxy'', map_option JBool (ProtocolReadRequest.doNotProxy r)),
      (js ''metadataOnly'', map_option JBool (ProtocolReadRequest.metadataOnly r)),
      (js ''endOffset'', map_option JStr (ProtocolReadRequest.endOffset r)),
      (js ''beginModTime'', map_option JStr (ProtocolReadRequest.beginModTime r))]"

lemma wf_json_of_Broker_Types_ProtocolReadRequest [wf_encoders]: "wf_json (json_of_ProtocolReadRequest r)"
  unfolding json_of_ProtocolReadRequest_def
  by (intro wf_json_object) (auto simp: js_inject some_map_option intro: wf_encoders simp del: js_Cons js_Nil)

record ProtocolReadResponse =
  status :: "ProtocolStatus option"
  header :: "ProtocolHeader option"
  offset :: "js_string option"
  writeHead :: "js_string option"
  fragment :: "ProtocolFragment option"
  fragmentUrl :: "js_string option"
  content :: "js_string option"

definition json_of_ProtocolReadResponse :: "ProtocolReadResponse \<Rightarrow> jsval" where
  "json_of_ProtocolReadResponse r = json_object
     [(js ''status'', map_option json_of_ProtocolStatus (ProtocolReadResponse.status r)),
      (js ''header'', map_option json_of_ProtocolHeader (ProtocolReadResponse.header r)),
      (js ''offset'', map_option JStr (ProtocolReadResponse.offset r)),
      (js ''writeHead'', map_option JStr (ProtocolReadResponse.writeHead r)),
      (js ''fragment'', map_option json_of_ProtocolFragment (ProtocolReadResponse.fragment r)),
      (js ''fragmentUrl'', map_option JStr (ProtocolReadResponse.fragmentUrl r)),
      (js ''content'', map_option JStr (ProtocolReadResponse.content r))]"

lemma wf_json_of_Broker_Types_ProtocolReadResponse [wf_encoders]: "wf_json (json_of_ProtocolReadResponse r)"
  unfolding json_of_ProtocolReadResponse_def
  by (intro wf_json_object) (auto simp: js_inject some_map_option intro: wf_encoders simp del: js_Cons js_Nil)

record RuntimeError =
  error :: "js_string option"
  code :: "int option"
  message :: "js_string option"
  details :: "ProtobufAny list option"

definition json_of_RuntimeError :: "RuntimeError \<Rightarrow> jsval" where
  "json_of_RuntimeError r = json_object
     [(js ''error'', map_option JStr (RuntimeError.error r)),
      (js ''code'', map_option json_int (RuntimeError.code r)),
      (js ''message'', map_option JStr (RuntimeError.message r)),
      (js ''details'', map_option (json_array json_of_ProtobufAny) (RuntimeError.details r))]"

lemma wf_json_of_Broker_Types_RuntimeError [wf_encoders]: "wf_json (json_of_RuntimeError r)"
  unfolding json_of_RuntimeError_def
  by (intro wf_json_object) (auto simp: js_inject some_map_option intro: wf_encoders simp del: js_Cons js_Nil)

record RuntimeStreamError =
  grpcCode :: "int option"
  httpCode :: "int option"
  message :: "js_string option"
  httpStatus :: "js_string option"
  details :: "ProtobufAny list option"

definition json_of_RuntimeStreamError :: "RuntimeStreamError \<Rightarrow> jsval" where
  "json_of_RuntimeStreamError r = json_object
     [(js ''grpcCode'', map_option json_int (RuntimeStreamError.grpcCode r)),
      (js ''httpCode'', map_option json_int (RuntimeStreamError.httpCode r)),
      (js ''message'', map_option JStr (RuntimeStreamError.message r)),
      (js ''httpStatus'', map_option JStr (RuntimeStreamError.httpStatus r)),
      (js ''details'', map_option (json_array json_of_ProtobufAny) (RuntimeStreamError.details r))]"

lemma wf_json_of_Broker_Types_RuntimeStreamError [wf_encoders]: "wf_json (json_of_RuntimeStreamError r)"
  unfolding json_of_RuntimeStreamError_def
  by (intro wf_json_object) (auto simp: js_inject some_map_option intro: wf_encoders simp del: js_Cons js_Nil)

section \<open>Types that no call of the client uses\<close>

record ApplyRequestChange =
  expectModRevision :: "js_string option"
  upsert :: "ProtocolJournalSpec option"
  delete :: "js_string option"

record FragmentsResponseFragment =
  spec :: "ProtocolFragment option"
  signedUrl :: "js_string option"

record ProtocolAppendResponse =
  status :: "ProtocolStatus option"
  header :: "ProtocolHeader option"
  commit :: "ProtocolFragment option"
  registers :: "ProtocolLabelSet option"
  totalChunks :: "js_string option"
  delayedChunks :: "js_string option"

record ProtocolApplyResponse =
  status :: "ProtocolStatus option"
  header :: "ProtocolHeader option"

record ProtocolFragmentsResponse =
  status :: "ProtocolStatus option"
  header :: "ProtocolHeader option"
  fragments :: "FragmentsResponseFragment list option"
  nextPageToken :: "js_string option"

record ProtocolReplicateResponse =
  status :: "ProtocolStatus option"
  header :: "ProtocolHeader option"
  fragment :: "ProtocolFragment option"
  registers :: "ProtocolLabelSet option"

end
