(* ===== verification/Selectors.thy ===== *)
theory Selectors
  imports Util Broker_Types "HOL-Library.Option_ord" "HOL-Library.Product_Lexorder"
begin

text \<open>
  \<open>client/src/selector.ts\<close>. A selector owns an array that its builder methods push to, and
  \<open>toLabelSet\<close> sorts a copy of that array in place; whether the copy is made matters, so arrays
  live in an explicit store and a selector holds the address of its own.
\<close>

section \<open>The store of arrays\<close>

record client_world = world +
  arrays :: "ProtocolLabel list list"

text \<open>An array literal, \<open>push\<close>, \<open>slice(0)\<close> and \<open>sort\<close>. Addresses are issued in order.\<close>

definition new_array :: "ProtocolLabel list \<Rightarrow> client_world \<Rightarrow> nat \<times> client_world" where
  "new_array xs w = (length (arrays w), w\<lparr>arrays := arrays w @ [xs]\<rparr>)"

definition array_push :: "nat \<Rightarrow> ProtocolLabel \<Rightarrow> client_world \<Rightarrow> client_world" where
  "array_push a x w = w\<lparr>arrays := (arrays w)[a := arrays w ! a @ [x]]\<rparr>"

definition array_slice0 :: "nat \<Rightarrow> client_world \<Rightarrow> nat \<times> client_world" where
  "array_slice0 a w = new_array (arrays w ! a) w"

definition array_sort ::
  "(ProtocolLabel \<Rightarrow> ProtocolLabel \<Rightarrow> int) \<Rightarrow> nat \<Rightarrow> client_world \<Rightarrow> nat \<times> client_world" where
  "array_sort cmp a w = (a, w\<lparr>arrays := (arrays w)[a := js_sort cmp (arrays w ! a)]\<rparr>)"

section \<open>Selector\<close>

record Selector =
  label_array :: nat

definition label :: "js_string \<Rightarrow> js_string \<Rightarrow> ProtocolLabel" where
  "label n v = \<lparr>ProtocolLabel.name = Some n, value' = Some v\<rparr>"

definition new_Selector :: "client_world \<Rightarrow> Selector \<times> client_world" where
  "new_Selector w = (let (a, w') = new_array [] w in (\<lparr>label_array = a\<rparr>, w'))"

definition toLabelSet :: "Selector \<Rightarrow> client_world \<Rightarrow> ProtocolLabelSet \<times> client_world" where
  "toLabelSet self w =
     (let (copy, w1) = array_slice0 (label_array self) w;
          (sorted, w2) = array_sort (sortBy [ProtocolLabel.name, ProtocolLabel.value']) copy w1
      in (\<lparr>ProtocolLabelSet.labels = Some (arrays w2 ! sorted)\<rparr>, w2))"

subsection \<open>JournalSelector\<close>

definition JournalSelector_collection :: "js_string \<Rightarrow> Selector \<Rightarrow> client_world \<Rightarrow> Selector \<times> client_world" where
  "JournalSelector_collection v self w =
     (self, array_push (label_array self) (label (js ''estuary.dev/collection'') v) w)"

definition JournalSelector_name :: "js_string \<Rightarrow> Selector \<Rightarrow> client_world \<Rightarrow> Selector \<times> client_world" where
  "JournalSelector_name v self w =
     (self, array_push (label_array self) (label (js ''name'') v) w)"

definition JournalSelector_prefix :: "js_string \<Rightarrow> client_world \<Rightarrow> Selector \<times> client_world" where
  "JournalSelector_prefix v w =
     (let v' = (if \<not> js_endsWith v (js ''/'') then v @ js ''/'' else v);
          (sel, w1) = new_Selector w
      in (sel, array_push (label_array sel) (label (js ''prefix'') v') w1))"

subsection \<open>ShardSelector\<close>

definition ShardSelector_task :: "js_string \<Rightarrow> Selector \<Rightarrow> client_world \<Rightarrow> Selector \<times> client_world" where
  "ShardSelector_task v self w =
     (self, array_push (label_array self) (label (js ''estuary.dev/task-name'') v) w)"

definition ShardSelector_id :: "js_string \<Rightarrow> Selector \<Rightarrow> client_world \<Rightarrow> Selector \<times> client_world" where
  "ShardSelector_id v self w =
     (self, array_push (label_array self) (label (js ''id'') v) w)"

lemmas builder_defs = JournalSelector_collection_def JournalSelector_name_def
  ShardSelector_task_def ShardSelector_id_def

section \<open>The order of labels\<close>

text \<open>Labels are ordered by name, then by value; an absent field comes first.\<close>

instantiation ProtocolLabel_ext :: (linorder) linorder
begin

definition less_eq_ProtocolLabel_ext ::
  "'a ProtocolLabel_scheme \<Rightarrow> 'a ProtocolLabel_scheme \<Rightarrow> bool" where
  "less_eq_ProtocolLabel_ext l m \<longleftrightarrow>
     (ProtocolLabel.name l, ProtocolLabel.value' l, ProtocolLabel.more l)
       \<le> (ProtocolLabel.name m, ProtocolLabel.value' m, ProtocolLabel.more m)"

definition less_ProtocolLabel_ext ::
  "'a ProtocolLabel_scheme \<Rightarrow> 'a ProtocolLabel_scheme \<Rightarrow> bool" where
  "less_ProtocolLabel_ext l m \<longleftrightarrow>
     (ProtocolLabel.name l, ProtocolLabel.value' l, ProtocolLabel.more l)
       < (ProtocolLabel.name m, ProtocolLabel.value' m, ProtocolLabel.more m)"

instance
  by intro_classes
    (auto simp: less_eq_ProtocolLabel_ext_def less_ProtocolLabel_ext_def)

end

text \<open>A complete label is one the builders make.\<close>

definition complete :: "ProtocolLabel \<Rightarrow> bool" where
  "complete l \<longleftrightarrow> ProtocolLabel.name l \<noteq> None \<and> ProtocolLabel.value' l \<noteq> None"

lemma complete_label [simp]: "complete (label n v)"
  by (simp add: complete_def label_def)

lemma sortBy_label_less:
  assumes "complete l" and "complete m"
  shows "sortBy [ProtocolLabel.name, ProtocolLabel.value'] l m < 0 \<longleftrightarrow> l < m"
  using assms
  by (auto simp: complete_def less_ProtocolLabel_ext_def less_prod_def)

lemma js_sort_labels:
  "\<forall>l \<in> set ls. complete l \<Longrightarrow>
     js_sort (sortBy [ProtocolLabel.name, ProtocolLabel.value']) ls = sort ls"
  by (rule js_sort_sort) (simp add: sortBy_label_less del: sortBy.simps)

lemma toLabelSet_sort:
  assumes "\<forall>l \<in> set (arrays w ! label_array self). complete l"
  shows "toLabelSet self w =
    (\<lparr>ProtocolLabelSet.labels = Some (sort (arrays w ! label_array self))\<rparr>,
     w\<lparr>arrays := arrays w @ [sort (arrays w ! label_array self)]\<rparr>)"
  using js_sort_labels [OF assms]
  by (simp add: toLabelSet_def array_slice0_def new_array_def array_sort_def)

section \<open>Selectors as arguments\<close>

text \<open>
  The parameters \<open>include\<close> and \<open>exclude\<close> of the list calls default to a new selector.
\<close>

definition default_selector :: "Selector option \<Rightarrow> client_world \<Rightarrow> Selector \<times> client_world" where
  "default_selector arg w = (case arg of None \<Rightarrow> new_Selector w | Some s \<Rightarrow> (s, w))"

text \<open>The label set an argument stands for, and when the argument is one of the world's selectors.\<close>

definition argument_labels :: "Selector option \<Rightarrow> client_world \<Rightarrow> ProtocolLabelSet" where
  "argument_labels arg w = \<lparr>ProtocolLabelSet.labels = Some
     (case arg of None \<Rightarrow> []
      | Some s \<Rightarrow> js_sort (sortBy [ProtocolLabel.name, ProtocolLabel.value']) (arrays w ! label_array s))\<rparr>"

definition valid_argument :: "Selector option \<Rightarrow> client_world \<Rightarrow> bool" where
  "valid_argument arg w = (case arg of None \<Rightarrow> True | Some s \<Rightarrow> label_array s < length (arrays w))"

definition extends :: "client_world \<Rightarrow> client_world \<Rightarrow> bool" where
  "extends w w' \<longleftrightarrow> (\<exists>xs. arrays w' = arrays w @ xs)"

lemma extends_refl: "extends w w"
  by (simp add: extends_def)

lemma extends_trans: "extends u v \<Longrightarrow> extends v w \<Longrightarrow> extends u w"
  by (auto simp: extends_def)

lemma argument_labels_extends:
  "extends w w' \<Longrightarrow> valid_argument arg w \<Longrightarrow> argument_labels arg w' = argument_labels arg w"
  by (auto simp: extends_def valid_argument_def argument_labels_def nth_append split: option.split)

lemma valid_argument_extends: "extends w w' \<Longrightarrow> valid_argument arg w \<Longrightarrow> valid_argument arg w'"
  by (auto simp: extends_def valid_argument_def split: option.split)

lemma extends_toLabelSet: "extends w (snd (toLabelSet s w)) \<and> fetched (snd (toLabelSet s w)) = fetched w"
  by (simp add: extends_def toLabelSet_def array_slice0_def new_array_def array_sort_def)

lemma extends_default_selector:
  "extends w (snd (default_selector arg w)) \<and> fetched (snd (default_selector arg w)) = fetched w"
  by (simp add: extends_def default_selector_def new_Selector_def new_array_def split: option.split)

lemma toLabelSet_labels:
  "fst (toLabelSet s w) = argument_labels (Some s) w"
  by (simp add: argument_labels_def toLabelSet_def array_slice0_def new_array_def array_sort_def)

lemma default_selector_labels:
  assumes "default_selector arg w = (s, w')" and "valid_argument arg w"
  shows "valid_argument (Some s) w' \<and> argument_labels (Some s) w' = argument_labels arg w"
  using assms
  by (cases arg) (auto simp: default_selector_def new_Selector_def new_array_def valid_argument_def
      argument_labels_def js_sort_def)

text \<open>What the two list calls do before they fetch.\<close>

lemma list_arguments:
  assumes "default_selector inc w = (i, w1)" and "default_selector exc w1 = (e, w2)"
    and "toLabelSet i w2 = (incs, w3)" and "toLabelSet e w3 = (excs, w4)"
    and "valid_argument inc w" and "valid_argument exc w"
  shows "incs = argument_labels inc w \<and> excs = argument_labels exc w
    \<and> fetched w4 = fetched w \<and> extends w w4"
proof -
  have x1: "extends w w1 \<and> fetched w1 = fetched w"
    using extends_default_selector [of w inc] assms(1) by simp
  have x2: "extends w1 w2 \<and> fetched w2 = fetched w1"
    using extends_default_selector [of w1 exc] assms(2) by simp
  have x3: "extends w2 w3 \<and> fetched w3 = fetched w2"
    using extends_toLabelSet [of w2 i] assms(3) by simp
  have x4: "extends w3 w4 \<and> fetched w4 = fetched w3"
    using extends_toLabelSet [of w3 e] assms(4) by simp
  note inc = default_selector_labels [OF assms(1,5)]
  note exc = default_selector_labels [OF assms(2) valid_argument_extends [OF conjunct1 [OF x1] assms(6)]]
  have "incs = argument_labels inc w"
    using toLabelSet_labels [of i w2] assms(3) inc argument_labels_extends [of w1 w2 "Some i"] x2
    by simp
  moreover have "excs = argument_labels exc w"
    using toLabelSet_labels [of e w3] assms(4,6) exc argument_labels_extends [of w2 w3 "Some e"] x3
      argument_labels_extends [of w w1 exc] x1
    by simp
  ultimately show ?thesis
    using x1 x2 x3 x4 by (auto intro: extends_trans)
qed

text \<open>The request of a list call.\<close>

definition selector_body :: "Selector option \<Rightarrow> Selector option \<Rightarrow> client_world \<Rightarrow> jsval" where
  "selector_body inc exc w =
     JObj [(js ''selector'', JObj
       [(js ''include'', json_of_ProtocolLabelSet (argument_labels inc w)),
        (js ''exclude'', json_of_ProtocolLabelSet (argument_labels exc w))])]"

definition list_request ::
  "js_string \<Rightarrow> js_string \<Rightarrow> Selector option \<Rightarrow> Selector option \<Rightarrow> client_world \<Rightarrow> request" where
  "list_request url token inc exc w = authorized_request url token (selector_body inc exc w)"

definition valid_arguments :: "Selector option \<Rightarrow> Selector option \<Rightarrow> client_world \<Rightarrow> bool" where
  "valid_arguments inc exc w \<longleftrightarrow> valid_argument inc w \<and> valid_argument exc w"

lemma list_request_extends:
  "extends w w' \<Longrightarrow> valid_arguments inc exc w \<Longrightarrow>
     list_request url token inc exc w' = list_request url token inc exc w"
  by (simp add: list_request_def selector_body_def valid_arguments_def argument_labels_extends)

lemma extends_fetched [simp]: "extends w (w'\<lparr>fetched := rs\<rparr>) \<longleftrightarrow> extends w w'"
  by (simp add: extends_def)

section \<open>List calls\<close>

text \<open>
  The reference both list calls are compared with: \<open>view\<close> is what they extract from the
  response. It is a unary call whose arguments stay valid and whose request does not change,
  because \<open>toLabelSet\<close> leaves the arrays of the selectors alone.
\<close>

definition list_call ::
  "js_string \<Rightarrow> js_string \<Rightarrow> (jsval \<Rightarrow> 'a completion) \<Rightarrow> Selector option \<Rightarrow> Selector option \<Rightarrow>
     network \<Rightarrow> client_world \<Rightarrow> ('a, ResponseError) Result promise \<times> client_world" where
  "list_call url token view inc exc net w =
     (let (i, w1) = default_selector inc w;
          (e, w2) = default_selector exc w1;
          (incs, w3) = toLabelSet i w2;
          (excs, w4) = toLabelSet e w3;
          (result, w5) = doFetch net url token
            (JObj [(js ''selector'', JObj [(js ''include'', json_of_ProtocolLabelSet incs),
                                           (js ''exclude'', json_of_ProtocolLabelSet excs)])]) w4
      in (await result (handle_unary view), w5))"

lemma list_call_unary:
  assumes "valid_arguments inc exc w"
  shows "fst (list_call url token view inc exc net w) =
      await (unary_outcome view (net (fetched w) (list_request url token inc exc w)))
        (\<lambda>r. Fulfilled (of_sum r))
    \<and> fetched (snd (list_call url token view inc exc net w))
        = fetched w @ [list_request url token inc exc w]
    \<and> extends w (snd (list_call url token view inc exc net w))"
proof -
  obtain i w1 where d1: "default_selector inc w = (i, w1)" by fastforce
  obtain e w2 where d2: "default_selector exc w1 = (e, w2)" by fastforce
  obtain incs w3 where t1: "toLabelSet i w2 = (incs, w3)" by fastforce
  obtain excs w4 where t2: "toLabelSet e w3 = (excs, w4)" by fastforce
  have args: "incs = argument_labels inc w" "excs = argument_labels exc w"
    "fetched w4 = fetched w" "extends w w4"
    using list_arguments [OF d1 d2 t1 t2] assms by (simp_all add: valid_arguments_def)
  have "list_call url token view inc exc net w =
      (await (fst (doFetch net url token (selector_body inc exc w) w4)) (handle_unary view),
       snd (doFetch net url token (selector_body inc exc w) w4))"
    by (simp add: list_call_def d1 d2 t1 t2 args(1,2) selector_body_def split: prod.split del: js_Cons)
  then show ?thesis
    using args(3,4) by (simp add: handle_unary_outcome doFetch_world list_request_def)
qed

interpretation list_calls: unary_call "list_call url token view inc exc"
    "list_request url token inc exc" view "valid_arguments inc exc"
  for url token view inc exc
proof unfold_locales
  fix net w assume v: "valid_arguments inc exc w"
  note list = list_call_unary [OF v, of url token view net]
  show "fst (list_call url token view inc exc net w) =
      await (unary_outcome view (net (fetched w) (list_request url token inc exc w)))
        (\<lambda>r. Fulfilled (of_sum r))"
    using list by blast
  show "fetched (snd (list_call url token view inc exc net w))
      = fetched w @ [list_request url token inc exc w]"
    using list by blast
  show "valid_arguments inc exc (snd (list_call url token view inc exc net w))"
    using list v by (auto simp: valid_arguments_def intro: valid_argument_extends)
  show "list_request url token inc exc (snd (list_call url token view inc exc net w))
      = list_request url token inc exc w"
    using list v by (simp add: list_request_extends)
qed

section \<open>Programs over selectors\<close>

text \<open>
  What a program that holds some selectors can do with them, and the specification it may
  rely on: each selector is a list of labels of its own, a builder appends to that list, and
  \<open>toLabelSet\<close> reads it in sorted order and changes nothing.
\<close>

datatype selector_call =
    New
  | Prefix js_string
  | Collection nat js_string
  | Name nat js_string
  | Task nat js_string
  | Id nat js_string
  | ToLabelSet nat

text \<open>On the model of the code; the numbers index the selectors the program holds.\<close>

fun on_selector ::
  "Selector list \<Rightarrow> client_world \<Rightarrow> nat \<Rightarrow> (Selector \<Rightarrow> client_world \<Rightarrow> Selector \<times> client_world) \<Rightarrow>
     ProtocolLabelSet option \<times> Selector list \<times> client_world" where
  "on_selector sels w i f =
     (if i < length sels then (case f (sels ! i) w of (s, w') \<Rightarrow> (None, sels[i := s], w'))
      else (None, sels, w))"

fun exec_call ::
  "selector_call \<Rightarrow> Selector list \<times> client_world \<Rightarrow> ProtocolLabelSet option \<times> Selector list \<times> client_world"
  where
  "exec_call New (sels, w) = (case new_Selector w of (s, w') \<Rightarrow> (None, sels @ [s], w'))"
| "exec_call (Prefix v) (sels, w) = (case JournalSelector_prefix v w of (s, w') \<Rightarrow> (None, sels @ [s], w'))"
| "exec_call (Collection i v) (sels, w) = on_selector sels w i (JournalSelector_collection v)"
| "exec_call (Name i v) (sels, w) = on_selector sels w i (JournalSelector_name v)"
| "exec_call (Task i v) (sels, w) = on_selector sels w i (ShardSelector_task v)"
| "exec_call (Id i v) (sels, w) = on_selector sels w i (ShardSelector_id v)"
| "exec_call (ToLabelSet i) (sels, w) =
     (if i < length sels then (case toLabelSet (sels ! i) w of (ls, w') \<Rightarrow> (Some ls, sels, w'))
      else (None, sels, w))"

fun exec_calls ::
  "selector_call list \<Rightarrow> Selector list \<times> client_world \<Rightarrow> ProtocolLabelSet option list \<times> Selector list \<times> client_world"
  where
  "exec_calls [] st = ([], st)"
| "exec_calls (c # cs) st =
     (case exec_call c st of (r, st') \<Rightarrow> (case exec_calls cs st' of (rs, st'') \<Rightarrow> (r # rs, st'')))"

text \<open>On the specification.\<close>

definition append_label :: "ProtocolLabel list list \<Rightarrow> nat \<Rightarrow> ProtocolLabel \<Rightarrow> ProtocolLabel list list" where
  "append_label lss i l = (if i < length lss then lss[i := lss ! i @ [l]] else lss)"

fun spec_call :: "selector_call \<Rightarrow> ProtocolLabel list list \<Rightarrow> ProtocolLabelSet option \<times> ProtocolLabel list list"
  where
  "spec_call New lss = (None, lss @ [[]])"
| "spec_call (Prefix v) lss =
     (None, lss @ [[label (js ''prefix'') (if js_endsWith v (js ''/'') then v else v @ js ''/'')]])"
| "spec_call (Collection i v) lss = (None, append_label lss i (label (js ''estuary.dev/collection'') v))"
| "spec_call (Name i v) lss = (None, append_label lss i (label (js ''name'') v))"
| "spec_call (Task i v) lss = (None, append_label lss i (label (js ''estuary.dev/task-name'') v))"
| "spec_call (Id i v) lss = (None, append_label lss i (label (js ''id'') v))"
| "spec_call (ToLabelSet i) lss =
     (if i < length lss then Some \<lparr>ProtocolLabelSet.labels = Some (sort (lss ! i))\<rparr> else None, lss)"

fun spec_calls :: "selector_call list \<Rightarrow> ProtocolLabel list list \<Rightarrow> ProtocolLabelSet option list \<times> ProtocolLabel list list"
  where
  "spec_calls [] lss = ([], lss)"
| "spec_calls (c # cs) lss =
     (case spec_call c lss of (r, lss') \<Rightarrow> (case spec_calls cs lss' of (rs, lss'') \<Rightarrow> (r # rs, lss'')))"

text \<open>
  The simulation: the selectors held have arrays of their own, and these hold the lists of the
  specification, all of whose labels are complete.
\<close>

definition simulates :: "Selector list \<times> client_world \<Rightarrow> ProtocolLabel list list \<Rightarrow> bool" where
  "simulates st lss \<longleftrightarrow> (case st of (sels, w) \<Rightarrow>
     distinct (map label_array sels) \<and>
     (\<forall>s \<in> set sels. label_array s < length (arrays w)) \<and>
     lss = map (\<lambda>s. arrays w ! label_array s) sels \<and>
     (\<forall>ls \<in> set lss. \<forall>l \<in> set ls. complete l))"

lemma simulates_lengths: "simulates (sels, w) lss \<Longrightarrow> length lss = length sels"
  by (auto simp: simulates_def)

lemma simulates_alloc:
  assumes "simulates (sels, w) lss"
  shows "simulates (sels, w\<lparr>arrays := arrays w @ [xs]\<rparr>) lss"
  using assms by (auto simp: simulates_def nth_append)

lemma simulates_new:
  assumes "simulates (sels, w) lss" and "\<forall>l \<in> set xs. complete l"
  shows "simulates (sels @ [\<lparr>label_array = length (arrays w)\<rparr>], w\<lparr>arrays := arrays w @ [xs]\<rparr>) (lss @ [xs])"
  using assms by (auto simp: simulates_def nth_append less_Suc_eq)

lemma simulates_push:
  assumes "simulates (sels, w) lss" and "i < length sels" and "complete l"
  shows "simulates (sels, array_push (label_array (sels ! i)) l w) (lss[i := lss ! i @ [l]])"
proof -
  let ?as = "(arrays w)[label_array (sels ! i) := arrays w ! label_array (sels ! i) @ [l]]"
  have d: "distinct (map label_array sels)"
    and b: "\<forall>s \<in> set sels. label_array s < length (arrays w)"
    and lss: "lss = map (\<lambda>s. arrays w ! label_array s) sels"
    and c: "\<forall>ls \<in> set lss. \<forall>l \<in> set ls. complete l"
    using assms(1) by (auto simp: simulates_def)
  have "lss[i := lss ! i @ [l]] = map (\<lambda>s. ?as ! label_array s) sels"
  proof (rule nth_equalityI)
    fix j assume "j < length (lss[i := lss ! i @ [l]])"
    then have j: "j < length sels" by (simp add: lss)
    with d b assms(2) show "lss[i := lss ! i @ [l]] ! j = map (\<lambda>s. ?as ! label_array s) sels ! j"
      using nth_eq_iff_index_eq [OF d, of i j] by (auto simp: lss nth_list_update)
  qed (simp add: lss)
  moreover have "\<forall>ls \<in> set (lss[i := lss ! i @ [l]]). \<forall>l \<in> set ls. complete l"
    using c assms(2,3) nth_mem [of i lss] set_update_subset_insert [of lss i]
    by (fastforce simp: lss)
  ultimately show ?thesis
    using d b by (simp add: simulates_def array_push_def)
qed

lemma on_selector_simulates:
  assumes "simulates (sels, w) lss" and "complete l"
    and "\<And>s w. f s w = (s, array_push (label_array s) l w)"
  shows "\<exists>st'. on_selector sels w i f = (None, st') \<and> simulates st' (append_label lss i l)"
  using assms simulates_push [OF assms(1) _ assms(2)] simulates_lengths [OF assms(1)]
  by (simp add: append_label_def)

lemma complete_in_simulated:
  assumes "simulates (sels, w) lss" and "i < length sels"
  shows "\<forall>l \<in> set (arrays w ! label_array (sels ! i)). complete l"
    and "lss ! i = arrays w ! label_array (sels ! i)"
  using assms by (auto simp: simulates_def)

lemma exec_call_simulates:
  assumes "simulates st lss"
  shows "\<exists>st'. exec_call c st = (fst (spec_call c lss), st') \<and> simulates st' (snd (spec_call c lss))"
proof -
  obtain sels w where st: "st = (sels, w)" by (cases st)
  note sim = assms [unfolded st]
  show ?thesis
  proof (cases c)
    case New
    then show ?thesis
      using simulates_new [OF sim, of "[]"] by (simp add: st new_Selector_def new_array_def)
  next
    case (Prefix v)
    let ?l = "label (js ''prefix'') (if js_endsWith v (js ''/'') then v else v @ js ''/'')"
    show ?thesis
      using simulates_new [OF sim, of "[?l]"]
      by (auto simp: Prefix st JournalSelector_prefix_def new_Selector_def new_array_def array_push_def
          simp del: js_Cons)
  next
    case (ToLabelSet i)
    then show ?thesis
      using simulates_alloc [OF sim] complete_in_simulated [OF sim, of i] simulates_lengths [OF sim] sim
      by (simp add: st toLabelSet_sort)
  next
    case (Collection i v)
    then show ?thesis
      using on_selector_simulates [OF sim complete_label JournalSelector_collection_def, of i]
      by (simp add: st del: on_selector.simps js_Cons)
  next
    case (Name i v)
    then show ?thesis
      using on_selector_simulates [OF sim complete_label JournalSelector_name_def, of i]
      by (simp add: st del: on_selector.simps js_Cons)
  next
    case (Task i v)
    then show ?thesis
      using on_selector_simulates [OF sim complete_label ShardSelector_task_def, of i]
      by (simp add: st del: on_selector.simps js_Cons)
  next
    case (Id i v)
    then show ?thesis
      using on_selector_simulates [OF sim complete_label ShardSelector_id_def, of i]
      by (simp add: st del: on_selector.simps js_Cons)
  qed
qed

lemma exec_calls_simulates:
  "simulates st lss \<Longrightarrow>
     \<exists>st'. exec_calls cs st = (fst (spec_calls cs lss), st') \<and> simulates st' (snd (spec_calls cs lss))"
proof (induction cs arbitrary: st lss)
  case (Cons c cs)
  obtain st1 where "exec_call c st = (fst (spec_call c lss), st1)"
    and sim: "simulates st1 (snd (spec_call c lss))"
    using exec_call_simulates [OF Cons.prems] by blast
  with Cons.IH [OF sim] show ?case by (auto split: prod.split)
qed simp

end
