(* ===== verification/Pipeline.thy ===== *)
theory Pipeline
  imports Stream_Model
begin

text \<open>
  Stages connected by \<open>pipeThrough\<close>, each at work at its own pace: what one stage delivers is what
  arrives at the next. Two neighbours keep the relation \<open>linked\<close>; \<open>follows\<close> says that a stage has
  delivered a prefix of what a stream of the reference semantics holds, and all of it once it is
  closed and drained. A linked stage follows the stream piped through it.
\<close>

section \<open>Steps\<close>

text \<open>A step of a stage that delivers nothing.\<close>

definition inner_step :: "('s, 'a, 'b) transformer \<Rightarrow> ('s, 'a, 'b) pipe \<Rightarrow> ('s, 'a, 'b) pipe \<Rightarrow> bool" where
  "inner_step T p p' \<longleftrightarrow> work_step T p p' \<and> delivered p' = delivered p"

text \<open>A chunk, the end or an error goes from one stage to the next.\<close>

inductive hop_step :: "('s, 'a, 'b) pipe \<Rightarrow> ('t, 'b, 'c) pipe \<Rightarrow> ('s, 'a, 'b) pipe \<Rightarrow> ('t, 'b, 'c) pipe \<Rightarrow> bool"
  where
  pass: "queue p = y # ys \<Longrightarrow> source q = Open \<Longrightarrow>
     hop_step p q (p\<lparr>queue := ys, delivered := delivered p @ [y]\<rparr>)
       (q\<lparr>arrived := arrived q @ [y], pending := pending q @ [y]\<rparr>)"
| pass_end: "outcome p = Closed \<Longrightarrow> queue p = [] \<Longrightarrow> source q = Open \<Longrightarrow>
     hop_step p q p (q\<lparr>source := Closed\<rparr>)"
| pass_error: "outcome p = Errored e \<Longrightarrow> source q = Open \<Longrightarrow>
     hop_step p q p (q\<lparr>source := Errored e\<rparr>)"

inductive_cases hop_stepE: "hop_step p q p' q'"

section \<open>Neighbours\<close>

definition linked :: "('s, 'a, 'b) pipe \<Rightarrow> ('t, 'b, 'c) pipe \<Rightarrow> bool" where
  "linked p q \<longleftrightarrow> arrived q = delivered p \<and>
     (source q = Closed \<longrightarrow> outcome p = Closed \<and> queue p = []) \<and>
     (\<forall>e. source q = Errored e \<longrightarrow> outcome p = Errored e \<and> queue p = [])"

lemma linked_init: "linked (pipe_init T) (pipe_init U)"
  by (simp add: linked_def pipe_init_def)

lemma linked_env: "env_step p p' \<Longrightarrow> linked p q \<Longrightarrow> linked p' q"
  by (induction rule: env_step.induct) (auto simp: linked_def)

lemma linked_work_left:
  "work_step T p p' \<Longrightarrow> delivered p' = delivered p \<Longrightarrow> linked p q \<Longrightarrow> linked p' q"
  by (induction rule: work_step.induct) (auto simp: linked_def)

lemma linked_inner_left: "inner_step T p p' \<Longrightarrow> linked p q \<Longrightarrow> linked p' q"
  unfolding inner_step_def by (blast intro: linked_work_left)

lemma linked_work_right: "work_step T q q' \<Longrightarrow> linked p q \<Longrightarrow> linked p q'"
  using work_step_history [of T q q'] by (simp add: linked_def)

lemma linked_hop: "hop_step p q p' q' \<Longrightarrow> pipe_reachable T p \<Longrightarrow> linked p q \<Longrightarrow> linked p' q'"
proof (induction rule: hop_step.induct)
  case (pass_error p e q)
  then show ?case
    using pipe_reachable_inv [of T p] by (auto simp: linked_def pipe_inv_def)
qed (auto simp: linked_def)

lemma linked_hop_left: "hop_step q r q' r' \<Longrightarrow> linked p q \<Longrightarrow> linked p q'"
  by (induction rule: hop_step.induct) (auto simp: linked_def)

lemma linked_hop_right: "hop_step o' p o'' p' \<Longrightarrow> linked p q \<Longrightarrow> linked p' q"
  by (induction rule: hop_step.induct) (auto simp: linked_def)

lemma reachable_inner: "pipe_reachable T p \<Longrightarrow> inner_step T p p' \<Longrightarrow> pipe_reachable T p'"
  by (auto simp: inner_step_def intro: by_work)

lemma reachable_hop_left: "pipe_reachable T p \<Longrightarrow> hop_step p q p' q' \<Longrightarrow> pipe_reachable T p'"
  by (auto elim!: hop_stepE intro: by_work [OF _ deliver])

lemma reachable_hop_right: "pipe_reachable T q \<Longrightarrow> hop_step p q p' q' \<Longrightarrow> pipe_reachable T q'"
  by (auto elim!: hop_stepE intro: by_env arrive source_closes source_fails)

section \<open>Following the reference semantics\<close>

definition follows :: "('s, 'a, 'b) pipe \<Rightarrow> 'b stream \<Rightarrow> bool" where
  "follows p st \<longleftrightarrow> prefix (delivered p) (chunks st) \<and>
     (outcome p = Closed \<and> queue p = [] \<longrightarrow> st = \<lparr>chunks = delivered p, ending = Closed\<rparr>)"

lemma follows_first: "pipe_reachable T p \<Longrightarrow> follows p (pipeThrough (history p) T)"
  by (simp add: follows_def delivered_prefix delivered_when_closed)

lemma chunks_errored: 
  "chunks (pipeThrough \<lparr>chunks = xs, ending = Errored e\<rparr> T) = chunks (pipeThrough \<lparr>chunks = xs, ending = Open\<rparr> T)"
proof -
  obtain s ys x where "consume T (tstart T) xs = (s, ys, x)" by (cases "consume T (tstart T) xs")
  then show ?thesis by (cases x) (simp_all add: pipeThrough_def)
qed

lemma closed_source: "pipe_reachable T p \<Longrightarrow> outcome p = Closed \<Longrightarrow> source p = Closed"
  by (drule pipe_reachable_inv) (auto simp: pipe_inv_def)

lemma follows_closed: "linked p q \<Longrightarrow> follows p st \<Longrightarrow> source q = Closed \<Longrightarrow> st = history q"
  by (simp add: linked_def follows_def history_def)

lemma follows_linked:
  assumes q: "pipe_reachable T q" and l: "linked p q" and f: "follows p st"
  shows "follows q (pipeThrough st T)"
proof (cases "source q = Closed")
  case True
  with l f have "st = history q" using follows_closed by blast
  with follows_first [OF q] show ?thesis by simp
next
  case False
  then have no: "outcome q \<noteq> Closed" using closed_source [OF q] by blast
  have "prefix (delivered q) (chunks (pipeThrough \<lparr>chunks = arrived q, ending = Open\<rparr> T))"
    using delivered_prefix [OF q] False by (cases "source q") (simp_all add: history_def chunks_errored)
  moreover have "prefix (arrived q) (chunks st)"
    using l f by (simp add: linked_def follows_def)
  then have "prefix (chunks (pipeThrough \<lparr>chunks = arrived q, ending = Open\<rparr> T)) (chunks (pipeThrough st T))"
    using pipeThrough_grows [of "arrived q" T _ "ending st"] by (cases st) (auto simp: prefix_def)
  ultimately show ?thesis
    using no by (auto simp: follows_def)
qed

section \<open>Termination and rest\<close>

text \<open>
  A hop makes the stage it leaves smaller and the stage it enters larger, so that the measures of
  the stages, compared in the order of the pipeline, decrease.
\<close>

definition stage_measure :: "('s, 'a, 'b) pipe \<Rightarrow> nat \<times> nat \<times> nat" where
  "stage_measure p = (length (pending p) + (if outcome p = Open then 1 else 0), length (queue p),
     if source p = Open then 1 else 0)"

definition stage_less :: "((nat \<times> nat \<times> nat) \<times> (nat \<times> nat \<times> nat)) set" where
  "stage_less = less_than <*lex*> less_than <*lex*> less_than"

lemma wf_stage_less: "wf stage_less"
  by (simp add: stage_less_def wf_lex_prod)

lemma work_step_smaller: "work_step T p p' \<Longrightarrow> (stage_measure p', stage_measure p) \<in> stage_less"
  by (induction rule: work_step.induct) (auto simp: stage_measure_def stage_less_def)

lemma inner_step_smaller: "inner_step T p p' \<Longrightarrow> (stage_measure p', stage_measure p) \<in> stage_less"
  by (auto simp: inner_step_def dest: work_step_smaller)

lemma hop_step_smaller:
  "hop_step p q p' q' \<Longrightarrow> (stage_measure p', stage_measure p) \<in> stage_less
     \<or> p' = p \<and> (stage_measure q', stage_measure q) \<in> stage_less"
  by (induction rule: hop_step.induct) (auto simp: stage_measure_def stage_less_def)

text \<open>A stage whose source is closed and that can neither step nor hop has passed on the end.\<close>

lemma inner_progress:
  assumes "queue p = []" and "outcome p = Open" and "pending p \<noteq> [] \<or> source p \<noteq> Open"
  shows "\<exists>p'. inner_step T p p'"
proof -
  obtain p' where "work_step T p p'" using work_progress [of p T] assms by blast
  moreover from this have "delivered p' = delivered p"
    using assms(1) by (induction rule: work_step.induct) auto
  ultimately show ?thesis by (auto simp: inner_step_def)
qed

lemma rest_queue:
  assumes "linked p q" and "\<nexists>p' q'. hop_step p q p' q'"
  shows "queue p = []"
proof (cases "source q")
  case Open
  with assms(2) show ?thesis by (cases "queue p") (blast intro: pass)+
qed (use assms(1) in \<open>simp_all add: linked_def\<close>)

text \<open>Whatever the stage does with its chunks, at rest the end of its source has gone through it.\<close>

lemma rest_passes_on:
  assumes "linked p q" and "source p \<noteq> Open"
    and "\<nexists>p'. inner_step T p p'" and "\<nexists>p' q'. hop_step p q p' q'"
  shows "queue p = [] \<and> outcome p \<noteq> Open \<and> source q \<noteq> Open"
proof -
  have queue: "queue p = []" using rest_queue [OF assms(1,4)] .
  moreover from this have "outcome p \<noteq> Open" using inner_progress [of p T] assms(2,3) by auto
  moreover from this have "source q \<noteq> Open"
    using queue assms(4) by (cases "outcome p") (auto intro: pass_end pass_error)
  ultimately show ?thesis by blast
qed

lemma linked_source: "linked p q \<Longrightarrow> source q \<noteq> Open \<Longrightarrow> source q = outcome p"
  by (cases "source q") (auto simp: linked_def)

text \<open>A stage that failed on a closed source fails in the reference semantics.\<close>

lemma errored_reference:
  assumes "pipe_reachable T p" and "outcome p = Errored e" and "source p = Closed"
  shows "ending (pipeThrough (history p) T) = Errored e"
proof -
  obtain taken s ys where a: "arrived p = taken @ pending p"
    and d: "consume T (tstart T) taken = (s, ys, Some e) \<or> pending p = []
      \<and> finish T (source p) (consume T (tstart T) taken) = (ys, Errored e)"
    using pipe_reachable_inv [OF assms(1)] assms(2) by (auto simp: pipe_inv_def)
  then show ?thesis
    by (auto simp: pipeThrough_def history_def finish_error_kept)
qed

lemma pipeThrough_closed: "ending (pipeThrough st T) = Closed \<Longrightarrow> ending st = Closed"
proof -
  obtain s ys x where "consume T (tstart T) (chunks st) = (s, ys, x)"
    by (cases "consume T (tstart T) (chunks st)")
  then show "ending (pipeThrough st T) = Closed \<Longrightarrow> ending st = Closed"
    by (cases x; cases "ending st") (simp_all add: pipeThrough_def)
qed

text \<open>
  A stage at rest behind one that has closed: if the reference does not fail on what the source
  holds, neither has the stage.
\<close>

lemma rest_closes:
  assumes "pipe_reachable T q" and "linked p q" and "follows p st"
    and "outcome p = Closed" and "source q \<noteq> Open" and "outcome q \<noteq> Open"
    and "ending (pipeThrough st T) = Closed"
  shows "outcome q = Closed"
proof (cases "outcome q")
  case (Errored e)
  have "source q = Closed" using linked_source [OF assms(2,5)] assms(4) by simp
  moreover from this have "st = history q" using follows_closed [OF assms(2,3)] by blast
  ultimately show ?thesis using errored_reference [OF assms(1) Errored] assms(7) by simp
qed (use assms(6) in simp_all)

context total_stage
begin

lemma rest_passes_end:
  assumes "pipe_reachable T p" and "source p = Closed" and "linked p q"
    and "\<nexists>p'. inner_step T p p'" and "\<nexists>p' q'. hop_step p q p' q'"
  shows "source q = Closed"
proof -
  have queue: "queue p = []" using rest_queue [OF assms(3,5)] .
  then have "outcome p \<noteq> Open" using inner_progress [of p T] assms(2,4) by auto
  with not_errored [OF assms(1,2)] have "outcome p = Closed" by (cases "outcome p") auto
  with queue assms(3,5) show ?thesis
    by (cases "source q") (auto simp: linked_def intro: pass_end)
qed

end

end
