(* ===== verification/Base64.thy ===== *)
theory Base64
  imports Js_Prelude
begin

text \<open>
  \<open>atob\<close>: the forgiving decoder of the HTML and Infra standards, which answers with a
  "binary" string of code units up to 255, and the padded encoding that the other side of the
  connection (protobuf's JSON mapping of \<open>bytes\<close>) produces.
\<close>

section \<open>The alphabet\<close>

definition b64_val :: "code_unit \<Rightarrow> nat option" where
  "b64_val c =
     (let n = unat c in
      if 65 \<le> n \<and> n \<le> 90 then Some (n - 65)
      else if 97 \<le> n \<and> n \<le> 122 then Some (n - 71)
      else if 48 \<le> n \<and> n \<le> 57 then Some (n + 4)
      else if n = 43 then Some 62 else if n = 47 then Some 63 else None)"

definition b64_char :: "nat \<Rightarrow> code_unit" where
  "b64_char v =
     word_of_nat (if v < 26 then v + 65 else if v < 52 then v + 71 else if v < 62 then v - 4
       else if v = 62 then 43 else 47)"

lemma unat_b64_char:
  "v < 64 \<Longrightarrow> unat (b64_char v) = (if v < 26 then v + 65 else if v < 52 then v + 71
     else if v < 62 then v - 4 else if v = 62 then 43 else 47)"
  by (simp add: b64_char_def unat_of_nat del: of_nat_add)

lemma b64_val_char: "v < 64 \<Longrightarrow> b64_val (b64_char v) = Some v"
  by (auto simp: b64_val_def Let_def unat_b64_char)

section \<open>atob\<close>

definition b64_space :: "code_unit \<Rightarrow> bool" where
  "b64_space c \<longleftrightarrow> c = 9 \<or> c = 10 \<or> c = 12 \<or> c = 13 \<or> c = 32"

lemma b64_space_pad [simp]: "\<not> b64_space 61"
  by (simp add: b64_space_def)

text \<open>One or two padding characters at the end of a text of a length divisible by four.\<close>

definition b64_unpad :: "js_string \<Rightarrow> js_string" where
  "b64_unpad s =
     (if length s mod 4 \<noteq> 0 then s
      else case rev s of
        a # b # r \<Rightarrow> if a = 61 then (if b = 61 then rev r else rev (b # r)) else s
      | _ \<Rightarrow> s)"

fun b64_bytes :: "nat list \<Rightarrow> nat list" where
  "b64_bytes (a # b # c # d # r) =
     (a * 4 + b div 16) # (b mod 16 * 16 + c div 4) # (c mod 4 * 64 + d) # b64_bytes r"
| "b64_bytes [a, b, c] = [a * 4 + b div 16, b mod 16 * 16 + c div 4]"
| "b64_bytes [a, b] = [a * 4 + b div 16]"
| "b64_bytes vs = []"

definition atob :: "js_string \<Rightarrow> js_string completion" where
  "atob s =
     (let d = b64_unpad (filter (\<lambda>c. \<not> b64_space c) s) in
      if length d mod 4 = 1 then Inl InvalidCharacterError
      else case those (map b64_val d) of
        None \<Rightarrow> Inl InvalidCharacterError
      | Some vs \<Rightarrow> Inr (map word_of_nat (b64_bytes vs)))"

section \<open>The encoder\<close>

fun b64_sextets :: "nat list \<Rightarrow> nat list" where
  "b64_sextets (a # b # c # r) =
     (a div 4) # (a mod 4 * 16 + b div 16) # (b mod 16 * 4 + c div 64) # (c mod 64) # b64_sextets r"
| "b64_sextets [a, b] = [a div 4, a mod 4 * 16 + b div 16, b mod 16 * 4]"
| "b64_sextets [a] = [a div 4, a mod 4 * 16]"
| "b64_sextets [] = []"

fun b64_padding :: "nat list \<Rightarrow> nat" where
  "b64_padding (a # b # c # r) = b64_padding r"
| "b64_padding [a, b] = 1"
| "b64_padding [a] = 2"
| "b64_padding [] = 0"

definition b64_encode :: "byte list \<Rightarrow> js_string" where
  "b64_encode bs =
     map b64_char (b64_sextets (map unat bs)) @ replicate (b64_padding (map unat bs)) 61"

section \<open>Decoding what was encoded\<close>

lemma b64_sextets_less: "\<forall>b \<in> set bs. b < 256 \<Longrightarrow> v \<in> set (b64_sextets bs) \<Longrightarrow> v < 64"
  by (induction bs rule: b64_sextets.induct) auto

lemma b64_bytes_sextets: "\<forall>b \<in> set bs. b < 256 \<Longrightarrow> b64_bytes (b64_sextets bs) = bs"
  by (induction bs rule: b64_sextets.induct) (auto simp: mod_mult_self3)

lemma b64_length: "(length (b64_sextets bs) + b64_padding bs) mod 4 = 0"
  by (induction bs rule: b64_sextets.induct) auto

lemma b64_padding_le: "b64_padding bs \<le> 2"
  by (induction bs rule: b64_sextets.induct) auto

lemma mod4_not_one: "(a + k) mod 4 = 0 \<Longrightarrow> k \<le> 2 \<Longrightarrow> a mod 4 \<noteq> 1" for a k :: nat
  by presburger

lemma those_map_Some: "(\<And>x. x \<in> set xs \<Longrightarrow> f (g x) = Some x) \<Longrightarrow> those (map f (map g xs)) = Some xs"
  by (induction xs) auto

lemma b64_char_plain: "v < 64 \<Longrightarrow> \<not> b64_space (b64_char v) \<and> b64_char v \<noteq> 61"
  using unat_b64_char [of v] by (auto simp: b64_space_def split: if_splits)

lemma b64_unpad_encoded:
  assumes plain: "\<forall>c \<in> set s. c \<noteq> 61" and len: "(length s + k) mod 4 = 0" and k: "k \<le> 2"
  shows "b64_unpad (s @ replicate k 61) = s"
proof -
  consider "k = 0" | "k = 1" | "k = 2" using k by linarith
  then show ?thesis
  proof cases
    case 1
    show ?thesis
      using plain 1 by (cases "rev s"; cases "tl (rev s)") (auto simp: b64_unpad_def)
  next
    case 2
    then obtain c r where "rev s = c # r" using len by (cases "rev s") auto
    moreover from this have "s = rev r @ [c]" by (metis rev_rev_ident rev.simps(2))
    ultimately show ?thesis
      using plain len 2 by (simp add: b64_unpad_def)
  next
    case 3
    then show ?thesis
      using len by (simp add: b64_unpad_def numeral_2_eq_2)
  qed
qed

lemma atob_encode: "atob (b64_encode bs) = Inr (map (\<lambda>b. word_of_nat (unat b)) bs)"
proof -
  let ?ns = "map unat bs"
  let ?vs = "b64_sextets ?ns"
  have small: "\<forall>b \<in> set ?ns. b < 256"
    using unsigned_less [where ?'a = nat and ?'b = 8] by auto
  then have vs: "\<forall>v \<in> set ?vs. v < 64" by (blast intro: b64_sextets_less)
  have "filter (\<lambda>c. \<not> b64_space c) (b64_encode bs) = b64_encode bs"
    using vs b64_char_plain by (auto simp: b64_encode_def filter_id_conv b64_space_pad)
  moreover have "b64_unpad (b64_encode bs) = map b64_char ?vs"
    unfolding b64_encode_def using vs b64_char_plain b64_length [of ?ns] b64_padding_le [of ?ns]
    by (intro b64_unpad_encoded) auto
  moreover have "those (map b64_val (map b64_char ?vs)) = Some ?vs"
    using vs by (intro those_map_Some) (simp add: b64_val_char)
  moreover have "length ?vs mod 4 \<noteq> 1"
    using b64_length [of ?ns] b64_padding_le [of ?ns] by (rule mod4_not_one)
  ultimately show ?thesis
    using b64_bytes_sextets [OF small] by (simp add: atob_def o_def)
qed

text \<open>Every code unit of a decoded text fits in a byte.\<close>

lemma b64_val_less: "b64_val c = Some v \<Longrightarrow> v < 64"
  by (auto simp: b64_val_def Let_def split: if_splits)

lemma those_in: "those xs = Some ys \<Longrightarrow> y \<in> set ys \<Longrightarrow> Some y \<in> set xs"
  by (induction xs arbitrary: ys) (auto split: option.splits)

lemma b64_bytes_less: "\<forall>v \<in> set vs. v < 64 \<Longrightarrow> b \<in> set (b64_bytes vs) \<Longrightarrow> b < 256"
  by (induction vs rule: b64_bytes.induct) auto

lemma atob_units: "atob s = Inr t \<Longrightarrow> c \<in> set t \<Longrightarrow> unat c < 256"
proof -
  assume "atob s = Inr t" "c \<in> set t"
  then obtain d vs b where d: "those (map b64_val d) = Some vs"
    and b: "b \<in> set (b64_bytes vs)" "c = word_of_nat b"
    by (auto simp: atob_def Let_def split: if_splits option.splits)
  have "\<forall>v \<in> set vs. v < 64"
    using those_in [OF d] b64_val_less by fastforce
  then have "b < 256" using b64_bytes_less b by blast
  then show ?thesis using b by (simp add: unat_of_nat)
qed

lemma b64_sextets_Nil: "b64_sextets xs = [] \<longleftrightarrow> xs = []"
  by (cases xs rule: b64_sextets.cases) simp_all

lemma b64_encode_Nil: "b64_encode bs = [] \<longleftrightarrow> bs = []"
proof (cases bs)
  case (Cons b bs')
  then have "b64_sextets (map unat bs) \<noteq> []" by (simp only: b64_sextets_Nil) simp
  with Cons show ?thesis by (simp only: b64_encode_def append_is_Nil_conv map_is_Nil_conv) simp
qed (simp add: b64_encode_def)

text \<open>Four characters make at most three bytes.\<close>

lemma b64_bytes_length: "4 * length (b64_bytes vs) \<le> 3 * length vs"
  by (induction vs rule: b64_bytes.induct) auto

lemma those_length: "those xs = Some ys \<Longrightarrow> length ys = length xs"
  by (induction xs arbitrary: ys) (auto split: option.splits)

lemma b64_unpad_length: "length (b64_unpad s) \<le> length s"
proof (cases "rev s")
  case (Cons a r)
  then have "length s = Suc (length r)" by (metis length_Cons length_rev)
  with Cons show ?thesis by (cases r) (auto simp: b64_unpad_def)
qed (simp add: b64_unpad_def)

lemma atob_length: "atob s = Inr t \<Longrightarrow> 4 * length t \<le> 3 * length s"
proof -
  assume "atob s = Inr t"
  moreover define d where "d = b64_unpad (filter (\<lambda>c. \<not> b64_space c) s)"
  ultimately obtain vs where vs: "those (map b64_val d) = Some vs" and t: "length t = length (b64_bytes vs)"
    by (auto simp: atob_def Let_def split: if_splits option.splits)
  have "length d \<le> length s"
    unfolding d_def using b64_unpad_length length_filter_le by (rule order_trans)
  with those_length [OF vs] b64_bytes_length [of vs] show ?thesis by (simp add: t)
qed

end
