(* ===== verification/Streams.thy ===== *)
theory Streams
  imports Pipeline Utf8 Base64
begin

text \<open>
  The stages of \<open>client/src/streams.ts\<close>, the platform's \<open>TextDecoderStream\<close>, and
  \<open>readStreamToEnd\<close>.
\<close>

section \<open>The stages\<close>

subsection \<open>splitStream\<close>

text \<open>
  The closure variable \<open>buffer\<close> is a string, or \<open>undefined\<close> after an empty text was split
  at the empty separator; \<open>queueLines\<close> enqueues all parts but the last and keeps the last.
\<close>

definition queueLines :: "js_string \<Rightarrow> js_string \<Rightarrow> js_string list \<times> js_string option" where
  "queueLines splitOn buffer =
     (let parts = js_split buffer splitOn in
      (butlast parts, if parts = [] then None else Some (last parts)))"

definition split_transform ::
  "js_string \<Rightarrow> js_string option \<Rightarrow> js_string \<Rightarrow> js_string option \<times> js_string list \<times> js_error option" where
  "split_transform splitOn buffer chunk =
     (let text = (case buffer of None \<Rightarrow> js ''undefined'' | Some b \<Rightarrow> b) @ chunk;
          (ls, buffer') = queueLines splitOn text
      in (buffer', ls, None))"

definition split_flush :: "js_string \<Rightarrow> js_string option \<Rightarrow> js_string list \<times> js_error option" where
  "split_flush splitOn buffer =
     (case buffer of
        None \<Rightarrow> ([], Some TypeError)
      | Some b \<Rightarrow> if length b \<noteq> 0 then (fst (queueLines splitOn b), None) else ([], None))"

definition splitStream :: "js_string \<Rightarrow> (js_string option, js_string, js_string) transformer" where
  "splitStream splitOn =
     \<lparr>tstart = Some [], ttransform = split_transform splitOn, tflush = split_flush splitOn\<rparr>"

subsection \<open>parseJSONStream and unwrapResult\<close>

definition parseJSONStream :: "(unit, js_string, jsval) transformer" where
  "parseJSONStream =
     \<lparr>tstart = (),
      ttransform = (\<lambda>_ chunk. case json_parse chunk of
          Inl _ \<Rightarrow> ((), [], None)
        | Inr v \<Rightarrow> ((), [v], None)),
      tflush = (\<lambda>_. ([], None))\<rparr>"

definition unwrapResult :: "(unit, jsval, jsval) transformer" where
  "unwrapResult =
     \<lparr>tstart = (),
      ttransform = (\<lambda>_ chunk. case js_get chunk (js ''result'') of
          Inl e \<Rightarrow> ((), [], Some e)
        | Inr v \<Rightarrow> ((), [v], None)),
      tflush = (\<lambda>_. ([], None))\<rparr>"

subsection \<open>decodeContent\<close>

text \<open>
  The loop that copies the code units of the binary string into the \<open>Uint8Array\<close>, from index
  \<open>i\<close> on; the assignment keeps the low eight bits.
\<close>

function copy_bytes :: "js_string \<Rightarrow> byte list \<Rightarrow> nat \<Rightarrow> byte list" where
  "copy_bytes binary bytes i =
     (if i < length bytes then copy_bytes binary (bytes[i := word_of_nat (unat (binary ! i))]) (i + 1)
      else bytes)"
  by pat_completeness auto
termination
  by (relation "measure (\<lambda>(binary, bytes, i). length bytes - i)") auto

declare copy_bytes.simps [simp del]

definition decode_base64_text :: "js_string \<Rightarrow> js_string completion" where
  "decode_base64_text content =
     bindC (atob content)
       (\<lambda>binary. Inr (text_decode (copy_bytes binary (replicate (length binary) 0) 0)))"

definition decode_message :: "jsval \<Rightarrow> js_string list completion" where
  "decode_message v =
     bindC (js_get v (js ''content''))
       (\<lambda>content. bindC (js_get_opt content (js ''length''))
         (\<lambda>len. if js_truthy len
           then bindC (js_to_string content)
             (\<lambda>s. bindC (decode_base64_text s) (\<lambda>text. Inr [text]))
           else Inr []))"

definition decodeContent :: "(unit, jsval, js_string) transformer" where
  "decodeContent =
     \<lparr>tstart = (),
      ttransform = (\<lambda>_ v. case decode_message v of
          Inl e \<Rightarrow> ((), [], Some e)
        | Inr ts \<Rightarrow> ((), ts, None)),
      tflush = (\<lambda>_. ([], None))\<rparr>"

subsection \<open>TextDecoderStream\<close>

text \<open>The platform's stage: it enqueues what a chunk completes, if that is not empty.\<close>

definition text_decoder_stream :: "(text_decoder, byte list, js_string) transformer" where
  "text_decoder_stream =
     \<lparr>tstart = new_decoder,
      ttransform = (\<lambda>d bs. case decode_chunk d bs of (d', t) \<Rightarrow> (d', if t = [] then [] else [t], None)),
      tflush = (\<lambda>d. (let t = decode_flush d in (if t = [] then [] else [t], None)))\<rparr>"

subsection \<open>readStreamToEnd\<close>

text \<open>
  \<open>pump\<close> pushes a value and reads the next one while the value is truthy; it resolves with
  what it has when the stream is done or the value is not, and rejects when a read rejects.
\<close>

fun pump :: "('a \<Rightarrow> bool) \<Rightarrow> 'a list \<Rightarrow> 'a list \<Rightarrow> ending \<Rightarrow> 'a list promise" where
  "pump truthy results [] Open = Pending"
| "pump truthy results [] Closed = Fulfilled results"
| "pump truthy results [] (Errored e) = Rejected e"
| "pump truthy results (v # vs) en =
     (if truthy v then pump truthy (results @ [v]) vs en else Fulfilled results)"

definition readStreamToEnd :: "('a \<Rightarrow> bool) \<Rightarrow> 'a stream \<Rightarrow> 'a list promise" where
  "readStreamToEnd truthy st = pump truthy [] (chunks st) (ending st)"

section \<open>Splitting a stream of text\<close>

text \<open>
  For a non-empty separator the buffer is always a string without a separator, and the stage
  computes a function of the concatenated text.
\<close>

definition split_feed :: "js_string \<Rightarrow> js_string \<Rightarrow> js_string \<Rightarrow> js_string \<times> js_string list" where
  "split_feed sep b chunk = (last (split_on sep (b @ chunk)), butlast (split_on sep (b @ chunk)))"

definition split_idle :: "js_string \<Rightarrow> js_string \<Rightarrow> bool" where
  "split_idle sep b \<longleftrightarrow> split_on sep b = [b]"

interpretation splitter: incremental "split_feed sep" "split_idle sep" for sep
proof unfold_locales
  show "split_idle sep b \<Longrightarrow> split_feed sep b [] = (b, [])" for b
    by (simp add: split_idle_def split_feed_def)
  show "split_idle sep b \<Longrightarrow> split_feed sep b (xs @ ys) =
      (let (b', os) = split_feed sep b xs; (b'', ps) = split_feed sep b' ys in (b'', os @ ps))"
    for b xs ys
    using split_on_append [of sep "b @ xs" ys]
    by (simp add: split_feed_def butlast_append)
  show "split_idle sep b \<Longrightarrow> split_idle sep (fst (split_feed sep b xs))" for b xs
    by (simp add: split_idle_def split_feed_def split_on_last)
qed

lemma split_transform_feed:
  "sep \<noteq> [] \<Longrightarrow> split_transform sep (Some b) chunk =
     (case split_feed sep b chunk of (b', ls) \<Rightarrow> (Some b', ls, None))"
  by (simp add: split_transform_def queueLines_def js_split_def split_feed_def Let_def)

lemma split_flush_idle: "sep \<noteq> [] \<Longrightarrow> split_idle sep b \<Longrightarrow> split_flush sep (Some b) = ([], None)"
  by (simp add: split_flush_def queueLines_def js_split_def split_idle_def)

interpretation split_stage: total_stage "splitStream (c # sep)"
    "\<lambda>s. \<exists>b. s = Some b \<and> split_idle (c # sep) b" for c sep
  by unfold_locales
    (auto simp: splitStream_def split_idle_def split_transform_feed split_feed_def split_on_last
      split_flush_idle)

lemma consume_splitStream:
  assumes "sep \<noteq> []" and "split_idle sep b"
  shows "consume (splitStream sep) (Some b) xs =
    (case split_feed sep b (concat xs) of (b', ls) \<Rightarrow> (Some b', ls, None))"
  using assms(2)
proof (induction xs arbitrary: b)
  case Nil
  then show ?case by (simp add: splitter.feed_Nil)
next
  case (Cons x xs)
  have "split_idle sep (fst (split_feed sep b x))"
    using Cons.prems by (rule splitter.feed_invar)
  with Cons.prems Cons.IH [of "fst (split_feed sep b x)"] show ?case
    by (auto simp: splitter.feed_append splitStream_def split_transform_feed [OF assms(1)]
        split: prod.split)
qed

lemma splitStream_chunks:
  assumes "sep \<noteq> []"
  shows "chunks (pipeThrough st (splitStream sep)) = butlast (split_on sep (concat (chunks st)))"
proof -
  have idle: "split_idle sep []" by (simp add: split_idle_def)
  have "split_flush sep (Some (last (split_on sep s))) = ([], None)" for s
    using assms by (intro split_flush_idle) (simp_all add: split_idle_def split_on_last)
  then show ?thesis
    using consume_splitStream [OF assms idle, of "chunks st"]
    by (cases "ending st") (simp_all add: pipeThrough_def splitStream_def split_feed_def)
qed

lemma splitStream_ending: "sep \<noteq> [] \<Longrightarrow> ending (pipeThrough st (splitStream sep)) = ending st"
  by (cases sep) (simp_all add: split_stage.ending_pipeThrough)

section \<open>The empty separator\<close>

text \<open>
  Every code unit is a part. A buffer that has held text holds its last code unit; an empty chunk
  at the start leaves no buffer, which further text follows as if it were the word \<open>undefined\<close>.
\<close>

definition units_text :: "js_string list \<Rightarrow> js_string" where
  "units_text xs = (case xs of [] # y # ys \<Rightarrow> js ''undefined'' @ concat (y # ys) | _ \<Rightarrow> concat xs)"

lemma queueLines_units:
  "queueLines [] s = (map (\<lambda>u. [u]) (butlast s), if s = [] then None else Some [last s])"
  by (simp add: queueLines_def js_split_def map_butlast last_map Let_def)

lemma consume_units:
  "b \<noteq> [] \<Longrightarrow> consume (splitStream []) (Some [last b]) xs =
     (Some [last (b @ concat xs)], map (\<lambda>u. [u]) (butlast (last b # concat xs)), None)"
proof (induction xs arbitrary: b)
  case (Cons x xs)
  have step: "ttransform (splitStream []) (Some [last b]) x
      = (Some [last (b @ x)], map (\<lambda>u. [u]) (butlast (last b # x)), None)"
    by (simp add: splitStream_def split_transform_def queueLines_units)
  have "butlast (last b # x) @ butlast (last (b @ x) # concat xs) = butlast (last b # x @ concat xs)"
    by (cases "x = []") (simp_all add: butlast_append append_butlast_last_id [symmetric])
  with Cons step show ?case by (simp flip: map_append)
qed (simp add: splitStream_def)

text \<open>A chunk after which the buffer is the last code unit of a text.\<close>

lemma consume_units_first:
  assumes "text @ x \<noteq> []" and "ttransform (splitStream []) s x
      = (Some [last (text @ x)], map (\<lambda>u. [u]) (butlast (text @ x)), None)"
  shows "consume (splitStream []) s (x # xs)
      = (Some [last (text @ x @ concat xs)], map (\<lambda>u. [u]) (butlast (text @ x @ concat xs)), None)"
proof -
  have "butlast b @ butlast (last b # ys) = butlast (b @ ys)" if "b \<noteq> []" for b ys :: js_string
    using that by (cases "ys = []") (simp_all add: butlast_append append_butlast_last_id [symmetric])
  from this [OF assms(1), of "concat xs"] show ?thesis
    using assms consume_units [OF assms(1), of xs] by (simp flip: map_append)
qed

lemma transform_units:
  "b @ x \<noteq> [] \<Longrightarrow> ttransform (splitStream []) (Some b) x
     = (Some [last (b @ x)], map (\<lambda>u. [u]) (butlast (b @ x)), None)"
  "ttransform (splitStream []) None x
     = (Some [last (js ''undefined'' @ x)], map (\<lambda>u. [u]) (butlast (js ''undefined'' @ x)), None)"
  "ttransform (splitStream []) (Some []) [] = (None, [], None)"
  by (simp_all add: splitStream_def split_transform_def queueLines_units Let_def)

lemma consume_units_start:
  "consume (splitStream []) (Some []) xs =
     (if xs = [] then Some [] else if xs = [[]] then None else Some [last (units_text xs)],
      map (\<lambda>u. [u]) (butlast (units_text xs)), None)"
proof -
  consider "xs = []" | "xs = [[]]" | y ys where "xs = [] # y # ys" | u us ys where "xs = (u # us) # ys"
    by (metis list.exhaust)
  then show ?thesis
  proof cases
    case (3 y ys)
    have "consume (splitStream []) None (y # ys)
      = (Some [last (js ''undefined'' @ y @ concat ys)],
         map (\<lambda>u. [u]) (butlast (js ''undefined'' @ y @ concat ys)), None)"
      by (intro consume_units_first transform_units) simp
    with 3 show ?thesis by (simp add: transform_units units_text_def del: js_Cons)
  next
    case (4 u us ys)
    have "consume (splitStream []) (Some []) ((u # us) # ys)
      = (Some [last ([] @ (u # us) @ concat ys)], map (\<lambda>u. [u]) (butlast ([] @ (u # us) @ concat ys)), None)"
      using transform_units(1) [of "[]" "u # us"] by (intro consume_units_first) simp_all
    with 4 show ?thesis by (simp add: units_text_def)
  qed (simp_all add: units_text_def transform_units)
qed

lemma splitStream_units:
  "pipeThrough \<lparr>chunks = xs, ending = en\<rparr> (splitStream []) =
     (if xs = [[]] \<and> en = Closed then \<lparr>chunks = [], ending = Errored TypeError\<rparr>
      else \<lparr>chunks = map (\<lambda>u. [u]) (butlast (units_text xs)), ending = en\<rparr>)"
proof -
  have start: "tstart (splitStream []) = Some []" by (simp add: splitStream_def)
  have flush: "tflush (splitStream []) None = ([], Some TypeError)" "tflush (splitStream []) (Some []) = ([], None)"
    "tflush (splitStream []) (Some [u]) = ([], None)" for u
    by (simp_all add: splitStream_def split_flush_def queueLines_units)
  show ?thesis
    by (cases en) (simp_all add: pipeThrough_def start consume_units_start flush units_text_def)
qed

section \<open>Stages without state\<close>

text \<open>A stage without state and without a flush maps each chunk to a list of chunks.\<close>

lemma consume_stateless:
  assumes "\<And>s x. x \<in> set xs \<Longrightarrow> ttransform T s x = (s, f x, None)"
  shows "consume T s xs = (s, concat (map f xs), None)"
  using assms by (induction xs) auto

lemma pipeThrough_stateless:
  assumes "\<And>s x. x \<in> set (chunks st) \<Longrightarrow> ttransform T s x = (s, f x, None)"
    and "\<And>s. tflush T s = ([], None)"
  shows "pipeThrough st T = \<lparr>chunks = concat (map f (chunks st)), ending = ending st\<rparr>"
  using consume_stateless [OF assms(1), of "chunks st" "tstart T"] assms(2)
  by (cases "ending st") (simp_all add: pipeThrough_def)

definition json_or_skip :: "js_string \<Rightarrow> jsval list" where
  "json_or_skip s = (case json_parse s of Inl _ \<Rightarrow> [] | Inr v \<Rightarrow> [v])"

lemma parseJSONStream_pipe:
  "pipeThrough st parseJSONStream =
     \<lparr>chunks = concat (map json_or_skip (chunks st)), ending = ending st\<rparr>"
  by (rule pipeThrough_stateless)
    (auto simp: parseJSONStream_def json_or_skip_def split: sum.split)

interpretation parse_stage: total_stage parseJSONStream "\<lambda>_. True"
  by unfold_locales (auto simp: parseJSONStream_def split: sum.split)

lemma unwrapResult_pipe:
  assumes "\<And>v. v \<in> set (chunks st) \<Longrightarrow> js_get v (js ''result'') = Inr (f v)"
  shows "pipeThrough st unwrapResult = \<lparr>chunks = map f (chunks st), ending = ending st\<rparr>"
proof -
  have "pipeThrough st unwrapResult
      = \<lparr>chunks = concat (map (\<lambda>v. [f v]) (chunks st)), ending = ending st\<rparr>"
    by (rule pipeThrough_stateless) (simp_all add: unwrapResult_def assms del: js_Cons)
  then show ?thesis by simp
qed

lemma decodeContent_pipe:
  assumes "\<And>v. v \<in> set (chunks st) \<Longrightarrow> decode_message v = Inr (f v)"
  shows "pipeThrough st decodeContent
    = \<lparr>chunks = concat (map f (chunks st)), ending = ending st\<rparr>"
  by (rule pipeThrough_stateless) (simp_all add: decodeContent_def assms)

text \<open>A stage that throws at the first bad chunk ends the stream there.\<close>

lemma pipeThrough_throws:
  assumes "\<And>s x. x \<in> set xs \<Longrightarrow> ttransform T s x = (s, f x, None)"
    and "\<And>s. ttransform T s y = (s, zs, Some e)"
  shows "pipeThrough \<lparr>chunks = xs @ y # ys, ending = en\<rparr> T
    = \<lparr>chunks = concat (map f xs) @ zs, ending = Errored e\<rparr>"
  using consume_stateless [of xs T f, OF assms(1)]
  by (simp add: pipeThrough_def consume_append assms(2))

section \<open>Decoding text\<close>

interpretation decoder_stage: total_stage text_decoder_stream "\<lambda>_. True"
  by unfold_locales (auto simp: text_decoder_stream_def Let_def split: prod.split)

lemma consume_decoder:
  "\<exists>ts. consume text_decoder_stream d xs = (fst (decode_chunk d (concat xs)), ts, None)
     \<and> concat ts = snd (decode_chunk d (concat xs))"
proof (induction xs arbitrary: d)
  case Nil
  then show ?case by (simp add: utf8_decoder.feed_Nil)
next
  case (Cons x xs)
  obtain d' t where x: "decode_chunk d x = (d', t)" by fastforce
  obtain ts where "consume text_decoder_stream d' xs = (fst (decode_chunk d' (concat xs)), ts, None)"
    and "concat ts = snd (decode_chunk d' (concat xs))"
    using Cons.IH by blast
  with x show ?case
    by (auto simp: utf8_decoder.feed_append text_decoder_stream_def split: prod.split)
qed

lemma decoder_text_open:
  "concat (chunks (pipeThrough \<lparr>chunks = xs, ending = Open\<rparr> text_decoder_stream))
     = snd (decode_chunk new_decoder (concat xs))"
proof -
  have s: "tstart text_decoder_stream = new_decoder" by (simp add: text_decoder_stream_def)
  show ?thesis
    using consume_decoder [of new_decoder xs] by (auto simp: pipeThrough_def s)
qed

lemma decoder_text_closed:
  "concat (chunks (pipeThrough \<lparr>chunks = xs, ending = Closed\<rparr> text_decoder_stream))
     = text_decode (concat xs)"
proof -
  have s: "tstart text_decoder_stream = new_decoder"
    and f: "tflush text_decoder_stream d = (if decode_flush d = [] then [] else [decode_flush d], None)"
    for d by (simp_all add: text_decoder_stream_def Let_def)
  show ?thesis
    using consume_decoder [of new_decoder xs]
    by (auto simp: pipeThrough_def s f text_decode_def split: prod.split)
qed

section \<open>Content\<close>

lemma copy_bytes_map:
  "length bytes = length binary \<Longrightarrow> i \<le> length bytes \<Longrightarrow>
     copy_bytes binary bytes i = take i bytes @ map (\<lambda>c. word_of_nat (unat c)) (drop i binary)"
proof (induction binary bytes i rule: copy_bytes.induct)
  case (1 binary bytes i)
  show ?case
  proof (cases "i < length bytes")
    case True
    with 1 show ?thesis
      by (subst copy_bytes.simps)
        (simp add: take_Suc_conv_app_nth Cons_nth_drop_Suc [symmetric])
  next
    case False
    with 1 show ?thesis by (subst copy_bytes.simps) simp
  qed
qed

lemma byte_through_unit: "(ucast (ucast b :: code_unit) :: byte) = b"
  by (rule bit_word_eqI) (auto simp: bit_simps)

lemma decode_base64_text_encode: "decode_base64_text (b64_encode bs) = Inr (text_decode bs)"
  by (simp add: decode_base64_text_def atob_encode copy_bytes_map o_def byte_through_unit)

text \<open>What the stage does with the content field of a message.\<close>

lemma decode_message_string:
  assumes "js_get v (js ''content'') = Inr (JStr s)"
  shows "decode_message v =
    (if s = [] then Inr [] else bindC (decode_base64_text s) (\<lambda>t. Inr [t]))"
  using assms
  by (simp add: decode_message_def js_get_opt_def num_of_nat_zero del: js_Cons)

lemma decode_message_absent:
  assumes "js_get v (js ''content'') = Inr c" and "c = JUndefined \<or> c = JNull"
  shows "decode_message v = Inr []"
  using assms by (auto simp: decode_message_def js_get_opt_def simp del: js_Cons)

section \<open>Records on lines\<close>

text \<open>
  The framing both ends agree on: a codec whose encoded values hold no line feed, one value per
  line. JSON is such a codec.
\<close>

definition lines_of :: "('v \<Rightarrow> js_string) \<Rightarrow> 'v list \<Rightarrow> js_string" where
  "lines_of enc vs = concat (map (\<lambda>v. enc v @ [10]) vs)"

locale line_codec =
  fixes enc :: "'v \<Rightarrow> js_string"
    and dec :: "js_string \<Rightarrow> 'v list"
    and ok :: "'v \<Rightarrow> bool"
  assumes dec_enc: "ok v \<Longrightarrow> dec (enc v) = [v]"
    and enc_line: "ok v \<Longrightarrow> 10 \<notin> set (enc v)"
begin

lemma split_lines_of:
  assumes "\<forall>v \<in> set vs. ok v" and "10 \<notin> set rest"
  shows "split_on [10] (lines_of enc vs @ rest) = map enc vs @ [rest]"
  using split_on_unit_lines [of "map enc vs" 10 rest] assms
  by (simp add: lines_of_def o_def enc_line split_on_unit_rest)

lemma decode_lines_of:
  assumes "\<forall>v \<in> set vs. ok v" and "10 \<notin> set rest"
  shows "concat (map dec (butlast (split_on [10] (lines_of enc vs @ rest)))) = vs"
proof -
  have "concat (map dec (map enc vs)) = vs"
    using assms(1) by (induction vs) (simp_all add: dec_enc)
  then show ?thesis
    by (simp add: split_lines_of [OF assms] butlast_append)
qed

text \<open>A reader that starts in the middle of a record loses that record only.\<close>

lemma decode_from_middle:
  assumes "\<forall>v \<in> set vs. ok v" and "10 \<notin> set rest" and "10 \<notin> set torn" and "dec torn = []"
  shows "concat (map dec (butlast (split_on [10] (torn @ 10 # lines_of enc vs @ rest)))) = vs"
proof -
  have "split_on [10] (torn @ 10 # lines_of enc vs @ rest) = torn # map enc vs @ [rest]"
    using assms by (simp add: split_on_unit_line split_lines_of)
  then show ?thesis
    using decode_lines_of [OF assms(1,2)] assms(4)
    by (simp add: split_lines_of [OF assms(1,2)] butlast_append)
qed

end

interpretation json_lines: line_codec value_text json_or_skip wf_json
proof unfold_locales
  show "wf_json v \<Longrightarrow> json_or_skip (value_text v) = [v]" for v
    by (simp add: json_or_skip_def json_parse_stringify [OF _ wf_json_stringify])
  show "wf_json v \<Longrightarrow> 10 \<notin> set (value_text v)" for v
    by (rule value_text_not_newline)
qed

section \<open>readStreamToEnd\<close>

lemma pump_truthy:
  "\<forall>v \<in> set vs. truthy v \<Longrightarrow> pump truthy rs vs en =
     (case en of Open \<Rightarrow> Pending | Closed \<Rightarrow> Fulfilled (rs @ vs) | Errored e \<Rightarrow> Rejected e)"
  by (induction truthy rs vs en rule: pump.induct) (auto split: ending.split)

lemma pump_stops:
  "\<forall>v \<in> set vs. truthy v \<Longrightarrow> \<not> truthy w \<Longrightarrow> pump truthy rs (vs @ w # us) en = Fulfilled (rs @ vs)"
  by (induction vs arbitrary: rs) auto

end
