(* ===== verification/Json_Scan.thy ===== *)
theory Json_Scan
  imports Json_Roundtrip
begin

text \<open>
  A scanner that sees of a JSON text only its string literals and its braces, and what it says of the
  rest of an object's text behind a point in its middle: it is never JSON.
\<close>

section \<open>The scanner\<close>

text \<open>
  The scanner is outside of string literals, inside one, or behind a backslash there, each under a
  number of open braces; what cannot be part of a JSON text breaks it.
\<close>

datatype scan_state = Outside nat | Inside nat | Escaped nat | Broken

fun scan_unit :: "scan_state \<Rightarrow> code_unit \<Rightarrow> scan_state" where
  "scan_unit (Outside d) c =
     (if c = 34 then Inside d
      else if c = 92 then Broken
      else if c = 123 then Outside (Suc d)
      else if c = 125 then (case d of 0 \<Rightarrow> Broken | Suc d' \<Rightarrow> Outside d')
      else Outside d)"
| "scan_unit (Inside d) c = (if c = 34 then Outside d else if c = 92 then Escaped d else Inside d)"
| "scan_unit (Escaped d) c = Inside d"
| "scan_unit Broken c = Broken"

abbreviation scan :: "scan_state \<Rightarrow> js_string \<Rightarrow> scan_state" where
  "scan \<equiv> foldl scan_unit"

lemma scan_Broken [simp]: "scan Broken s = Broken"
  by (induction s) simp_all

text \<open>Under more open braces, what did not break the scanner does the same.\<close>

fun deeper :: "nat \<Rightarrow> scan_state \<Rightarrow> scan_state" where
  "deeper k (Outside d) = Outside (d + k)"
| "deeper k (Inside d) = Inside (d + k)"
| "deeper k (Escaped d) = Escaped (d + k)"
| "deeper k Broken = Broken"

lemma scan_unit_deeper: "scan_unit m c \<noteq> Broken \<Longrightarrow> scan_unit (deeper k m) c = deeper k (scan_unit m c)"
  by (cases m) (auto split: nat.splits)

lemma scan_deeper: "scan m s \<noteq> Broken \<Longrightarrow> scan (deeper k m) s = deeper k (scan m s)"
proof (induction s arbitrary: m)
  case (Cons c s)
  then have "scan_unit m c \<noteq> Broken" by auto
  with Cons show ?case by (simp add: scan_unit_deeper)
qed simp

section \<open>Texts that close what they open\<close>

definition balanced :: "js_string \<Rightarrow> bool" where
  "balanced s \<longleftrightarrow> (\<forall>d. scan (Outside d) s = Outside d)"

definition plain :: "code_unit \<Rightarrow> bool" where
  "plain c \<longleftrightarrow> c \<noteq> 34 \<and> c \<noteq> 92 \<and> c \<noteq> 123 \<and> c \<noteq> 125"

lemma balanced_Nil [simp]: "balanced []"
  by (simp add: balanced_def)

lemma balanced_append: "balanced s \<Longrightarrow> balanced t \<Longrightarrow> balanced (s @ t)"
  by (simp add: balanced_def)

lemma balanced_Cons: "plain c \<Longrightarrow> balanced (c # s) \<longleftrightarrow> balanced s"
  by (simp add: balanced_def plain_def)

lemma balanced_plain: "\<forall>c \<in> set s. plain c \<Longrightarrow> balanced s"
  by (induction s) (simp_all add: balanced_Cons)

lemma balanced_braces: "balanced s \<Longrightarrow> balanced (123 # s @ [125])"
  by (simp add: balanced_def)

section \<open>What is parsed is balanced\<close>

text \<open>\<open>leaves s r\<close>: behind a balanced text, \<open>r\<close> is left of \<open>s\<close>.\<close>

definition leaves :: "js_string \<Rightarrow> js_string \<Rightarrow> bool" where
  "leaves s r \<longleftrightarrow> (\<exists>u. s = u @ r \<and> balanced u)"

lemma leaves_refl [simp]: "leaves s s"
  by (simp add: leaves_def)

lemma leaves_trans: "leaves s t \<Longrightarrow> leaves t r \<Longrightarrow> leaves s r"
  unfolding leaves_def by (metis append.assoc balanced_append)

lemma leaves_Cons: "plain c \<Longrightarrow> leaves s r \<Longrightarrow> leaves (c # s) r"
  unfolding leaves_def by (metis append_Cons balanced_Cons)

lemma leaves_braces: "leaves s (125 # r) \<Longrightarrow> leaves (123 # s) r"
  unfolding leaves_def using balanced_braces by fastforce

lemma leaves_plain: "\<forall>c \<in> set u. plain c \<Longrightarrow> leaves (u @ r) r"
  unfolding leaves_def using balanced_plain by blast

lemma leaves_skip_ws: "leaves s (skip_ws s)"
proof -
  have "leaves (takeWhile is_ws s @ skip_ws s) (skip_ws s)"
    by (rule leaves_plain) (auto simp: is_ws_def plain_def dest!: set_takeWhileD)
  then show ?thesis by (simp add: skip_ws_def)
qed

lemma leaves_ws: "skip_ws s = t \<Longrightarrow> leaves t r \<Longrightarrow> leaves s r"
  using leaves_skip_ws leaves_trans by blast

lemma leaves_ws_Cons: "skip_ws s = c # t \<Longrightarrow> plain c \<Longrightarrow> leaves t r \<Longrightarrow> leaves s r"
  by (erule leaves_ws) (rule leaves_Cons)

lemma plain_marks [simp]: "plain 91" "plain 93" "plain 44" "plain 58" "plain 45" "plain 43" "plain 46" "plain 48"
    "plain 101" "plain 69"
  by (simp_all add: plain_def)

lemma hex_val_plain: "hex_val c = Some n \<Longrightarrow> c \<noteq> 34 \<and> c \<noteq> 92"
  by (auto simp: hex_val_def)

lemma hex4_plain: "hex4 a b c d = Some x \<Longrightarrow> \<forall>h \<in> {a, b, c, d}. h \<noteq> 34 \<and> h \<noteq> 92"
  unfolding hex4_def by (auto split: option.splits dest: hex_val_plain)

lemma parse_units_scanned:
  "parse_units s = Some (t, r) \<Longrightarrow> \<exists>u. s = u @ r \<and> (\<forall>d. scan (Inside d) u = Outside d)"
proof (induction s arbitrary: t rule: parse_units.induct)
  case (2 c cs)
  consider (quote) "c = 34" | (unicode) h1 h2 h3 h4 s' x t' where "c = 92" "cs = 117 # h1 # h2 # h3 # h4 # s'"
      "hex4 h1 h2 h3 h4 = Some x" "parse_units s' = Some (t', r)"
    | (short) e s' x t' where "c = 92" "cs = e # s'" "e \<noteq> 117" "unescape e = Some x" "parse_units s' = Some (t', r)"
    | (unit) t' where "c \<noteq> 34" "c \<noteq> 92" "\<not> c < 32" "parse_units cs = Some (t', r)"
    using "2.prems" by (auto split: if_splits list.splits option.splits)
  then show ?case
  proof cases
    case quote
    with "2.prems" show ?thesis by (intro exI [of _ "[34]"]) auto
  next
    case unicode
    with "2.IH"(1) obtain u where "s' = u @ r" "\<forall>d. scan (Inside d) u = Outside d" by force
    with unicode hex4_plain [OF unicode(3)] show ?thesis
      by (intro exI [of _ "92 # 117 # h1 # h2 # h3 # h4 # u"]) auto
  next
    case short
    with "2.IH"(2) obtain u where "s' = u @ r" "\<forall>d. scan (Inside d) u = Outside d" by force
    with short show ?thesis by (intro exI [of _ "92 # e # u"]) simp
  next
    case unit
    with "2.IH"(3) obtain u where "cs = u @ r" "\<forall>d. scan (Inside d) u = Outside d" by force
    with unit show ?thesis by (intro exI [of _ "c # u"]) simp
  qed
qed simp

lemma parse_units_leaves: "parse_units s = Some (t, r) \<Longrightarrow> leaves (34 # s) r"
  using parse_units_scanned [of s t r] by (auto simp: leaves_def balanced_def)

lemma parse_digits_leaves: "parse_digits s = Some (v, r) \<Longrightarrow> leaves s r"
proof -
  assume "parse_digits s = Some (v, r)"
  then have s: "s = takeWhile is_digit s @ r" by (auto simp: parse_digits_def split: list.splits)
  have "leaves (takeWhile is_digit s @ r) r"
    by (rule leaves_plain) (auto simp: is_digit_def plain_def word_le_nat_alt dest!: set_takeWhileD)
  with s show ?thesis by simp
qed

lemma parse_int_leaves: "parse_int s = Some (v, r) \<Longrightarrow> leaves s r"
  by (auto simp: parse_int_def intro: leaves_Cons parse_digits_leaves split: list.splits if_splits)

lemma parse_frac_leaves: "parse_frac s = Some (v, r) \<Longrightarrow> leaves s r"
  by (auto simp: parse_frac_def intro: leaves_Cons parse_digits_leaves split: list.splits if_splits)

lemma parse_exp_leaves: "parse_exp s = Some (v, r) \<Longrightarrow> leaves s r"
  by (auto simp: parse_exp_def intro: leaves_Cons leaves_Cons [OF _ leaves_Cons] dest: parse_digits_leaves
      split: list.splits if_splits)

lemma parse_unsigned_leaves:
  assumes "parse_unsigned s = Some (m, e, r)"
  shows "leaves s r"
proof -
  obtain ip t fp w ex where "parse_int s = Some (ip, t)" "parse_frac t = Some (fp, w)" "parse_exp w = Some (ex, r)"
    using assms by (auto simp: parse_unsigned_def split: option.splits)
  then show ?thesis
    by (blast intro: leaves_trans dest: parse_int_leaves parse_frac_leaves parse_exp_leaves)
qed

lemma parse_number_leaves: "parse_number s = Some (v, r) \<Longrightarrow> leaves s r"
  by (auto simp: parse_number_def split: list.splits if_splits dest!: parse_unsigned_leaves intro: leaves_Cons)

lemma parse_word_leaves: "parse_word w v s = Some (v', r) \<Longrightarrow> \<forall>c \<in> set w. plain c \<Longrightarrow> leaves s r"
  by (auto simp: parse_word_def prefix_def leaves_plain split: if_splits)

lemma plain_words: "\<forall>c \<in> set (js ''true''). plain c" "\<forall>c \<in> set (js ''false''). plain c" "\<forall>c \<in> set (js ''null''). plain c"
  by (simp_all add: plain_def)

text \<open>The parsers of values, of the elements of an array and of the members of an object.\<close>

lemma value_leaves_step:
  assumes E: "\<And>s v r. parse_elems n s = Some (v, r) \<Longrightarrow> leaves s r"
    and M: "\<And>kvs s v r. parse_members n kvs s = Some (v, r) \<Longrightarrow> leaves s (125 # r)"
    and parsed: "parse_value (Suc n) s = Some (v, r)"
  shows "leaves s r"
proof -
  obtain c cs where s: "skip_ws s = c # cs"
    using parsed by (auto simp: parse_value.simps split: list.splits)
  have "leaves (c # cs) r"
  proof -
    consider "c = 34" | "c = 91" | "c = 123" | "c = 116" | "c = 102" | "c = 110"
      | "c \<noteq> 34" "c \<noteq> 91" "c \<noteq> 123" "c \<noteq> 116" "c \<noteq> 102" "c \<noteq> 110" by blast
    then show ?thesis
    proof cases
      case 1
      with parsed s show ?thesis by (auto simp: parse_value.simps intro: parse_units_leaves)
    next
      case 2
      with parsed s show ?thesis
        by (auto simp: parse_value.simps intro!: leaves_Cons split: list.splits if_splits
            intro: leaves_ws leaves_ws_Cons dest: E)
    next
      case 3
      with parsed s show ?thesis
        by (auto simp: parse_value.simps intro!: leaves_braces split: list.splits if_splits
            intro: leaves_ws dest: M)
    next
      case 7
      with parsed s show ?thesis by (simp add: parse_value.simps parse_number_leaves)
    qed (use parsed s in \<open>auto simp: parse_value.simps simp del: js_Cons intro: parse_word_leaves [OF _ plain_words(1)]
        parse_word_leaves [OF _ plain_words(2)] parse_word_leaves [OF _ plain_words(3)]\<close>)
  qed
  with s show ?thesis by (rule leaves_ws)
qed

lemma elems_leaves_step:
  assumes V: "\<And>s v r. parse_value n s = Some (v, r) \<Longrightarrow> leaves s r"
    and E: "\<And>s v r. parse_elems n s = Some (v, r) \<Longrightarrow> leaves s r"
    and parsed: "parse_elems (Suc n) s = Some (vs, r)"
  shows "leaves s r"
proof -
  obtain v w c cs where w: "parse_value n s = Some (v, w)" "skip_ws w = c # cs" "c = 93 \<or> c = 44"
    and r: "r = cs \<or> (\<exists>us. parse_elems n cs = Some (us, r))"
    using parsed by (auto simp: parse_elems.simps split: option.splits list.splits if_splits)
  then have "leaves w r" using E by (auto intro: leaves_ws_Cons)
  with V [OF w(1)] show ?thesis by (rule leaves_trans)
qed

lemma members_leaves_step:
  assumes V: "\<And>s v r. parse_value n s = Some (v, r) \<Longrightarrow> leaves s r"
    and M: "\<And>kvs s v r. parse_members n kvs s = Some (v, r) \<Longrightarrow> leaves s (125 # r)"
    and parsed: "parse_members (Suc n) kvs s = Some (kvs', r)"
  shows "leaves s (125 # r)"
proof -
  obtain qs k u cs v w d ds where
      s: "skip_ws s = 34 # qs" "parse_units qs = Some (k, u)" "skip_ws u = 58 # cs"
    and v: "parse_value n cs = Some (v, w)" "skip_ws w = d # ds"
    and r: "d = 125 \<and> r = ds \<or> d = 44 \<and> parse_members n (obj_put kvs k v) ds = Some (kvs', r)"
    using parsed by (auto simp: parse_members.simps split: if_splits list.splits option.splits)
  have "leaves w (125 # r)"
    using r v(2) M by (auto intro: leaves_ws leaves_ws_Cons)
  then have "leaves u (125 # r)"
    using s(3) V [OF v(1)] by (auto intro: leaves_ws_Cons leaves_trans)
  then show ?thesis
    using s(1) parse_units_leaves [OF s(2)] by (auto intro: leaves_ws leaves_trans)
qed

lemma parsers_leave:
  "(\<forall>s v r. parse_value n s = Some (v, r) \<longrightarrow> leaves s r) \<and>
   (\<forall>s v r. parse_elems n s = Some (v, r) \<longrightarrow> leaves s r) \<and>
   (\<forall>kvs s v r. parse_members n kvs s = Some (v, r) \<longrightarrow> leaves s (125 # r))"
proof (induction n)
  case 0
  show ?case by (simp add: parse_value.simps parse_elems.simps parse_members.simps)
next
  case (Suc n)
  then have V: "\<And>s v r. parse_value n s = Some (v, r) \<Longrightarrow> leaves s r"
    and E: "\<And>s v r. parse_elems n s = Some (v, r) \<Longrightarrow> leaves s r"
    and M: "\<And>kvs s v r. parse_members n kvs s = Some (v, r) \<Longrightarrow> leaves s (125 # r)"
    by blast+
  show ?case
    by (intro conjI allI impI; (erule value_leaves_step [rotated 2] elems_leaves_step [rotated 2] members_leaves_step [rotated 2];
      erule V E M))
qed

lemma json_parse_balanced:
  assumes "json_parse s = Inr v"
  shows "balanced s"
proof -
  obtain r where r: "parse_value (json_fuel s) s = Some (v, r)" "skip_ws r = []"
    using assms by (auto simp: json_parse_def split: option.splits if_splits)
  then have "leaves s r" "leaves r []"
    using parsers_leave leaves_skip_ws [of r] by auto
  then have "leaves s []" by (rule leaves_trans)
  then show ?thesis by (simp add: leaves_def)
qed

section \<open>In the middle of an object\<close>

text \<open>The text of an object is balanced between its outer braces.\<close>

lemma object_text:
  assumes "wf_json (JObj kvs)"
  obtains u where "value_text (JObj kvs) = 123 # u @ [125]" and "balanced u"
proof (cases "kvs = []")
  case True
  then show thesis using that [of "[]"] by (simp add: value_text_def)
next
  case False
  define b where "b = js_join [44] (map (\<lambda>(k, v). json_quote k @ 58 # value_text v) kvs)"
  have printed: "value_text (JObj kvs) = 123 # b @ [125]"
    using assms by (simp add: value_text_def b_def stringify_props_map)
  have "json_members [] (b @ [125]) = Some (kvs, [])"
    using reads_back_members [OF False, of "[]" "[]"] assms wf_json_reads_back by (simp add: b_def)
  then have "leaves (b @ [125]) [125]"
    using parsers_leave unfolding json_members_def by blast
  then have "balanced b" by (simp add: leaves_def)
  with printed show thesis by (rule that)
qed

text \<open>
  Reading that starts outside of a string literal is too shallow; reading that starts inside of one
  takes the inside for the outside, until it breaks or ends inside of one.
\<close>

fun flipped :: "scan_state \<Rightarrow> scan_state \<Rightarrow> bool" where
  "flipped (Outside d) m = (m = Broken \<or> (\<exists>e. m = Inside e))"
| "flipped (Inside d) m = (m = Broken \<or> (\<exists>e. m = Outside e))"
| "flipped (Escaped d) m = (m = Broken)"
| "flipped Broken m = True"

lemma flipped_unit: "flipped m m' \<Longrightarrow> flipped (scan_unit m c) (scan_unit m' c)"
  by (cases m; cases m') (auto split: nat.splits)

lemma flipped_scan: "flipped m m' \<Longrightarrow> flipped (scan m s) (scan m' s)"
  by (induction s arbitrary: m m') (simp_all add: flipped_unit)

lemma flipped_unbalanced: "flipped m (Outside 0) \<Longrightarrow> scan m s = Outside d \<Longrightarrow> \<not> balanced s"
  using flipped_scan [of m "Outside 0" s] unfolding balanced_def
  by (metis flipped.simps(1) scan_state.distinct(1,5))

lemma unbalanced_rest:
  assumes "scan m s = Outside 0" and "m = Outside (Suc d) \<or> m = Inside (Suc d) \<or> m = Escaped (Suc d)"
  shows "\<not> balanced s"
proof
  assume s: "balanced s"
  consider "m = Outside (Suc d)" | "m = Inside (Suc d)" | "m = Escaped (Suc d)" using assms(2) by blast
  then show False
  proof cases
    case 1
    with assms(1) s show ?thesis by (simp add: balanced_def)
  next
    case 2
    with flipped_unbalanced [of m s 0] assms(1) s show ?thesis by simp
  next
    case 3
    with assms(1) obtain c t where ct: "s = c # t" by (cases s) auto
    with 3 assms(1) have rest: "scan (Inside (Suc d)) t = Outside 0" by simp
    have zero: "scan (scan_unit (Outside 0) c) t = Outside 0" using s ct by (simp add: balanced_def)
    show ?thesis
    proof (cases "c = 34")
      case True
      with zero have "scan (Inside 0) t = Outside 0" by simp
      with scan_deeper [of "Inside 0" t "Suc d"] rest show ?thesis by simp
    next
      case False
      then have "flipped (Inside (Suc d)) (scan_unit (Outside 0) c)" by simp
      with flipped_scan [of "Inside (Suc d)" "scan_unit (Outside 0) c" t] rest zero show ?thesis by simp
    qed
  qed
qed

lemma object_rest_not_json:
  assumes "wf_json (JObj kvs)" and "value_text (JObj kvs) = begun @ torn" and "begun \<noteq> []"
  shows "json_parse torn = Inl SyntaxError"
proof (cases "json_parse torn")
  case (Inl e)
  then show ?thesis by (auto simp: json_parse_def split: option.splits if_splits)
next
  case (Inr v)
  then have bal: "balanced torn" by (rule json_parse_balanced)
  obtain u where u: "value_text (JObj kvs) = 123 # u @ [125]" "balanced u"
    by (rule object_text [OF assms(1)])
  obtain p where p: "begun = 123 # p" "p @ torn = u @ [125]"
    using assms(2,3) u(1) by (cases begun) auto
  show ?thesis
  proof (cases "torn = []")
    case True
    then show ?thesis by (simp add: json_parse_def parse_value.simps json_fuel_def skip_ws_def)
  next
    case False
    then obtain w where w: "u = p @ w" "torn = w @ [125]"
      using p(2) by (metis append_butlast_last_id append_assoc append1_eq_conv butlast_append)
    define m where "m = scan (Outside 0) p"
    have "m \<noteq> Broken"
    proof
      assume "m = Broken"
      then have "scan (Outside 0) u = Broken" by (simp add: w(1) m_def [symmetric])
      with u(2) show False by (simp add: balanced_def)
    qed
    then have "scan (Outside 1) p = deeper 1 m"
      using scan_deeper [of "Outside 0" p 1] by (simp add: m_def)
    moreover have "scan (Outside 1) (p @ torn) = Outside 0"
      using u(2) by (simp add: p(2) balanced_def)
    ultimately have "scan (deeper 1 m) torn = Outside 0" by simp
    moreover have "\<exists>d. deeper 1 m = Outside (Suc d) \<or> deeper 1 m = Inside (Suc d) \<or> deeper 1 m = Escaped (Suc d)"
      using \<open>m \<noteq> Broken\<close> by (cases m) simp_all
    ultimately show ?thesis using unbalanced_rest bal by blast
  qed
qed

text \<open>Nor is what starts with a replacement character.\<close>

lemma replacement_not_json: "json_parse (0xFFFD # s) = Inl SyntaxError"
  by (simp add: json_parse_def json_fuel_def parse_value.simps skip_ws_nonws is_ws_def parse_number_def
      parse_unsigned_def parse_int_def parse_digits_def is_digit_def)

end
