(* ===== verification/Journal_Client.thy ===== *)
theory Journal_Client
  imports Selectors Streams Json_Scan
begin

text \<open>
  \<open>client/src/journal_client.ts\<close>: the class \<open>JournalClient\<close> with \<open>list\<close> and \<open>read\<close>, and
  \<open>parseJournalDocuments\<close>. An asynchronous method is a function of the network and the world
  that returns the promise and the world after it.
\<close>

record JournalClient =
  authToken :: js_string
  baseUrl :: URL

definition new_JournalClient :: "URL \<Rightarrow> js_string \<Rightarrow> JournalClient" where
  "new_JournalClient baseUrl' authToken' = \<lparr>authToken = authToken', baseUrl = baseUrl'\<rparr>"

definition JournalClient_list ::
  "JournalClient \<Rightarrow> Selector option \<Rightarrow> Selector option \<Rightarrow> network \<Rightarrow> client_world \<Rightarrow>
     (jsval list, ResponseError) Result promise \<times> client_world" where
  "JournalClient_list self included excluded net w =
     (let (inc, w1) = default_selector included w;
          (exc, w2) = default_selector excluded w1;
          url = URL_toString (baseUrl self) @ js ''v1/journals/list'';
          (incs, w3) = toLabelSet inc w2;
          (excs, w4) = toLabelSet exc w3;
          body = JObj [(js ''selector'', JObj [(js ''include'', json_of_ProtocolLabelSet incs),
                                               (js ''exclude'', json_of_ProtocolLabelSet excs)])];
          (result, w5) = doFetch net url (authToken self) body w4
      in (await result (\<lambda>result.
            if Result_ok object_truthy result then
              await (settle (Result_unwrap object_truthy print_object result)) (\<lambda>r.
              await (response_json r) (\<lambda>data.
              await (settle (bindC (js_get data (js ''journals''))
                (array_map (\<lambda>j. js_get j (js ''spec''))))) (\<lambda>specs.
              Fulfilled (Result_Ok specs))))
            else
              await (settle (Result_unwrap_err object_truthy print_object result)) (\<lambda>e.
              await (ResponseError_fromResponse e) (\<lambda>err.
              Fulfilled (Result_Err err)))), w5))"

definition newline :: js_string where
  "newline = [10]"

definition JournalClient_read ::
  "JournalClient \<Rightarrow> ProtocolReadRequest \<Rightarrow> network \<Rightarrow> 'z world_scheme \<Rightarrow>
     (jsval stream, ResponseError) Result promise \<times> 'z world_scheme" where
  "JournalClient_read self req net w =
     (let url = URL_toString (baseUrl self) @ js ''v1/journals/read'';
          (result, w') = doFetch net url (authToken self) (json_of_ProtocolReadRequest req) w
      in (await result (\<lambda>result.
            if Result_ok object_truthy result then
              await (settle (Result_unwrap object_truthy print_object result)) (\<lambda>r.
              case response_body r of
                None \<Rightarrow> Rejected TypeError
              | Some body \<Rightarrow>
                  (let reader =
                     pipeThrough (pipeThrough (pipeThrough (pipeThrough body
                       text_decoder_stream) (splitStream newline)) parseJSONStream) unwrapResult
                   in Fulfilled (Result_Ok reader)))
            else
              await (settle (Result_unwrap_err object_truthy print_object result)) (\<lambda>e.
              await (ResponseError_fromStreamResponse e) (\<lambda>err.
              Fulfilled (Result_Err err)))), w'))"

definition parseJournalDocuments :: "jsval stream \<Rightarrow> jsval stream" where
  "parseJournalDocuments st =
     pipeThrough (pipeThrough (pipeThrough st decodeContent) (splitStream newline)) parseJSONStream"

section \<open>list as a unary call\<close>

definition journal_specs :: "jsval \<Rightarrow> jsval list completion" where
  "journal_specs data =
     bindC (js_get data (js ''journals'')) (array_map (\<lambda>j. js_get j (js ''spec'')))"

definition journal_list_url :: "JournalClient \<Rightarrow> js_string" where
  "journal_list_url self = URL_toString (baseUrl self) @ js ''v1/journals/list''"

lemma JournalClient_list_call:
  "JournalClient_list self inc exc =
     list_call (journal_list_url self) (authToken self) journal_specs inc exc"
  by (intro ext) (simp add: JournalClient_list_def list_call_def handle_unary_def [abs_def]
      journal_specs_def journal_list_url_def Let_def split: prod.split cong: if_cong del: js_Cons)

interpretation journal_list: unary_call "JournalClient_list self inc exc"
    "list_request (journal_list_url self) (authToken self) inc exc" journal_specs
    "valid_arguments inc exc" for self inc exc
  unfolding JournalClient_list_call by (rule list_calls.unary_call_axioms)

text \<open>What \<open>list\<close> extracts from a response in which every journal has its specification.\<close>

lemma journal_specs_typed:
  assumes "ProtocolListResponse.journals resp = Some js'"
    and "\<And>j. j \<in> set js' \<Longrightarrow> ListResponseJournal.spec j \<noteq> None"
  shows "journal_specs (json_of_ProtocolListResponse resp) =
    Inr (map (\<lambda>j. json_of_ProtocolJournalSpec (the (ListResponseJournal.spec j))) js')"
proof -
  have "js_get (json_of_ProtocolListResponse resp) (js ''journals'')
      = Inr (json_array json_of_ListResponseJournal js')"
    using assms(1)
    by (simp add: json_of_ProtocolListResponse_def js_get_of_object js_inject del: js_Cons js_Nil)
  moreover have "js_get (json_of_ListResponseJournal j) (js ''spec'')
      = Inr (json_of_ProtocolJournalSpec (the (ListResponseJournal.spec j)))" if "j \<in> set js'" for j
    using assms(2) [OF that]
    by (auto simp: json_of_ListResponseJournal_def js_get_of_object js_inject simp del: js_Cons js_Nil)
  ultimately show ?thesis
    by (simp add: journal_specs_def array_map_get del: js_Cons)
qed

section \<open>read\<close>

definition read_pipeline :: "byte list stream \<Rightarrow> jsval stream" where
  "read_pipeline body =
     pipeThrough (pipeThrough (pipeThrough (pipeThrough body
       text_decoder_stream) (splitStream newline)) parseJSONStream) unwrapResult"

text \<open>What \<open>read\<close> promises: one request, and an outcome that depends on the response alone.\<close>

definition read_outcome :: "response promise \<Rightarrow> (ResponseError + jsval stream) promise" where
  "read_outcome p =
     (case p of
        Pending \<Rightarrow> Pending
      | Rejected _ \<Rightarrow> Rejected TypeError
      | Fulfilled r \<Rightarrow>
          if response_ok r then
            (case response_body r of
               None \<Rightarrow> Rejected TypeError
             | Some body \<Rightarrow> Fulfilled (Inr (read_pipeline body)))
          else
            await (response_json r)
              (\<lambda>body. await (settle (js_get body (js ''error'')))
                (\<lambda>err. await (settle (js_get err (js ''httpStatus'')))
                  (\<lambda>status. Fulfilled (Inl \<lparr>error_body = err, error_response = r, error_status = status\<rparr>)))))"

definition read_request :: "JournalClient \<Rightarrow> ProtocolReadRequest \<Rightarrow> request" where
  "read_request self req =
     authorized_request (URL_toString (baseUrl self) @ js ''v1/journals/read'') (authToken self)
       (json_of_ProtocolReadRequest req)"

lemma JournalClient_read_outcome:
  "JournalClient_read self req net w =
     (await (read_outcome (net (fetched w) (read_request self req))) (\<lambda>r. Fulfilled (of_sum r)),
      w\<lparr>fetched := fetched w @ [read_request self req]\<rparr>)"
  by (simp add: JournalClient_read_def doFetch_refines await_assoc fetch_outcome_def read_outcome_def
      Result_defs object_truthy_def ResponseError_fromStreamResponse_def error_json_def read_request_def
      read_pipeline_def [symmetric] Let_def del: js_Cons split: promise.split option.split)

section \<open>The stages together\<close>

text \<open>Text to values: what \<open>splitStream\<close> and \<open>parseJSONStream\<close> make of a stream of text.\<close>

definition text_values :: "js_string \<Rightarrow> jsval list" where
  "text_values s = concat (map json_or_skip (butlast (split_on newline s)))"

lemma split_parse_pipe:
  "pipeThrough (pipeThrough st (splitStream newline)) parseJSONStream
     = \<lparr>chunks = text_values (concat (chunks st)), ending = ending st\<rparr>"
  by (simp add: parseJSONStream_pipe splitStream_chunks splitStream_ending text_values_def newline_def)

lemma text_values_lines:
  assumes "\<forall>v \<in> set vs. wf_json v" and "10 \<notin> set rest"
  shows "text_values (lines_of value_text vs @ rest) = vs"
  using json_lines.decode_lines_of [OF assms] by (simp add: text_values_def newline_def)

lemma text_values_torn:
  assumes "\<forall>v \<in> set vs. wf_json v" and "10 \<notin> set rest" and "10 \<notin> set torn" and "json_or_skip torn = []"
  shows "text_values (torn @ 10 # lines_of value_text vs @ rest) = vs"
  using json_lines.decode_from_middle [OF assms] by (simp add: text_values_def newline_def)

text \<open>The frames of the gateway: each response is wrapped in an object with a field \<open>result\<close>.\<close>

definition result_frame :: "jsval \<Rightarrow> jsval" where
  "result_frame v = JObj [(js ''result'', v)]"

lemma wf_result_frame [simp]: "wf_json (result_frame v) \<longleftrightarrow> wf_json v"
  by (simp add: result_frame_def)

lemma get_result_frame [simp]: "js_get (result_frame v) (js ''result'') = Inr v"
  by (simp add: result_frame_def prop_value_def del: js_Cons)

lemma unwrap_frames:
  assumes "chunks st = map result_frame vs"
  shows "pipeThrough st unwrapResult = \<lparr>chunks = vs, ending = ending st\<rparr>"
proof -
  have "js_get v (js ''result'') = Inr (projr (js_get v (js ''result'')))" if "v \<in> set (chunks st)" for v
    using that assms by (auto simp del: js_Cons)
  then have "pipeThrough st unwrapResult
      = \<lparr>chunks = map (\<lambda>v. projr (js_get v (js ''result''))) (chunks st), ending = ending st\<rparr>"
    by (rule unwrapResult_pipe)
  with assms show ?thesis
    by (simp add: o_def del: js_Cons)
qed

lemma wf_utf16_lines:
  "\<forall>v \<in> set vs. wf_json v \<Longrightarrow> wf_utf16 s \<Longrightarrow> wf_utf16 (lines_of value_text vs @ s)"
  by (induction vs)
    (auto simp: lines_of_def wf_utf16_tame tame_not_surrogate wf_utf16_Cons
      intro!: wf_utf16_append value_text_wf)

lemma bom_free_lines:
  assumes "\<forall>v \<in> set vs. wf_json v" and "bom_free s"
  shows "bom_free (lines_of value_text vs @ s)"
proof (cases vs)
  case (Cons v vs')
  with assms(1) have "bom_free (value_text v)" and "wf_json v"
    by (simp_all add: value_text_bom_free)
  then show ?thesis
    using value_text_hd [of v] Cons by (auto simp: lines_of_def bom_free_def)
qed (simp add: assms lines_of_def)

text \<open>Of a body that is still open, too, all whole frames come out.\<close>

lemma read_pipeline_frames_at:
  assumes "en \<in> {Open, Closed}"
    and "\<forall>v \<in> set vs. wf_json v" and "10 \<notin> set rest" and "wf_utf16 rest" and "bom_free rest"
    and "concat cs = text_bytes (lines_of value_text (map result_frame vs) @ rest)"
  shows "read_pipeline \<lparr>chunks = cs, ending = en\<rparr> = \<lparr>chunks = vs, ending = en\<rparr>"
proof -
  let ?text = "lines_of value_text (map result_frame vs) @ rest"
  have wf: "\<forall>v \<in> set (map result_frame vs). wf_json v" using assms(2) by simp
  have "wf_utf16 ?text" "bom_free ?text"
    using wf_utf16_lines [OF wf assms(4)] bom_free_lines [OF wf assms(5)] .
  then have "concat (chunks (pipeThrough \<lparr>chunks = cs, ending = en\<rparr> text_decoder_stream)) = ?text"
    using assms(1) decode_text_bytes [of ?text]
    by (auto simp: decoder_text_closed decoder_text_open assms(6) text_decode_bytes)
  then have vals: "chunks (pipeThrough (pipeThrough (pipeThrough \<lparr>chunks = cs, ending = en\<rparr>
      text_decoder_stream) (splitStream newline)) parseJSONStream) = map result_frame vs"
    using text_values_lines [OF wf assms(3)] by (simp add: split_parse_pipe)
  then show ?thesis
    by (simp add: read_pipeline_def unwrap_frames split_parse_pipe decoder_stage.ending_pipeThrough)
qed

lemmas read_pipeline_frames = read_pipeline_frames_at [of Closed, simplified]

text \<open>
  At any moment of a read, what has come out is part of what will have come out: more bytes,
  however they are cut, only add to it.
\<close>

lemma pipe_prefix:
  "prefix xs ys \<Longrightarrow> prefix (chunks (pipeThrough \<lparr>chunks = xs, ending = Open\<rparr> T))
     (chunks (pipeThrough \<lparr>chunks = ys, ending = en\<rparr> T))"
  using pipeThrough_grows [of xs T _ en] by (auto simp: prefix_def)

lemma pipe_prefix_open:
  assumes "ending st = Open" and "prefix (chunks st) (chunks st')"
  shows "prefix (chunks (pipeThrough st T)) (chunks (pipeThrough st' T))"
  using pipe_prefix [OF assms(2), of T "ending st'"] assms(1)
  by (cases st; cases st') simp

lemma read_pipeline_grows:
  "prefix (chunks (read_pipeline \<lparr>chunks = cs, ending = Open\<rparr>))
    (chunks (read_pipeline \<lparr>chunks = cs @ ds, ending = en\<rparr>))"
proof -
  let ?D = "\<lambda>st. pipeThrough st text_decoder_stream"
  let ?V = "\<lambda>st. pipeThrough (pipeThrough (?D st) (splitStream newline)) parseJSONStream"
  have "prefix (chunks (?D \<lparr>chunks = cs, ending = Open\<rparr>)) (chunks (?D \<lparr>chunks = cs @ ds, ending = en\<rparr>))"
    by (rule pipeThrough_grows)
  then have "prefix (chunks (?V \<lparr>chunks = cs, ending = Open\<rparr>)) (chunks (?V \<lparr>chunks = cs @ ds, ending = en\<rparr>))"
    by (intro pipe_prefix_open) (simp_all add: parseJSONStream_pipe splitStream_ending newline_def
        decoder_stage.ending_pipeThrough)
  then show ?thesis
    unfolding read_pipeline_def
    by (intro pipe_prefix_open) (simp_all add: parseJSONStream_pipe splitStream_ending newline_def
        decoder_stage.ending_pipeThrough)
qed

section \<open>Documents\<close>

text \<open>
  A message carries a piece of text when its \<open>content\<close> is the Base64 form of the piece's bytes,
  or is absent or empty and so is the piece.
\<close>

definition carries :: "jsval \<Rightarrow> js_string \<Rightarrow> bool" where
  "carries v p \<longleftrightarrow> wf_utf16 p \<and> bom_free p \<and>
     (js_get v (js ''content'') = Inr (JStr (b64_encode (text_bytes p))) \<or>
      p = [] \<and> js_get v (js ''content'') \<in> {Inr JUndefined, Inr JNull})"

text \<open>The same of a typed read response.\<close>

definition response_carries :: "ProtocolReadResponse \<Rightarrow> js_string \<Rightarrow> bool" where
  "response_carries m p \<longleftrightarrow> wf_utf16 p \<and> bom_free p \<and>
     (ProtocolReadResponse.content m = Some (b64_encode (text_bytes p)) \<or>
      p = [] \<and> ProtocolReadResponse.content m = None)"

lemma response_carries_carries: "response_carries m p \<Longrightarrow> carries (json_of_ProtocolReadResponse m) p"
  by (auto simp: response_carries_def carries_def json_of_ProtocolReadResponse_def js_get_of_object
      js_inject simp del: js_Cons js_Nil)

text \<open>The same of any bytes, whether they are UTF-8 or not.\<close>

definition holds_bytes :: "jsval \<Rightarrow> byte list \<Rightarrow> bool" where
  "holds_bytes v bs \<longleftrightarrow> js_get v (js ''content'') = Inr (JStr (b64_encode bs)) \<or>
     bs = [] \<and> js_get v (js ''content'') \<in> {Inr JUndefined, Inr JNull}"

lemma decode_message_holds:
  assumes "holds_bytes v bs"
  shows "decode_message v = Inr (if bs = [] then [] else [text_decode bs])"
proof (cases "js_get v (js ''content'') = Inr (JStr (b64_encode bs))")
  case True
  then show ?thesis
    using decode_message_string [OF True] by (simp add: b64_encode_Nil decode_base64_text_encode del: js_Cons)
next
  case False
  with assms show ?thesis
    by (auto simp: holds_bytes_def decode_message_absent simp del: js_Cons)
qed

lemma held_message:
  assumes "list_all2 holds_bytes vs bss" and "v \<in> set vs"
  shows "decode_message v = Inr (projr (decode_message v))"
  using assms by (induction rule: list_all2_induct) (auto simp: decode_message_holds)

lemma held_texts:
  "list_all2 holds_bytes vs bss \<Longrightarrow>
     concat (map (\<lambda>v. projr (decode_message v)) vs) = map text_decode (filter (\<lambda>bs. bs \<noteq> []) bss)"
  by (induction rule: list_all2_induct) (simp_all add: decode_message_holds)

lemma decodeContent_holds:
  assumes "list_all2 holds_bytes (chunks st) bss"
  shows "pipeThrough st decodeContent = \<lparr>chunks = map text_decode (filter (\<lambda>bs. bs \<noteq> []) bss), ending = ending st\<rparr>"
proof -
  have "decode_message v = Inr (projr (decode_message v))" if "v \<in> set (chunks st)" for v
    using held_message [OF assms that] .
  then have "pipeThrough st decodeContent
      = \<lparr>chunks = concat (map (\<lambda>v. projr (decode_message v)) (chunks st)), ending = ending st\<rparr>"
    by (rule decodeContent_pipe)
  then show ?thesis by (simp add: held_texts [OF assms])
qed

lemma text_decode_Nil: "text_decode [] = []"
  using text_decode_length [of "[]"] by simp

lemma concat_held: "concat (map text_decode (filter (\<lambda>bs. bs \<noteq> []) bss)) = concat (map text_decode bss)"
  by (induction bss) (auto simp: text_decode_Nil)

lemma carries_holds: "carries v p \<longleftrightarrow> wf_utf16 p \<and> bom_free p \<and> holds_bytes v (text_bytes p)"
  by (simp add: carries_def holds_bytes_def text_bytes_Nil)

lemma decode_message_carries:
  assumes "carries v p"
  shows "decode_message v = Inr (if p = [] then [] else [p])"
  using assms decode_message_holds [of v "text_bytes p"]
  by (simp add: carries_holds text_bytes_Nil text_decode_bytes)

lemma carried_message:
  assumes "list_all2 carries vs ps" and "v \<in> set vs"
  shows "decode_message v = Inr (projr (decode_message v))"
  using assms by (induction rule: list_all2_induct) (auto simp: decode_message_carries)

lemma carried_texts:
  "list_all2 carries vs ps \<Longrightarrow>
     concat (map (\<lambda>v. projr (decode_message v)) vs) = filter (\<lambda>p. p \<noteq> []) ps"
  by (induction rule: list_all2_induct) (simp_all add: decode_message_carries)

lemma decodeContent_carries:
  assumes "list_all2 carries (chunks st) ps"
  shows "pipeThrough st decodeContent = \<lparr>chunks = filter (\<lambda>p. p \<noteq> []) ps, ending = ending st\<rparr>"
proof -
  have "decode_message v = Inr (projr (decode_message v))" if "v \<in> set (chunks st)" for v
    using carried_message [OF assms that] .
  then have "pipeThrough st decodeContent
      = \<lparr>chunks = concat (map (\<lambda>v. projr (decode_message v)) (chunks st)), ending = ending st\<rparr>"
    by (rule decodeContent_pipe)
  then show ?thesis by (simp add: carried_texts [OF assms])
qed

lemma concat_nonempty: "concat (filter (\<lambda>p. p \<noteq> []) ps) = concat ps"
  by (induction ps) auto

text \<open>Only the concatenated text matters, not how it was cut into pieces.\<close>

lemma parseJournalDocuments_text:
  assumes "list_all2 carries (chunks st) ps"
  shows "parseJournalDocuments st = \<lparr>chunks = text_values (concat ps), ending = ending st\<rparr>"
  by (simp add: parseJournalDocuments_def decodeContent_carries [OF assms] split_parse_pipe concat_nonempty)

text \<open>Nor does the text, for any bytes: what matters is what each message decodes to on its own.\<close>

lemma parseJournalDocuments_bytes:
  assumes "list_all2 holds_bytes (chunks st) bss"
  shows "parseJournalDocuments st = \<lparr>chunks = text_values (concat (map text_decode bss)), ending = ending st\<rparr>"
  by (simp add: parseJournalDocuments_def decodeContent_holds [OF assms] split_parse_pipe concat_held)

lemma decoded_pieces:
  "\<forall>p \<in> set ps. wf_utf16 p \<and> bom_free p \<Longrightarrow> concat (map text_decode (map text_bytes ps)) = concat ps"
  by (induction ps) (simp_all add: text_decode_bytes)

lemma parseJournalDocuments_documents:
  assumes "list_all2 carries (chunks st) ps" and "concat ps = lines_of value_text docs @ rest"
    and "\<forall>d \<in> set docs. wf_json d" and "10 \<notin> set rest"
  shows "parseJournalDocuments st = \<lparr>chunks = docs, ending = ending st\<rparr>"
  by (simp add: parseJournalDocuments_text [OF assms(1)] assms(2) text_values_lines [OF assms(3,4)])

text \<open>The two pipelines one behind the other, from the bytes of the read responses to the documents.\<close>

lemma documents_of_frames_at:
  assumes "en \<in> {Open, Closed}"
    and "concat cs = text_bytes (lines_of value_text
      (map (\<lambda>m. result_frame (json_of_ProtocolReadResponse m)) ms) @ rest)"
    and "10 \<notin> set rest" and "wf_utf16 rest" and "bom_free rest"
    and "list_all2 response_carries ms ps" and "concat ps = lines_of value_text docs @ tail"
    and "\<forall>d \<in> set docs. wf_json d" and "10 \<notin> set tail"
  shows "parseJournalDocuments (read_pipeline \<lparr>chunks = cs, ending = en\<rparr>)
    = \<lparr>chunks = docs, ending = en\<rparr>"
proof -
  let ?vs = "map json_of_ProtocolReadResponse ms"
  have "list_all2 carries ?vs ps"
    using assms(6) by (auto simp: list_all2_map1 intro: list_all2_mono response_carries_carries)
  then have "parseJournalDocuments \<lparr>chunks = ?vs, ending = en\<rparr> = \<lparr>chunks = docs, ending = en\<rparr>"
    using parseJournalDocuments_documents [of "\<lparr>chunks = ?vs, ending = en\<rparr>"] assms(7-9) by simp
  moreover have "read_pipeline \<lparr>chunks = cs, ending = en\<rparr> = \<lparr>chunks = ?vs, ending = en\<rparr>"
    using read_pipeline_frames_at [of en ?vs rest cs] assms(1-5)
    by (simp add: o_def wf_json_of_Broker_Types_ProtocolReadResponse)
  ultimately show ?thesis by simp
qed

lemmas documents_of_frames = documents_of_frames_at [of Closed, simplified]

text \<open>Documents that are integers, written exactly, arrive as doubles.\<close>

lemma text_values_ints:
  assumes "10 \<notin> set rest"
  shows "text_values (lines_of int_text is @ rest) = map (\<lambda>i. JNum (to_double (mk_dec i 0))) is"
proof -
  have "split_on [10] (lines_of int_text is @ rest) = map int_text is @ [rest]"
    using split_on_unit_lines [of "map int_text is" 10 rest] assms
    by (simp add: lines_of_def o_def int_text_not_newline split_on_unit_rest)
  moreover have "concat (map json_or_skip (map int_text is)) = map (\<lambda>i. JNum (to_double (mk_dec i 0))) is"
    by (induction "is") (simp_all add: json_or_skip_def json_parse_int)
  ultimately show ?thesis by (simp add: text_values_def newline_def butlast_append)
qed

text \<open>
  A read that starts behind the first byte of an object's text: \<open>cp\<close> is the character that it starts in
  or behind, \<open>torn\<close> what is left of the object behind that character.
\<close>

lemma wf_utf16_tl: "wf_utf16 (c # s) \<Longrightarrow> \<not> is_lead c \<Longrightarrow> wf_utf16 s"
  by (cases s) auto

lemma text_decode_torn:
  assumes "scalar cp" and "0 < i" and "i \<le> length (utf8_bytes cp)" and "wf_utf16 p"
  shows "\<exists>n. text_decode (drop i (map word_of_nat (utf8_bytes cp)) @ text_bytes p) = replicate n 0xFFFD @ p
      \<or> p = 0xFEFF # text_decode (drop i (map word_of_nat (utf8_bytes cp)) @ text_bytes p)"
proof (cases "i < length (utf8_bytes cp)")
  case True
  with text_decode_last [OF assms(1,2) True assms(4)] show ?thesis by blast
next
  case False
  then have drop: "drop i (map word_of_nat (utf8_bytes cp)) = ([] :: byte list)" using assms(3) by simp
  show ?thesis
  proof (cases "bom_free p")
    case True
    then have "text_decode (text_bytes p) = replicate 0 0xFFFD @ p"
      using text_decode_bytes [OF assms(4)] by simp
    with drop show ?thesis by (metis append_Nil)
  next
    case False
    then obtain q where p: "p = 0xFEFF # q" by (auto simp: bom_free_def split: list.splits)
    have points: "code_points (0xFEFF # q) = 0xFEFF # code_points q"
      by (cases q) (simp_all add: is_lead_unat is_trail_unat)
    have "wf_utf16 q" using assms(4) wf_utf16_tl [of "0xFEFF" q] by (simp add: p is_lead_unat)
    then have "text_decode (text_bytes p) = q"
      by (subst text_decode_run [OF text_bytes_run]) (simp add: p points utf16s_code_points utf8_flush_def)
    with drop p show ?thesis by simp
  qed
qed

lemma torn_object_skipped:
  assumes "wf_json (JObj kvs)" and "value_text (JObj kvs) = begun @ torn" and "begun \<noteq> []"
  shows "json_or_skip (replicate n 0xFFFD @ torn) = []"
  using object_rest_not_json [OF assms] by (cases n) (simp_all add: json_or_skip_def replacement_not_json)

lemma parseJournalDocuments_torn:
  assumes chunks: "chunks st = v # vs" and rest_carried: "list_all2 carries vs ps"
    and first: "holds_bytes v (drop i (map word_of_nat (utf8_bytes cp)) @ text_bytes p)"
    and cut: "scalar cp" "0 < i" "i \<le> length (utf8_bytes cp)" "wf_utf16 p"
    and object: "wf_json (JObj kvs)" "value_text (JObj kvs) = begun @ utf16 cp @ torn"
    and whole: "p @ concat ps = torn @ 10 # lines_of value_text docs @ rest"
    and docs: "\<forall>d \<in> set docs. wf_json d" "10 \<notin> set rest"
  shows "parseJournalDocuments st = \<lparr>chunks = docs, ending = ending st\<rparr>"
proof -
  define b where "b = drop i (map word_of_nat (utf8_bytes cp)) @ text_bytes p"
  have "list_all2 holds_bytes vs (map text_bytes ps)"
    using rest_carried by (auto simp: list_all2_map2 carries_holds intro: list_all2_mono)
  then have "list_all2 holds_bytes (chunks st) (b # map text_bytes ps)"
    using chunks first by (simp add: b_def)
  moreover have "\<forall>q \<in> set ps. wf_utf16 q \<and> bom_free q"
    using rest_carried by (auto simp: carries_def list_all2_conv_all_nth in_set_conv_nth)
  ultimately have result: "parseJournalDocuments st
      = \<lparr>chunks = text_values (text_decode b @ concat ps), ending = ending st\<rparr>"
    using parseJournalDocuments_bytes decoded_pieces by fastforce
  have newline: "10 \<notin> set torn" and nonempty: "begun @ utf16 cp \<noteq> []"
    using value_text_not_newline [OF object(1)] object(2) by (simp_all add: utf16_def)
  have docs_of: "text_values (t @ 10 # lines_of value_text docs @ rest) = docs"
    if "t = replicate n 0xFFFD @ w" "torn = u @ w" for t n u w
    using text_values_torn [OF docs, of t] torn_object_skipped [OF object(1), of "begun @ utf16 cp @ u" w n] newline
      nonempty object(2) that by auto
  obtain n where "text_decode b = replicate n 0xFFFD @ p \<or> p = 0xFEFF # text_decode b"
    using text_decode_torn [OF cut] by (auto simp: b_def)
  then have "text_values (text_decode b @ concat ps) = docs"
  proof
    assume "text_decode b = replicate n 0xFFFD @ p"
    then have "text_decode b @ concat ps = (replicate n 0xFFFD @ torn) @ 10 # lines_of value_text docs @ rest"
      using whole by simp
    then show ?thesis using docs_of [of _ n torn "[]"] by simp
  next
    assume bom: "p = 0xFEFF # text_decode b"
    then obtain t where t: "torn = 0xFEFF # t" using whole by (cases torn) auto
    with bom whole have "text_decode b @ concat ps = t @ 10 # lines_of value_text docs @ rest" by simp
    then show ?thesis using docs_of [of t 0 t "[0xFEFF]"] t by simp
  qed
  with result show ?thesis by simp
qed

lemma readStreamToEnd_truthy:
  assumes "\<forall>v \<in> set (chunks st). truthy v" and "ending st = Closed"
  shows "readStreamToEnd truthy st = Fulfilled (chunks st)"
  using assms by (simp add: readStreamToEnd_def pump_truthy)

text \<open>
  An error frame of the gateway has no \<open>result\<close>: \<open>read\<close> hands \<open>undefined\<close> on, and
  \<open>parseJournalDocuments\<close> fails at it.
\<close>

lemma decodeContent_undefined: "ttransform decodeContent s JUndefined = (s, [], Some TypeError)"
  by (simp add: decodeContent_def decode_message_def)

lemma decodeContent_step:
  "decode_message v = Inr (projr (decode_message v)) \<Longrightarrow>
     ttransform decodeContent s v = (s, projr (decode_message v), None)"
  by (cases "decode_message v") (simp_all add: decodeContent_def)

lemma parseJournalDocuments_undefined:
  assumes "list_all2 carries (chunks st) ps" and "concat ps = lines_of value_text docs @ rest"
    and "\<forall>d \<in> set docs. wf_json d" and "10 \<notin> set rest"
  shows "parseJournalDocuments \<lparr>chunks = chunks st @ JUndefined # vs, ending = en\<rparr>
    = \<lparr>chunks = docs, ending = Errored TypeError\<rparr>"
proof -
  have "decode_message v = Inr (projr (decode_message v))" if "v \<in> set (chunks st)" for v
    using carried_message [OF assms(1) that] .
  then have "pipeThrough \<lparr>chunks = chunks st @ JUndefined # vs, ending = en\<rparr> decodeContent
      = \<lparr>chunks = concat (map (\<lambda>v. projr (decode_message v)) (chunks st)) @ [], ending = Errored TypeError\<rparr>"
    by (intro pipeThrough_throws decodeContent_step decodeContent_undefined) auto
  then show ?thesis
    by (simp add: carried_texts [OF assms(1)] parseJournalDocuments_def split_parse_pipe concat_nonempty assms(2)
        text_values_lines [OF assms(3,4)])
qed

end
