(* ===== verification/Read_Run.thy ===== *)
theory Read_Run
  imports Journal_Client
begin

text \<open>
  \<open>read\<close> at work: the four stages it connects, each at its own pace, fed by the network and read
  by the consumer. Every run delivers a prefix of what \<open>read_pipeline\<close> says of the bytes that
  have arrived; a run comes to rest once the body has closed, and has then delivered all of it.
\<close>

record read_state =
  decoding :: "(text_decoder, byte list, js_string) pipe"
  splitting :: "(js_string option, js_string, js_string) pipe"
  parsing :: "(unit, js_string, jsval) pipe"
  unwrapping :: "(unit, jsval, jsval) pipe"

definition read_init :: read_state where
  "read_init = \<lparr>decoding = pipe_init text_decoder_stream, splitting = pipe_init (splitStream newline),
     parsing = pipe_init parseJSONStream, unwrapping = pipe_init unwrapResult\<rparr>"

inductive read_step :: "read_state \<Rightarrow> read_state \<Rightarrow> bool" where
  decode: "inner_step text_decoder_stream (decoding s) p \<Longrightarrow> read_step s (s\<lparr>decoding := p\<rparr>)"
| to_split: "hop_step (decoding s) (splitting s) p q \<Longrightarrow> read_step s (s\<lparr>decoding := p, splitting := q\<rparr>)"
| split_text: "inner_step (splitStream newline) (splitting s) p \<Longrightarrow> read_step s (s\<lparr>splitting := p\<rparr>)"
| to_parse: "hop_step (splitting s) (parsing s) p q \<Longrightarrow> read_step s (s\<lparr>splitting := p, parsing := q\<rparr>)"
| parse: "inner_step parseJSONStream (parsing s) p \<Longrightarrow> read_step s (s\<lparr>parsing := p\<rparr>)"
| to_unwrap: "hop_step (parsing s) (unwrapping s) p q \<Longrightarrow> read_step s (s\<lparr>parsing := p, unwrapping := q\<rparr>)"
| unwrap: "work_step unwrapResult (unwrapping s) p \<Longrightarrow> read_step s (s\<lparr>unwrapping := p\<rparr>)"

inductive read_reachable :: "read_state \<Rightarrow> bool" where
  read_starts: "read_reachable read_init"
| body_moves: "read_reachable s \<Longrightarrow> env_step (decoding s) p \<Longrightarrow> read_reachable (s\<lparr>decoding := p\<rparr>)"
| read_moves: "read_reachable s \<Longrightarrow> read_step s s' \<Longrightarrow> read_reachable s'"

text \<open>The bytes of the body that have arrived, and whether it has ended.\<close>

definition body_so_far :: "read_state \<Rightarrow> byte list stream" where
  "body_so_far s = history (decoding s)"

section \<open>The invariant\<close>

definition read_inv :: "read_state \<Rightarrow> bool" where
  "read_inv s \<longleftrightarrow>
     pipe_reachable text_decoder_stream (decoding s) \<and> pipe_reachable (splitStream newline) (splitting s) \<and>
     pipe_reachable parseJSONStream (parsing s) \<and> pipe_reachable unwrapResult (unwrapping s) \<and>
     linked (decoding s) (splitting s) \<and> linked (splitting s) (parsing s) \<and>
     linked (parsing s) (unwrapping s)"

lemmas hop_intros = reachable_hop_left reachable_hop_right linked_hop linked_hop_left linked_hop_right

lemma read_step_inv: "read_step s s' \<Longrightarrow> read_inv s \<Longrightarrow> read_inv s'"
  by (induction rule: read_step.induct)
    (auto simp: read_inv_def intro: reachable_inner linked_inner_left by_work linked_work_right
      dest: inner_step_def [THEN iffD1] hop_intros)

lemma read_reachable_inv: "read_reachable s \<Longrightarrow> read_inv s"
proof (induction rule: read_reachable.induct)
  case read_starts
  show ?case by (simp add: read_inv_def read_init_def initially linked_init)
next
  case (body_moves s p)
  then show ?case by (auto simp: read_inv_def intro: by_env linked_env)
next
  case (read_moves s s')
  then show ?case by (blast intro: read_step_inv)
qed

lemma read_follows: "read_reachable s \<Longrightarrow> follows (unwrapping s) (read_pipeline (body_so_far s))"
  unfolding read_pipeline_def body_so_far_def
  by (drule read_reachable_inv) (auto simp: read_inv_def intro!: follows_linked follows_first)

section \<open>Rest\<close>

definition read_measure where
  "read_measure s = (stage_measure (decoding s), stage_measure (splitting s), stage_measure (parsing s),
     stage_measure (unwrapping s))"

lemma read_step_smaller:
  "read_step s s' \<Longrightarrow> (read_measure s', read_measure s)
     \<in> stage_less <*lex*> stage_less <*lex*> stage_less <*lex*> stage_less"
  by (induction rule: read_step.induct)
    (auto simp: read_measure_def dest: inner_step_smaller hop_step_smaller work_step_smaller)

lemma read_terminates: "wf {(s', s). read_step s s'}"
proof (rule wf_subset)
  show "wf (inv_image (stage_less <*lex*> stage_less <*lex*> stage_less <*lex*> stage_less) read_measure)"
    by (intro wf_inv_image wf_lex_prod wf_stage_less)
  show "{(s', s). read_step s s'} \<subseteq>
      inv_image (stage_less <*lex*> stage_less <*lex*> stage_less <*lex*> stage_less) read_measure"
    using read_step_smaller by (auto simp: inv_image_def)
qed

lemma read_rests: "\<exists>s'. read_step\<^sup>*\<^sup>* s s' \<and> (\<nexists>s''. read_step s' s'')"
  by (rule terminates_rests [OF read_terminates])

lemma inner_history: "inner_step T p p' \<Longrightarrow> history p' = history p"
  by (auto simp: inner_step_def history_def dest: work_step_history)

lemma hop_history: "hop_step p q p' q' \<Longrightarrow> history p' = history p"
  by (induction rule: hop_step.induct) (simp_all add: history_def)

lemma read_step_body: "read_step s s' \<Longrightarrow> body_so_far s' = body_so_far s"
  by (induction rule: read_step.induct) (auto simp: body_so_far_def dest: inner_history hop_history)

lemma read_steps_reachable:
  "read_step\<^sup>*\<^sup>* s s' \<Longrightarrow> read_reachable s \<Longrightarrow> read_reachable s' \<and> body_so_far s' = body_so_far s"
  by (induction rule: rtranclp_induct) (auto intro: read_moves simp: read_step_body)

lemma newline_Cons: "newline = 10 # []"
  by (simp add: newline_def)

lemma read_at_rest:
  assumes "read_reachable s" and "source (decoding s) = Closed" and "\<nexists>s'. read_step s s'"
  shows "source (unwrapping s) = Closed \<and> outcome (unwrapping s) \<noteq> Open \<and> queue (unwrapping s) = []"
proof -
  have inv: "read_inv s" by (rule read_reachable_inv [OF assms(1)])
  have stuck: "\<nexists>p. inner_step text_decoder_stream (decoding s) p"
    "\<nexists>p q. hop_step (decoding s) (splitting s) p q"
    "\<nexists>p. inner_step (splitStream newline) (splitting s) p"
    "\<nexists>p q. hop_step (splitting s) (parsing s) p q"
    "\<nexists>p. inner_step parseJSONStream (parsing s) p"
    "\<nexists>p q. hop_step (parsing s) (unwrapping s) p q"
    "\<nexists>p. work_step unwrapResult (unwrapping s) p"
    using assms(3) by (blast intro: read_step.intros)+
  have "source (splitting s) = Closed"
    using decoder_stage.rest_passes_end [of "decoding s" "splitting s"] inv assms(2) stuck(1,2)
    by (simp add: read_inv_def)
  then have "source (parsing s) = Closed"
    using split_stage.rest_passes_end [of 10 "[]" "splitting s" "parsing s"] inv stuck(3,4)
    by (simp add: read_inv_def newline_def)
  then have c: "source (unwrapping s) = Closed"
    using parse_stage.rest_passes_end [of "parsing s" "unwrapping s"] inv stuck(5,6)
    by (simp add: read_inv_def)
  with stuck(7) show ?thesis
    using work_progress [of "unwrapping s" unwrapResult] by auto
qed

lemma read_outcome_at_rest:
  assumes "read_reachable s" and "source (decoding s) = Closed" and "\<nexists>s'. read_step s s'"
  shows "outcome (unwrapping s) = ending (read_pipeline (body_so_far s))
    \<and> (outcome (unwrapping s) = Closed \<longrightarrow>
        read_pipeline (body_so_far s) = \<lparr>chunks = delivered (unwrapping s), ending = Closed\<rparr>)"
proof -
  have inv: "read_inv s" by (rule read_reachable_inv [OF assms(1)])
  let ?st = "pipeThrough (pipeThrough (pipeThrough (body_so_far s) text_decoder_stream) (splitStream newline))
      parseJSONStream"
  have "follows (parsing s) ?st"
    using inv unfolding body_so_far_def
    by (auto simp: read_inv_def intro!: follows_linked follows_first)
  moreover note rest = read_at_rest [OF assms]
  ultimately have st: "?st = history (unwrapping s)"
    using follows_closed [of "parsing s" "unwrapping s" ?st] inv by (simp add: read_inv_def)
  have f: "follows (unwrapping s) (read_pipeline (body_so_far s))"
    by (rule read_follows [OF assms(1)])
  show ?thesis
  proof (cases "outcome (unwrapping s)")
    case (Errored e)
    with errored_reference [of unwrapResult "unwrapping s" e] inv rest st show ?thesis
      by (simp add: read_inv_def read_pipeline_def)
  qed (use rest f in \<open>auto simp: follows_def\<close>)
qed

end
