(* ===== verification/Document_Run.thy ===== *)
theory Document_Run
  imports Read_Run
begin

text \<open>
  \<open>parseJournalDocuments\<close> at work behind a read: seven stages, each at its own pace, between the
  network and the consumer of the documents. The stages of the read are those of \<open>Read_Run\<close>; what
  its last stage delivers goes on to \<open>decodeContent\<close> instead of a consumer.
\<close>

record document_state =
  reading :: read_state
  contents :: "(unit, jsval, js_string) pipe"
  splitting_docs :: "(js_string option, js_string, js_string) pipe"
  parsing_docs :: "(unit, js_string, jsval) pipe"

definition document_init :: document_state where
  "document_init = \<lparr>reading = read_init, contents = pipe_init decodeContent,
     splitting_docs = pipe_init (splitStream newline), parsing_docs = pipe_init parseJSONStream\<rparr>"

definition read_inner :: "read_state \<Rightarrow> read_state \<Rightarrow> bool" where
  "read_inner r r' \<longleftrightarrow> read_step r r' \<and> delivered (unwrapping r') = delivered (unwrapping r)"

inductive document_step :: "document_state \<Rightarrow> document_state \<Rightarrow> bool" where
  in_read: "read_inner (reading s) r \<Longrightarrow> document_step s (s\<lparr>reading := r\<rparr>)"
| to_contents: "hop_step (unwrapping (reading s)) (contents s) p q \<Longrightarrow>
     document_step s (s\<lparr>reading := (reading s)\<lparr>unwrapping := p\<rparr>, contents := q\<rparr>)"
| decode_contents: "inner_step decodeContent (contents s) p \<Longrightarrow> document_step s (s\<lparr>contents := p\<rparr>)"
| to_split_docs: "hop_step (contents s) (splitting_docs s) p q \<Longrightarrow>
     document_step s (s\<lparr>contents := p, splitting_docs := q\<rparr>)"
| split_docs: "inner_step (splitStream newline) (splitting_docs s) p \<Longrightarrow>
     document_step s (s\<lparr>splitting_docs := p\<rparr>)"
| to_parse_docs: "hop_step (splitting_docs s) (parsing_docs s) p q \<Longrightarrow>
     document_step s (s\<lparr>splitting_docs := p, parsing_docs := q\<rparr>)"
| parse_docs: "work_step parseJSONStream (parsing_docs s) p \<Longrightarrow> document_step s (s\<lparr>parsing_docs := p\<rparr>)"

inductive document_reachable :: "document_state \<Rightarrow> bool" where
  documents_start: "document_reachable document_init"
| documents_body: "document_reachable s \<Longrightarrow> env_step (decoding (reading s)) p \<Longrightarrow>
     document_reachable (s\<lparr>reading := (reading s)\<lparr>decoding := p\<rparr>\<rparr>)"
| documents_move: "document_reachable s \<Longrightarrow> document_step s s' \<Longrightarrow> document_reachable s'"

section \<open>The invariant\<close>

text \<open>The read makes steps of its own kind only, and the other stages are linked behind it.\<close>

definition document_inv :: "document_state \<Rightarrow> bool" where
  "document_inv s \<longleftrightarrow> read_reachable (reading s) \<and>
     pipe_reachable decodeContent (contents s) \<and> pipe_reachable (splitStream newline) (splitting_docs s) \<and>
     pipe_reachable parseJSONStream (parsing_docs s) \<and>
     linked (unwrapping (reading s)) (contents s) \<and> linked (contents s) (splitting_docs s) \<and>
     linked (splitting_docs s) (parsing_docs s)"

lemma hop_is_read_step:
  "hop_step (unwrapping r) q p q' \<Longrightarrow> r\<lparr>unwrapping := p\<rparr> = r \<or> read_step r (r\<lparr>unwrapping := p\<rparr>)"
  by (erule hop_stepE) (auto intro: unwrap deliver)

lemma read_reachable_hop:
  "read_reachable r \<Longrightarrow> hop_step (unwrapping r) q p q' \<Longrightarrow> read_reachable (r\<lparr>unwrapping := p\<rparr>)"
  using hop_is_read_step by (fastforce intro: read_moves)

lemma read_reachable_unwrapping: "read_reachable r \<Longrightarrow> pipe_reachable unwrapResult (unwrapping r)"
  by (drule read_reachable_inv) (simp add: read_inv_def)

lemma read_step_last:
  "read_step r r' \<Longrightarrow> unwrapping r' = unwrapping r \<or> hop_step (parsing r) (unwrapping r) (parsing r') (unwrapping r')
     \<or> work_step unwrapResult (unwrapping r) (unwrapping r')"
  by (induction rule: read_step.induct) auto

lemma linked_read_inner: "read_inner r r' \<Longrightarrow> linked (unwrapping r) q \<Longrightarrow> linked (unwrapping r') q"
  using read_step_last [of r r']
  by (auto simp: read_inner_def intro: linked_hop_right linked_work_left)

lemma document_step_inv: "document_step s s' \<Longrightarrow> document_inv s \<Longrightarrow> document_inv s'"
  by (induction rule: document_step.induct)
    (auto simp: document_inv_def read_inner_def intro: read_moves reachable_inner linked_inner_left by_work
      linked_work_right linked_read_inner [unfolded read_inner_def, OF conjI]
      dest: inner_step_def [THEN iffD1] read_reachable_hop read_reachable_unwrapping hop_intros)

lemma document_reachable_inv: "document_reachable s \<Longrightarrow> document_inv s"
proof (induction rule: document_reachable.induct)
  case documents_start
  show ?case
    by (simp add: document_inv_def document_init_def read_starts initially linked_init read_init_def [symmetric])
      (simp add: read_init_def linked_init)
next
  case (documents_body s p)
  then show ?case by (auto simp: document_inv_def intro: body_moves)
next
  case (documents_move s s')
  then show ?case by (blast intro: document_step_inv)
qed

text \<open>The consumer has read a prefix of the documents that the reference semantics gives.\<close>

definition documents_so_far :: "document_state \<Rightarrow> jsval stream" where
  "documents_so_far s = parseJournalDocuments (read_pipeline (body_so_far (reading s)))"

lemma document_follows: "document_reachable s \<Longrightarrow> follows (parsing_docs s) (documents_so_far s)"
  unfolding documents_so_far_def parseJournalDocuments_def
  by (drule document_reachable_inv) (auto simp: document_inv_def intro!: follows_linked read_follows)

section \<open>Rest\<close>

definition read_less where
  "read_less = stage_less <*lex*> stage_less <*lex*> stage_less <*lex*> stage_less"

definition document_measure where
  "document_measure s = (read_measure (reading s), stage_measure (contents s),
     stage_measure (splitting_docs s), stage_measure (parsing_docs s))"

definition document_less where
  "document_less = read_less <*lex*> stage_less <*lex*> stage_less <*lex*> stage_less"

lemma wf_document_less: "wf document_less"
  by (simp add: document_less_def read_less_def wf_lex_prod wf_stage_less)

lemma document_step_smaller:
  "document_step s s' \<Longrightarrow> (document_measure s', document_measure s) \<in> document_less"
proof (induction rule: document_step.induct)
  case (in_read s r)
  then show ?case
    by (auto simp: read_inner_def document_measure_def document_less_def read_less_def
        dest: read_step_smaller)
next
  case (to_contents s p q)
  from hop_step_smaller [OF this] show ?case
    by (auto simp: document_measure_def document_less_def read_less_def read_measure_def)
qed (auto simp: document_measure_def document_less_def
  dest: inner_step_smaller hop_step_smaller work_step_smaller)

lemma document_terminates: "wf {(s', s). document_step s s'}"
proof (rule wf_subset)
  show "wf (inv_image document_less document_measure)"
    by (intro wf_inv_image wf_document_less)
  show "{(s', s). document_step s s'} \<subseteq> inv_image document_less document_measure"
    using document_step_smaller by (auto simp: inv_image_def)
qed

lemma document_rests: "\<exists>s'. document_step\<^sup>*\<^sup>* s s' \<and> (\<nexists>s''. document_step s' s'')"
  by (rule terminates_rests [OF document_terminates])

lemma document_step_body: "document_step s s' \<Longrightarrow> body_so_far (reading s') = body_so_far (reading s)"
  by (induction rule: document_step.induct)
    (auto simp: read_inner_def dest: read_step_body simp: body_so_far_def)

lemma document_steps_reachable:
  "document_step\<^sup>*\<^sup>* s s' \<Longrightarrow> document_reachable s \<Longrightarrow>
     document_reachable s' \<and> body_so_far (reading s') = body_so_far (reading s)"
  by (induction rule: rtranclp_induct) (auto intro: documents_move simp: document_step_body)

text \<open>At rest, the read is at rest, and every stage behind it has seen the end of its source.\<close>

lemma read_step_quiet:
  "read_step r r' \<Longrightarrow> queue (unwrapping r) = [] \<Longrightarrow> delivered (unwrapping r') = delivered (unwrapping r)"
  by (induction rule: read_step.induct) (auto elim!: hop_stepE elim: work_step.cases)

lemma document_rest_read:
  assumes "document_reachable s" and "\<nexists>s'. document_step s s'"
  shows "\<nexists>r. read_step (reading s) r"
proof
  assume "\<exists>r. read_step (reading s) r"
  then obtain r where r: "read_step (reading s) r" by blast
  have "linked (unwrapping (reading s)) (contents s)"
    using document_reachable_inv [OF assms(1)] by (simp add: document_inv_def)
  then have "queue (unwrapping (reading s)) = []"
    using assms(2) by (intro rest_queue) (blast intro: to_contents)+
  with r have "delivered (unwrapping r) = delivered (unwrapping (reading s))"
    by (rule read_step_quiet)
  with r assms(2) show False by (blast intro: in_read read_inner_def [THEN iffD2])
qed

lemma document_at_rest:
  assumes "document_reachable s" and "source (decoding (reading s)) = Closed"
    and "\<nexists>s'. document_step s s'"
  shows "source (contents s) \<noteq> Open \<and> outcome (contents s) \<noteq> Open \<and> queue (contents s) = []
    \<and> source (splitting_docs s) \<noteq> Open \<and> outcome (splitting_docs s) \<noteq> Open
    \<and> source (parsing_docs s) \<noteq> Open \<and> outcome (parsing_docs s) \<noteq> Open \<and> queue (parsing_docs s) = []"
proof -
  have inv: "document_inv s" by (rule document_reachable_inv [OF assms(1)])
  have stuck: "\<nexists>p q. hop_step (unwrapping (reading s)) (contents s) p q"
    "\<nexists>p. inner_step decodeContent (contents s) p"
    "\<nexists>p q. hop_step (contents s) (splitting_docs s) p q"
    "\<nexists>p. inner_step (splitStream newline) (splitting_docs s) p"
    "\<nexists>p q. hop_step (splitting_docs s) (parsing_docs s) p q"
    "\<nexists>p. work_step parseJSONStream (parsing_docs s) p"
    using assms(3) by (blast intro: document_step.intros)+
  have quiet: "\<nexists>p. inner_step unwrapResult (unwrapping (reading s)) p"
    using document_rest_read [OF assms(1,3)] by (auto simp: inner_step_def dest: unwrap)
  have "source (unwrapping (reading s)) = Closed"
    using read_at_rest [OF _ assms(2) document_rest_read [OF assms(1,3)]] inv
    by (simp add: document_inv_def)
  then have c: "source (contents s) \<noteq> Open"
    using rest_passes_on [OF _ _ quiet stuck(1)] inv by (simp add: document_inv_def)
  then have d: "queue (contents s) = [] \<and> outcome (contents s) \<noteq> Open \<and> source (splitting_docs s) \<noteq> Open"
    using rest_passes_on [OF _ _ stuck(2,3)] inv by (simp add: document_inv_def)
  then have e: "outcome (splitting_docs s) \<noteq> Open \<and> source (parsing_docs s) \<noteq> Open"
    using rest_passes_on [OF _ _ stuck(4,5)] inv by (simp add: document_inv_def)
  moreover have "queue (parsing_docs s) = []" "outcome (parsing_docs s) \<noteq> Open"
    using work_progress [of "parsing_docs s" parseJSONStream] stuck(6) e by auto
  ultimately show ?thesis using c d by blast
qed

text \<open>If the reference reading of the body ends well, so does the run, with all its documents.\<close>

lemma documents_at_rest:
  assumes "document_reachable s" and "source (decoding (reading s)) = Closed"
    and "\<nexists>s'. document_step s s'" and "ending (documents_so_far s) = Closed"
  shows "outcome (parsing_docs s) = Closed
    \<and> documents_so_far s = \<lparr>chunks = delivered (parsing_docs s), ending = Closed\<rparr>"
proof -
  have inv: "document_inv s" by (rule document_reachable_inv [OF assms(1)])
  note rest = document_at_rest [OF assms(1-3)]
  let ?st = "read_pipeline (body_so_far (reading s))"
  let ?ct = "pipeThrough ?st decodeContent"
  let ?sp = "pipeThrough ?ct (splitStream newline)"
  have "ending ?sp = Closed"
    using assms(4) by (simp add: documents_so_far_def parseJournalDocuments_def pipeThrough_closed)
  moreover from this have "ending ?ct = Closed" by (rule pipeThrough_closed)
  moreover from this have "ending ?st = Closed" by (rule pipeThrough_closed)
  ultimately have ends: "ending ?st = Closed" "ending ?ct = Closed" "ending ?sp = Closed" by blast+
  have r: "read_reachable (reading s)" using inv by (simp add: document_inv_def)
  have "outcome (unwrapping (reading s)) = Closed"
    using read_outcome_at_rest [OF r assms(2) document_rest_read [OF assms(1,3)]] ends(1) by simp
  then have c: "outcome (contents s) = Closed"
    using rest_closes [OF _ _ read_follows [OF r], of decodeContent "contents s"] inv rest ends(2)
    by (simp add: document_inv_def)
  have f: "follows (contents s) ?ct"
    using inv by (auto simp: document_inv_def intro!: follows_linked read_follows)
  have d: "outcome (splitting_docs s) = Closed"
    using rest_closes [OF _ _ f, of "splitStream newline" "splitting_docs s"] inv rest c ends(3)
    by (simp add: document_inv_def)
  have g: "follows (splitting_docs s) ?sp"
    using inv f by (auto simp: document_inv_def intro!: follows_linked)
  have "outcome (parsing_docs s) = Closed"
    using rest_closes [OF _ _ g, of parseJSONStream "parsing_docs s"] inv rest d assms(4)
    by (simp add: document_inv_def documents_so_far_def parseJournalDocuments_def)
  then show ?thesis
    using document_follows [OF assms(1)] rest by (simp add: follows_def)
qed

end
