(* ===== verification/Collect_Run.thy ===== *)
theory Collect_Run
  imports Document_Run
begin

text \<open>
  \<open>readStreamToEnd\<close> at work as the consumer of the documents: each call of \<open>pump\<close> waits for one
  read, which takes a chunk, or the end, or an error from the last of the seven stages whenever
  there is one. \<open>resolution\<close> is the promise it returned, \<open>results\<close> its array.
\<close>

record collect_state =
  documents :: document_state
  results :: "jsval list"
  resolution :: "jsval list promise"

definition collect_init :: collect_state where
  "collect_init = \<lparr>documents = document_init, results = [], resolution = Pending\<rparr>"

definition documents_inner :: "document_state \<Rightarrow> document_state \<Rightarrow> bool" where
  "documents_inner d d' \<longleftrightarrow> document_step d d' \<and> delivered (parsing_docs d') = delivered (parsing_docs d)"

definition take_chunk :: "document_state \<Rightarrow> jsval \<Rightarrow> jsval list \<Rightarrow> document_state" where
  "take_chunk d v vs = d\<lparr>parsing_docs := (parsing_docs d)\<lparr>queue := vs,
     delivered := delivered (parsing_docs d) @ [v]\<rparr>\<rparr>"

inductive collect_step :: "collect_state \<Rightarrow> collect_state \<Rightarrow> bool" where
  in_documents: "documents_inner (documents s) d \<Longrightarrow> collect_step s (s\<lparr>documents := d\<rparr>)"
| read_value: "resolution s = Pending \<Longrightarrow> queue (parsing_docs (documents s)) = v # vs \<Longrightarrow> js_truthy v \<Longrightarrow>
     collect_step s (s\<lparr>documents := take_chunk (documents s) v vs, results := results s @ [v]\<rparr>)"
| read_falsy: "resolution s = Pending \<Longrightarrow> queue (parsing_docs (documents s)) = v # vs \<Longrightarrow> \<not> js_truthy v \<Longrightarrow>
     collect_step s (s\<lparr>documents := take_chunk (documents s) v vs, resolution := Fulfilled (results s)\<rparr>)"
| read_done: "resolution s = Pending \<Longrightarrow> queue (parsing_docs (documents s)) = [] \<Longrightarrow>
     outcome (parsing_docs (documents s)) = Closed \<Longrightarrow>
     collect_step s (s\<lparr>resolution := Fulfilled (results s)\<rparr>)"
| read_rejects: "resolution s = Pending \<Longrightarrow> outcome (parsing_docs (documents s)) = Errored e \<Longrightarrow>
     collect_step s (s\<lparr>resolution := Rejected e\<rparr>)"

inductive collect_reachable :: "collect_state \<Rightarrow> bool" where
  collect_starts: "collect_reachable collect_init"
| collect_body: "collect_reachable s \<Longrightarrow> env_step (decoding (reading (documents s))) p \<Longrightarrow>
     collect_reachable (s\<lparr>documents := (documents s)\<lparr>reading := (reading (documents s))\<lparr>decoding := p\<rparr>\<rparr>\<rparr>)"
| collect_moves: "collect_reachable s \<Longrightarrow> collect_step s s' \<Longrightarrow> collect_reachable s'"

section \<open>The invariant\<close>

text \<open>
  While the promise is pending, the array holds all that was read, and all of it is truthy. A
  promise that has resolved did so at a falsy chunk or at the end, one that was rejected at an error.
\<close>

definition collect_inv :: "collect_state \<Rightarrow> bool" where
  "collect_inv s \<longleftrightarrow> document_reachable (documents s) \<and> (\<forall>v \<in> set (results s). js_truthy v) \<and>
     (let p = parsing_docs (documents s) in
      case resolution s of
        Pending \<Rightarrow> delivered p = results s
      | Fulfilled vs \<Rightarrow> vs = results s \<and>
          ((\<exists>v. \<not> js_truthy v \<and> delivered p = vs @ [v]) \<or>
           delivered p = vs \<and> outcome p = Closed \<and> queue p = [])
      | Rejected e \<Rightarrow> delivered p = results s \<and> outcome p = Errored e)"

lemma take_chunk_step: "queue (parsing_docs d) = v # vs \<Longrightarrow> document_step d (take_chunk d v vs)"
  unfolding take_chunk_def by (intro parse_docs deliver)

text \<open>What has ended stays as it is.\<close>

lemma work_step_ended:
  "work_step T p p' \<Longrightarrow> outcome p \<noteq> Open \<Longrightarrow> outcome p' = outcome p \<and> (queue p = [] \<longrightarrow> queue p' = [])"
  by (induction rule: work_step.induct) auto

lemma document_step_ended:
  "document_step d d' \<Longrightarrow> outcome (parsing_docs d) \<noteq> Open \<Longrightarrow>
     outcome (parsing_docs d') = outcome (parsing_docs d) \<and>
     (queue (parsing_docs d) = [] \<longrightarrow> queue (parsing_docs d') = [])"
  by (induction rule: document_step.induct) (auto dest: work_step_ended elim!: hop_stepE)

lemma collect_step_inv: "collect_step s s' \<Longrightarrow> collect_inv s \<Longrightarrow> collect_inv s'"
proof (induction rule: collect_step.induct)
  case (in_documents s d)
  then have step: "document_step (documents s) d"
    and same: "delivered (parsing_docs d) = delivered (parsing_docs (documents s))"
    by (simp_all add: documents_inner_def)
  with in_documents.prems show ?case
    using document_step_ended [OF step]
    by (cases "resolution s") (auto simp: collect_inv_def Let_def intro: documents_move)
next
  case (read_value s v vs)
  then show ?case
    using take_chunk_step [OF read_value(2)]
    by (auto simp: collect_inv_def Let_def intro: documents_move) (auto simp: take_chunk_def)
next
  case (read_falsy s v vs)
  then show ?case
    using take_chunk_step [OF read_falsy(2)]
    by (auto simp: collect_inv_def Let_def intro: documents_move) (auto simp: take_chunk_def)
qed (auto simp: collect_inv_def Let_def)

lemma collect_reachable_inv: "collect_reachable s \<Longrightarrow> collect_inv s"
proof (induction rule: collect_reachable.induct)
  case collect_starts
  show ?case
    by (simp add: collect_inv_def collect_init_def documents_start)
      (simp add: document_init_def pipe_init_def)
next
  case (collect_body s p)
  then show ?case
    by (cases "resolution s") (auto simp: collect_inv_def Let_def intro: documents_body)
next
  case (collect_moves s s')
  then show ?case by (blast intro: collect_step_inv)
qed

section \<open>Rest\<close>

definition collect_measure where
  "collect_measure s = (document_measure (documents s), if resolution s = Pending then 1 :: nat else 0)"

lemma collect_step_smaller:
  "collect_step s s' \<Longrightarrow> (collect_measure s', collect_measure s) \<in> document_less <*lex*> less_than"
proof (induction rule: collect_step.induct)
  case (in_documents s d)
  then show ?case
    by (auto simp: documents_inner_def collect_measure_def dest: document_step_smaller)
next
  case (read_value s v vs)
  then show ?case
    using document_step_smaller [OF take_chunk_step [OF read_value(2)]] by (simp add: collect_measure_def)
next
  case (read_falsy s v vs)
  then show ?case
    using document_step_smaller [OF take_chunk_step [OF read_falsy(2)]] by (simp add: collect_measure_def)
qed (auto simp: collect_measure_def)

lemma collect_terminates: "wf {(s', s). collect_step s s'}"
proof (rule wf_subset)
  show "wf (inv_image (document_less <*lex*> less_than) collect_measure)"
    by (intro wf_inv_image wf_lex_prod wf_document_less wf_less_than)
  show "{(s', s). collect_step s s'} \<subseteq> inv_image (document_less <*lex*> less_than) collect_measure"
    using collect_step_smaller by (auto simp: inv_image_def)
qed

lemma collect_rests: "\<exists>s'. collect_step\<^sup>*\<^sup>* s s' \<and> (\<nexists>s''. collect_step s' s'')"
  by (rule terminates_rests [OF collect_terminates])

lemma collect_step_body:
  "collect_step s s' \<Longrightarrow> body_so_far (reading (documents s')) = body_so_far (reading (documents s))"
  by (induction rule: collect_step.induct)
    (auto simp: documents_inner_def take_chunk_def dest: document_step_body)

lemma collect_steps_reachable:
  "collect_step\<^sup>*\<^sup>* s s' \<Longrightarrow> collect_reachable s \<Longrightarrow>
     collect_reachable s' \<and> body_so_far (reading (documents s')) = body_so_far (reading (documents s))"
  by (induction rule: rtranclp_induct) (auto intro: collect_moves simp: collect_step_body)

text \<open>At rest, once the body has closed, the promise has been settled.\<close>

lemma documents_quiet:
  assumes "\<nexists>s'. collect_step s s'" and "queue (parsing_docs (documents s)) = []"
  shows "\<nexists>d. document_step (documents s) d"
proof
  assume "\<exists>d. document_step (documents s) d"
  then obtain d where d: "document_step (documents s) d" by blast
  then have "delivered (parsing_docs d) = delivered (parsing_docs (documents s))"
    using assms(2) by (induction rule: document_step.induct)
      (auto elim!: hop_stepE elim: work_step.cases simp: inner_step_def)
  with d assms(1) show False by (blast intro: in_documents documents_inner_def [THEN iffD2])
qed

lemma collect_settled:
  assumes "collect_reachable s" and "source (decoding (reading (documents s))) = Closed"
    and "\<nexists>s'. collect_step s s'"
  shows "resolution s \<noteq> Pending"
proof
  assume pending: "resolution s = Pending"
  have d: "document_reachable (documents s)"
    using collect_reachable_inv [OF assms(1)] by (simp add: collect_inv_def)
  have "queue (parsing_docs (documents s)) = []"
    using assms(3) pending
    by (cases "queue (parsing_docs (documents s))") (blast intro: read_value read_falsy)+
  moreover from this have "outcome (parsing_docs (documents s)) \<noteq> Open"
    using document_at_rest [OF d assms(2) documents_quiet [OF assms(3)]] by blast
  ultimately show False
    using assms(3) pending
    by (cases "outcome (parsing_docs (documents s))") (blast intro: read_done read_rejects)+
qed

lemma errored_queue: "pipe_reachable T p \<Longrightarrow> outcome p = Errored e \<Longrightarrow> queue p = []"
  by (drule pipe_reachable_inv) (auto simp: pipe_inv_def)

lemma collect_inv_fulfilled:
  assumes "collect_inv s" and "resolution s = Fulfilled vs"
  shows "vs = results s"
    and "(\<exists>v. \<not> js_truthy v \<and> delivered (parsing_docs (documents s)) = vs @ [v]) \<or>
      delivered (parsing_docs (documents s)) = vs \<and> outcome (parsing_docs (documents s)) = Closed \<and>
      queue (parsing_docs (documents s)) = []"
  using assms by (auto simp: collect_inv_def Let_def)

text \<open>It is what the function \<open>readStreamToEnd\<close> gives on the documents of the reference semantics.\<close>

lemma collect_at_rest:
  assumes "collect_reachable s" and "source (decoding (reading (documents s))) = Closed"
    and "\<nexists>s'. collect_step s s'" and "ending (documents_so_far (documents s)) = Closed"
  shows "resolution s = readStreamToEnd js_truthy (documents_so_far (documents s))"
proof -
  let ?p = "parsing_docs (documents s)"
  have inv: "collect_inv s" by (rule collect_reachable_inv [OF assms(1)])
  then have d: "document_reachable (documents s)" and truthy: "\<forall>v \<in> set (results s). js_truthy v"
    by (simp_all add: collect_inv_def)
  have f: "follows ?p (documents_so_far (documents s))" by (rule document_follows [OF d])
  show ?thesis
  proof (cases "resolution s")
    case Pending
    with collect_settled [OF assms(1-3)] show ?thesis by simp
  next
    case (Rejected e)
    with inv have e: "outcome ?p = Errored e" by (simp add: collect_inv_def Let_def)
    moreover have "pipe_reachable parseJSONStream ?p"
      using document_reachable_inv [OF d] by (simp add: document_inv_def)
    ultimately have "queue ?p = []" by (rule errored_queue [rotated])
    then have "outcome ?p = Closed"
      using documents_at_rest [OF d assms(2) documents_quiet [OF assms(3)] assms(4)] by blast
    with e show ?thesis by simp
  next
    case (Fulfilled vs)
    note vs = collect_inv_fulfilled(1) [OF inv Fulfilled]
    from collect_inv_fulfilled(2) [OF inv Fulfilled] show ?thesis
    proof (elim disjE exE conjE)
      fix v assume v: "\<not> js_truthy v" "delivered ?p = vs @ [v]"
      with f obtain us where "chunks (documents_so_far (documents s)) = vs @ v # us"
        by (auto simp: follows_def prefix_def)
      with v(1) truthy vs Fulfilled show ?thesis
        by (simp add: readStreamToEnd_def pump_stops)
    next
      assume "delivered ?p = vs" "outcome ?p = Closed" "queue ?p = []"
      with f have "documents_so_far (documents s) = \<lparr>chunks = vs, ending = Closed\<rparr>"
        by (simp add: follows_def)
      with truthy vs Fulfilled show ?thesis by (simp add: readStreamToEnd_truthy)
    qed
  qed
qed

lemma collected_prefix:
  assumes "collect_reachable s"
  shows "prefix (results s) (chunks (documents_so_far (documents s)))"
proof -
  have inv: "collect_inv s" by (rule collect_reachable_inv [OF assms])
  then have "prefix (results s) (delivered (parsing_docs (documents s)))"
    by (cases "resolution s") (auto simp: collect_inv_def Let_def)
  moreover have "follows (parsing_docs (documents s)) (documents_so_far (documents s))"
    using inv by (intro document_follows) (simp add: collect_inv_def)
  ultimately show ?thesis
    by (auto simp: follows_def intro: prefix_order.trans)
qed

end
