(* ===== verification/Paced_Run.thy ===== *)
theory Paced_Run
  imports Collect_Run
begin

text \<open>
  The flow control of the Streams standard, on the run of \<open>Collect_Run\<close>. A transform stream holds at
  most one chunk that it has not taken and no chunk ahead of its reader: \<open>pipeTo\<close> passes on a chunk,
  the end or an error only to a stage that has taken the chunk before, and a stage calls
  \<open>transform\<close> only for a reader that waits. Closing does not wait for a reader. The moves of a run
  have names, and what a move does is a function. The cancellation by which \<open>pipeTo\<close> stops the
  stages before one that has failed is left out: nothing these stages do is read any more.
\<close>

section \<open>Moves\<close>

text \<open>The pipe into stage \<open>q\<close> waits for a chunk.\<close>

definition asks :: "('s, 'a, 'b) pipe \<Rightarrow> bool" where
  "asks q \<longleftrightarrow> source q = Open \<and> pending q = []"

text \<open>What stage \<open>p\<close> does when the reader behind it waits (\<open>waits\<close>) or does not.\<close>

fun stage_move :: "('s, 'a, 'b) transformer \<Rightarrow> bool \<Rightarrow> ('s, 'a, 'b) pipe \<Rightarrow> ('s, 'a, 'b) pipe option" where
  "stage_move T waits p =
     (if outcome p \<noteq> Open then None
      else case pending p of
        x # xs \<Rightarrow>
          if queue p = [] \<and> waits then
            Some (case ttransform T (tstate p) x of
                (s', ys, None) \<Rightarrow> p\<lparr>pending := xs, tstate := s', queue := ys\<rparr>
              | (s', ys, Some e) \<Rightarrow> p\<lparr>pending := xs, tstate := s', queue := [], outcome := Errored e\<rparr>)
          else None
      | [] \<Rightarrow>
          (case source p of
             Open \<Rightarrow> None
           | Closed \<Rightarrow> Some (case tflush T (tstate p) of
                 (ys, None) \<Rightarrow> p\<lparr>queue := queue p @ ys, outcome := Closed\<rparr>
               | (ys, Some e) \<Rightarrow> p\<lparr>queue := [], outcome := Errored e\<rparr>)
           | Errored e \<Rightarrow> Some (p\<lparr>queue := [], outcome := Errored e\<rparr>)))"

definition pipe_move ::
  "('s, 'a, 'b) pipe \<Rightarrow> ('t, 'b, 'c) pipe \<Rightarrow> (('s, 'a, 'b) pipe \<times> ('t, 'b, 'c) pipe) option" where
  "pipe_move p q =
     (if \<not> asks q then None
      else case queue p of
        y # ys \<Rightarrow> Some (p\<lparr>queue := ys, delivered := delivered p @ [y]\<rparr>,
                        q\<lparr>arrived := arrived q @ [y], pending := pending q @ [y]\<rparr>)
      | [] \<Rightarrow>
          (case outcome p of
             Open \<Rightarrow> None
           | en \<Rightarrow> Some (p, q\<lparr>source := en\<rparr>)))"

declare stage_move.simps [simp del]

text \<open>What the body does: a chunk comes, or its end, or it fails; the pipe reads it like any other.\<close>

datatype body_event = Arrives "byte list" | Ends ending

definition body_move ::
  "body_event \<Rightarrow> (text_decoder, byte list, js_string) pipe \<Rightarrow> (text_decoder, byte list, js_string) pipe option" where
  "body_move ev p =
     (if \<not> asks p then None
      else case ev of
        Arrives bs \<Rightarrow> Some (p\<lparr>arrived := arrived p @ [bs], pending := pending p @ [bs]\<rparr>)
      | Ends en \<Rightarrow> if en = Open then None else Some (p\<lparr>source := en\<rparr>))"

text \<open>What \<open>pump\<close> does with the read it waits for.\<close>

definition consumer_move :: "collect_state \<Rightarrow> collect_state option" where
  "consumer_move s =
     (if resolution s \<noteq> Pending then None
      else case queue (parsing_docs (documents s)) of
        v # vs \<Rightarrow>
          let d = take_chunk (documents s) v vs
          in Some (if js_truthy v then s\<lparr>documents := d, results := results s @ [v]\<rparr>
                   else s\<lparr>documents := d, resolution := Fulfilled (results s)\<rparr>)
      | [] \<Rightarrow>
          (case outcome (parsing_docs (documents s)) of
             Open \<Rightarrow> None
           | Closed \<Rightarrow> Some (s\<lparr>resolution := Fulfilled (results s)\<rparr>)
           | Errored e \<Rightarrow> Some (s\<lparr>resolution := Rejected e\<rparr>)))"

datatype move =
    Body body_event
  | Decode | Pipe_split | Split | Pipe_parse | Parse | Pipe_unwrap | Unwrap
  | Pipe_contents | Contents | Pipe_split_docs | Split_docs | Pipe_parse_docs | Parse_docs
  | Consume

fun read_move :: "bool \<Rightarrow> move \<Rightarrow> read_state \<Rightarrow> read_state option" where
  "read_move w (Body ev) r = map_option (\<lambda>p. r\<lparr>decoding := p\<rparr>) (body_move ev (decoding r))"
| "read_move w Decode r =
     map_option (\<lambda>p. r\<lparr>decoding := p\<rparr>) (stage_move text_decoder_stream (asks (splitting r)) (decoding r))"
| "read_move w Pipe_split r =
     map_option (\<lambda>(p, q). r\<lparr>decoding := p, splitting := q\<rparr>) (pipe_move (decoding r) (splitting r))"
| "read_move w Split r =
     map_option (\<lambda>p. r\<lparr>splitting := p\<rparr>) (stage_move (splitStream newline) (asks (parsing r)) (splitting r))"
| "read_move w Pipe_parse r =
     map_option (\<lambda>(p, q). r\<lparr>splitting := p, parsing := q\<rparr>) (pipe_move (splitting r) (parsing r))"
| "read_move w Parse r =
     map_option (\<lambda>p. r\<lparr>parsing := p\<rparr>) (stage_move parseJSONStream (asks (unwrapping r)) (parsing r))"
| "read_move w Pipe_unwrap r =
     map_option (\<lambda>(p, q). r\<lparr>parsing := p, unwrapping := q\<rparr>) (pipe_move (parsing r) (unwrapping r))"
| "read_move w Unwrap r =
     map_option (\<lambda>p. r\<lparr>unwrapping := p\<rparr>) (stage_move unwrapResult w (unwrapping r))"
| "read_move w _ r = None"

fun document_move :: "bool \<Rightarrow> move \<Rightarrow> document_state \<Rightarrow> document_state option" where
  "document_move w Pipe_contents d =
     map_option (\<lambda>(p, q). d\<lparr>reading := (reading d)\<lparr>unwrapping := p\<rparr>, contents := q\<rparr>)
       (pipe_move (unwrapping (reading d)) (contents d))"
| "document_move w Contents d =
     map_option (\<lambda>p. d\<lparr>contents := p\<rparr>) (stage_move decodeContent (asks (splitting_docs d)) (contents d))"
| "document_move w Pipe_split_docs d =
     map_option (\<lambda>(p, q). d\<lparr>contents := p, splitting_docs := q\<rparr>) (pipe_move (contents d) (splitting_docs d))"
| "document_move w Split_docs d =
     map_option (\<lambda>p. d\<lparr>splitting_docs := p\<rparr>)
       (stage_move (splitStream newline) (asks (parsing_docs d)) (splitting_docs d))"
| "document_move w Pipe_parse_docs d =
     map_option (\<lambda>(p, q). d\<lparr>splitting_docs := p, parsing_docs := q\<rparr>)
       (pipe_move (splitting_docs d) (parsing_docs d))"
| "document_move w Parse_docs d =
     map_option (\<lambda>p. d\<lparr>parsing_docs := p\<rparr>) (stage_move parseJSONStream w (parsing_docs d))"
| "document_move w m d = map_option (\<lambda>r. d\<lparr>reading := r\<rparr>) (read_move (asks (contents d)) m (reading d))"

text \<open>\<open>pump\<close> waits for a chunk as long as the promise is pending.\<close>

definition perform :: "move \<Rightarrow> collect_state \<Rightarrow> collect_state option" where
  "perform m s =
     (if m = Consume then consumer_move s
      else map_option (\<lambda>d. s\<lparr>documents := d\<rparr>) (document_move (resolution s = Pending) m (documents s)))"

fun perform_all :: "move list \<Rightarrow> collect_state \<Rightarrow> collect_state option" where
  "perform_all [] s = Some s"
| "perform_all (m # ms) s = Option.bind (perform m s) (perform_all ms)"

definition paced_reachable :: "collect_state \<Rightarrow> bool" where
  "paced_reachable s \<longleftrightarrow> (\<exists>ms. perform_all ms collect_init = Some s)"

fun from_body :: "move \<Rightarrow> bool" where
  "from_body (Body ev) = True"
| "from_body _ = False"

definition paced_step :: "collect_state \<Rightarrow> collect_state \<Rightarrow> bool" where
  "paced_step s s' \<longleftrightarrow> (\<exists>m. \<not> from_body m \<and> perform m s = Some s')"

section \<open>Every move is one of the run without flow control\<close>

lemma stage_move_inner:
  assumes "stage_move T w p = Some p'"
  shows "inner_step T p p'"
proof (cases "pending p")
  case Nil
  with assms show ?thesis
    by (cases "source p")
      (auto simp: stage_move.simps inner_step_def flush_returns flush_throws propagate
        split: if_splits prod.splits option.splits)
next
  case (Cons x xs)
  obtain s' ys e where "ttransform T (tstate p) x = (s', ys, e)" by (cases "ttransform T (tstate p) x")
  with Cons assms show ?thesis
    using transform_returns [of p x xs T s' ys] transform_throws [of p x xs T s' ys]
    by (cases e) (auto simp: stage_move.simps inner_step_def split: if_splits)
qed

lemma pipe_move_hop:
  assumes "pipe_move p q = Some (p', q')"
  shows "hop_step p q p' q'"
proof (cases "queue p")
  case Nil
  with assms show ?thesis
    by (cases "outcome p") (auto simp: pipe_move_def asks_def split: if_splits intro: pass_end pass_error)
next
  case (Cons y ys)
  with assms pass [of p y ys q] show ?thesis by (simp add: pipe_move_def asks_def split: if_splits)
qed

lemma body_move_env: "body_move ev p = Some p' \<Longrightarrow> env_step p p'"
proof (induction ev)
  case (Arrives bs)
  then show ?case using arrive [of p bs] by (auto simp: body_move_def asks_def split: if_splits)
next
  case (Ends en)
  then show ?case
    by (cases en) (auto simp: body_move_def asks_def split: if_splits intro: source_closes source_fails)
qed

lemma read_move_inner: "read_move w m r = Some r' \<Longrightarrow> \<not> from_body m \<Longrightarrow> read_inner r r'"
  by (cases m) (auto simp: read_inner_def inner_step_def dest!: stage_move_inner pipe_move_hop
    intro: read_step.intros elim: hop_stepE)

lemma in_read_inner: "read_inner (reading d) r \<Longrightarrow> documents_inner d (d\<lparr>reading := r\<rparr>)"
  by (simp add: documents_inner_def in_read)

lemma document_move_inner:
  "document_move w m d = Some d' \<Longrightarrow> \<not> from_body m \<Longrightarrow> documents_inner d d'"
  by (cases m) (auto simp del: read_move.simps intro!: in_read_inner dest!: read_move_inner,
    auto simp: documents_inner_def inner_step_def dest!: stage_move_inner pipe_move_hop
      intro: document_step.intros elim: hop_stepE)

lemma consumer_move_step: "consumer_move s = Some s' \<Longrightarrow> collect_step s s'"
  by (cases "queue (parsing_docs (documents s))"; cases "outcome (parsing_docs (documents s))")
    (auto simp: consumer_move_def Let_def split: if_splits intro: collect_step.intros)

lemma perform_step: "perform m s = Some s' \<Longrightarrow> \<not> from_body m \<Longrightarrow> collect_step s s'"
  by (auto simp: perform_def split: if_splits intro: consumer_move_step in_documents dest!: document_move_inner)

lemma body_perform:
  assumes "perform (Body ev) s = Some s'"
  obtains p where "env_step (decoding (reading (documents s))) p"
    and "s' = s\<lparr>documents := (documents s)\<lparr>reading := (reading (documents s))\<lparr>decoding := p\<rparr>\<rparr>\<rparr>"
  using assms by (auto simp: perform_def dest: body_move_env)

lemma perform_reachable:
  assumes "perform m s = Some s'" and "collect_reachable s"
  shows "collect_reachable s'"
proof (cases "from_body m")
  case True
  with assms show ?thesis by (cases m) (auto elim!: body_perform intro: collect_body)
next
  case False
  with assms show ?thesis by (blast intro: collect_moves perform_step)
qed

lemma perform_all_append:
  "perform_all (ms @ ns) s = Option.bind (perform_all ms s) (perform_all ns)"
  by (induction ms arbitrary: s) (auto split: bind_split)

lemma perform_all_reachable: "perform_all ms s = Some s' \<Longrightarrow> collect_reachable s \<Longrightarrow> collect_reachable s'"
  by (induction ms arbitrary: s) (auto simp: bind_eq_Some_conv dest: perform_reachable)

lemma paced_collects: "paced_reachable s \<Longrightarrow> collect_reachable s"
  unfolding paced_reachable_def by (blast intro: perform_all_reachable collect_starts)

lemma paced_step_collects: "paced_step s s' \<Longrightarrow> collect_step s s'"
  by (auto simp: paced_step_def dest: perform_step)

lemma paced_terminates: "wf {(s', s). paced_step s s'}"
  by (rule wf_subset [OF collect_terminates]) (auto dest: paced_step_collects)

section \<open>Memory\<close>

text \<open>
  A stage that makes at most \<open>k\<close> chunks of one, and at most \<open>l\<close> when it closes, never holds more than
  that.
\<close>

definition holds_few :: "nat \<Rightarrow> nat \<Rightarrow> ('s, 'a, 'b) pipe \<Rightarrow> bool" where
  "holds_few k l p \<longleftrightarrow> length (pending p) \<le> 1 \<and> length (queue p) \<le> k + (if outcome p = Open then 0 else l)"

lemma holds_few_init: "holds_few k l (pipe_init T)"
  by (simp add: holds_few_def pipe_init_def)

lemma holds_few_pipe:
  "pipe_move p q = Some (p', q') \<Longrightarrow> holds_few k l p \<Longrightarrow> holds_few k l p'"
  "pipe_move p q = Some (p', q') \<Longrightarrow> holds_few k l q \<Longrightarrow> holds_few k l q'"
  by (auto simp: pipe_move_def asks_def holds_few_def split: if_splits list.splits ending.splits)

lemma holds_few_body: "body_move ev p = Some p' \<Longrightarrow> holds_few k l p \<Longrightarrow> holds_few k l p'"
  by (auto simp: body_move_def asks_def holds_few_def split: if_splits body_event.splits)

lemma stage_pending: "stage_move T w p = Some p' \<Longrightarrow> length (pending p') \<le> length (pending p)"
  by (auto simp: stage_move.simps split: if_splits list.splits ending.splits prod.splits option.splits)

locale frugal_stage =
  fixes T :: "('s, 'a, 'b) transformer" and k l :: nat
  assumes few_chunks: "length (fst (snd (ttransform T s x))) \<le> k"
    and few_at_end: "length (fst (tflush T s)) \<le> l"
begin

lemma holds_few_stage:
  assumes "stage_move T w p = Some p'" and "holds_few k l p"
  shows "holds_few k l p'"
proof (cases "pending p")
  case Nil
  with assms few_at_end [of "tstate p"] show ?thesis
    by (cases "source p"; cases "tflush T (tstate p)"; cases "snd (tflush T (tstate p))")
      (auto simp: stage_move.simps holds_few_def split: if_splits)
next
  case (Cons x xs)
  obtain s' ys e where "ttransform T (tstate p) x = (s', ys, e)" by (cases "ttransform T (tstate p) x")
  with Cons assms few_chunks [of "tstate p" x] show ?thesis
    by (cases e) (auto simp: stage_move.simps holds_few_def split: if_splits)
qed

end

interpretation frugal_decoder: frugal_stage text_decoder_stream 1 1
  by unfold_locales (simp_all add: text_decoder_stream_def Let_def split: prod.split)

interpretation frugal_parse: frugal_stage parseJSONStream 1 0
  by unfold_locales (simp_all add: parseJSONStream_def split: sum.split)

interpretation frugal_unwrap: frugal_stage unwrapResult 1 0
  by unfold_locales (simp_all add: unwrapResult_def del: js_Cons split: sum.split)

text \<open>A message becomes at most one text.\<close>

lemma decode_message_few: "decode_message v = Inr ts \<Longrightarrow> length ts \<le> 1"
  by (auto simp: decode_message_def bindC_Inr_iff simp del: js_Cons split: if_splits)

interpretation frugal_contents: frugal_stage decodeContent 1 0
  by unfold_locales (auto simp: decodeContent_def dest: decode_message_few split: sum.split)

definition read_holds :: "read_state \<Rightarrow> bool" where
  "read_holds r \<longleftrightarrow> holds_few 1 1 (decoding r) \<and> length (pending (splitting r)) \<le> 1 \<and>
     holds_few 1 0 (parsing r) \<and> holds_few 1 0 (unwrapping r)"

definition documents_hold :: "document_state \<Rightarrow> bool" where
  "documents_hold d \<longleftrightarrow> read_holds (reading d) \<and> holds_few 1 0 (contents d) \<and>
     length (pending (splitting_docs d)) \<le> 1 \<and> holds_few 1 0 (parsing_docs d)"

lemmas holds_few_moves = frugal_decoder.holds_few_stage frugal_parse.holds_few_stage
  frugal_unwrap.holds_few_stage frugal_contents.holds_few_stage holds_few_pipe holds_few_body

lemma one_pending:
  "pipe_move p q = Some (p', q') \<Longrightarrow> length (pending p) \<le> 1 \<Longrightarrow> length (pending p') \<le> 1"
  "pipe_move p q = Some (p', q') \<Longrightarrow> length (pending q') \<le> 1"
  "stage_move T w p = Some p' \<Longrightarrow> length (pending p) \<le> 1 \<Longrightarrow> length (pending p') \<le> 1"
  using stage_pending [of T w p p']
  by (auto simp: pipe_move_def asks_def split: if_splits list.splits ending.splits)

lemma read_move_holds: "read_move w m r = Some r' \<Longrightarrow> read_holds r \<Longrightarrow> read_holds r'"
  by (cases m) (auto simp: read_holds_def dest: holds_few_moves one_pending)

lemma document_move_holds: "document_move w m d = Some d' \<Longrightarrow> documents_hold d \<Longrightarrow> documents_hold d'"
  by (cases m) (auto simp: documents_hold_def simp del: read_move.simps dest: read_move_holds,
    auto simp: read_holds_def dest: holds_few_moves one_pending)

lemma consumer_move_documents:
  "consumer_move s = Some s' \<Longrightarrow> documents s' = documents s
     \<or> (\<exists>v vs. queue (parsing_docs (documents s)) = v # vs \<and> documents s' = take_chunk (documents s) v vs)"
  by (auto simp: consumer_move_def Let_def split: if_splits list.splits ending.splits)

lemma perform_holds: "perform m s = Some s' \<Longrightarrow> documents_hold (documents s) \<Longrightarrow> documents_hold (documents s')"
  by (auto simp: perform_def split: if_splits dest: document_move_holds dest!: consumer_move_documents)
    (auto simp: documents_hold_def take_chunk_def holds_few_def)

lemma perform_all_holds:
  "perform_all ms s = Some s' \<Longrightarrow> documents_hold (documents s) \<Longrightarrow> documents_hold (documents s')"
  by (induction ms arbitrary: s) (auto simp: bind_eq_Some_conv dest: perform_holds)

lemma start_holds: "documents_hold (documents collect_init)"
  by (simp add: collect_init_def document_init_def read_init_def documents_hold_def read_holds_def holds_few_init)
    (simp add: pipe_init_def)

lemma paced_holds: "paced_reachable s \<Longrightarrow> documents_hold (documents s)"
  unfolding paced_reachable_def by (blast intro: perform_all_holds start_holds)

section \<open>Nothing is held back\<close>

text \<open>A stage with nothing to do.\<close>

definition idle :: "('s, 'a, 'b) pipe \<Rightarrow> bool" where
  "idle p \<longleftrightarrow> source p = Open \<and> pending p = [] \<and> queue p = [] \<and> outcome p = Open"

lemma idle_asks: "idle p \<Longrightarrow> asks p"
  by (simp add: idle_def asks_def)

lemma rest_idle:
  assumes "stage_move T True p = None" and "queue p = []" and "outcome p = Open"
  shows "idle p"
  using assms
  by (cases "source p") (auto simp: idle_def stage_move.simps split: if_splits list.splits)

lemma rest_idle_before:
  assumes "idle q" and "pipe_move p q = None" and "stage_move T (asks q) p = None"
  shows "idle p"
proof (rule rest_idle)
  show "stage_move T True p = None" using assms(1,3) by (simp add: idle_asks)
  show "queue p = []" and "outcome p = Open"
    using assms(1,2) idle_asks [of q]
    by (auto simp: pipe_move_def split: list.splits ending.splits)
qed

text \<open>An idle stage has delivered all that the reference semantics makes of what has arrived.\<close>

lemma idle_complete:
  assumes "pipe_reachable T p" and "idle p" and "linked p q" and "idle q"
  shows "history q = pipeThrough (history p) T"
  using delivered_when_idle [OF assms(1)] assms(2-) by (simp add: idle_def history_def linked_def)

definition all_idle :: "document_state \<Rightarrow> bool" where
  "all_idle d \<longleftrightarrow> idle (decoding (reading d)) \<and> idle (splitting (reading d)) \<and> idle (parsing (reading d)) \<and>
     idle (unwrapping (reading d)) \<and> idle (contents d) \<and> idle (splitting_docs d) \<and> idle (parsing_docs d)"

lemma rest_moves: "(\<nexists>s'. paced_step s s') \<Longrightarrow> \<not> from_body m \<Longrightarrow> perform m s = None"
  by (cases "perform m s") (auto simp: paced_step_def)

lemma rest_all_idle:
  assumes "\<nexists>s'. paced_step s s'" and "resolution s = Pending"
  shows "all_idle (documents s)"
proof -
  let ?d = "documents s"
  let ?r = "reading ?d"
  note rest = rest_moves [OF assms(1)]
  have "queue (parsing_docs ?d) = []" "outcome (parsing_docs ?d) = Open"
    using rest [of Consume] assms(2)
    by (auto simp: perform_def consumer_move_def Let_def split: list.splits ending.splits)
  moreover have none: "document_move True m ?d = None" if "\<not> from_body m" "m \<noteq> Consume" for m
    using rest [OF that(1)] that(2) assms(2) by (simp add: perform_def)
  ultimately have g: "idle (parsing_docs ?d)"
    using none [of Parse_docs] rest_idle by auto
  have f: "idle (splitting_docs ?d)"
    by (rule rest_idle_before [OF g none [of Pipe_parse_docs, simplified] none [of Split_docs, simplified]])
  have e: "idle (contents ?d)"
    by (rule rest_idle_before [OF f none [of Pipe_split_docs, simplified] none [of Contents, simplified]])
  have d: "idle (unwrapping ?r)"
    by (rule rest_idle_before [OF e none [of Pipe_contents, simplified] none [of Unwrap, simplified]])
  have c: "idle (parsing ?r)"
    by (rule rest_idle_before [OF d none [of Pipe_unwrap, simplified] none [of Parse, simplified]])
  have b: "idle (splitting ?r)"
    by (rule rest_idle_before [OF c none [of Pipe_parse, simplified] none [of Split, simplified]])
  have "idle (decoding ?r)"
    by (rule rest_idle_before [OF b none [of Pipe_split, simplified] none [of Decode, simplified]])
  with b c d e f g show ?thesis by (simp add: all_idle_def)
qed

text \<open>At rest with the promise pending, the array holds all documents of the bytes that have come.\<close>

lemma idle_documents:
  assumes "document_reachable d" and "all_idle d"
  shows "documents_so_far d = \<lparr>chunks = delivered (parsing_docs d), ending = Open\<rparr>"
proof -
  let ?r = "reading d"
  note inv = document_reachable_inv [OF assms(1), unfolded document_inv_def]
  have read: "read_inv ?r" using inv by (blast intro: read_reachable_inv)
  note idle = assms(2) [unfolded all_idle_def]
  have "history (splitting ?r) = pipeThrough (body_so_far ?r) text_decoder_stream"
    using read idle unfolding read_inv_def body_so_far_def by (blast intro: idle_complete)
  moreover have "history (parsing ?r) = pipeThrough (history (splitting ?r)) (splitStream newline)"
    using read idle unfolding read_inv_def by (blast intro: idle_complete)
  moreover have "history (unwrapping ?r) = pipeThrough (history (parsing ?r)) parseJSONStream"
    using read idle unfolding read_inv_def by (blast intro: idle_complete)
  moreover have "history (contents d) = pipeThrough (history (unwrapping ?r)) unwrapResult"
    using read inv idle unfolding read_inv_def by (blast intro: idle_complete)
  moreover have "history (splitting_docs d) = pipeThrough (history (contents d)) decodeContent"
    using inv idle by (blast intro: idle_complete)
  moreover have "history (parsing_docs d) = pipeThrough (history (splitting_docs d)) (splitStream newline)"
    using inv idle by (blast intro: idle_complete)
  moreover have "pipeThrough (history (parsing_docs d)) parseJSONStream = \<lparr>chunks = delivered (parsing_docs d), ending = Open\<rparr>"
    using inv idle unfolding idle_def by (blast intro: delivered_when_idle)
  ultimately show ?thesis
    by (simp add: documents_so_far_def read_pipeline_def parseJournalDocuments_def)
qed

lemma paced_rest_pending:
  assumes "paced_reachable s" and "\<nexists>s'. paced_step s s'" and "resolution s = Pending"
  shows "source (decoding (reading (documents s))) = Open
    \<and> documents_so_far (documents s) = \<lparr>chunks = results s, ending = Open\<rparr>"
proof -
  have inv: "collect_inv s" by (rule collect_reachable_inv [OF paced_collects [OF assms(1)]])
  then have "document_reachable (documents s)" and d: "delivered (parsing_docs (documents s)) = results s"
    using assms(3) by (simp_all add: collect_inv_def Let_def)
  moreover have idle: "all_idle (documents s)" by (rule rest_all_idle [OF assms(2,3)])
  ultimately have "documents_so_far (documents s) = \<lparr>chunks = results s, ending = Open\<rparr>"
    using idle_documents by fastforce
  with idle show ?thesis by (simp add: all_idle_def idle_def)
qed

lemma paced_step_reachable:
  assumes "paced_step s s'" and "paced_reachable s"
  shows "paced_reachable s'"
proof -
  obtain ms m where "perform_all ms collect_init = Some s" "perform m s = Some s'"
    using assms by (auto simp: paced_reachable_def paced_step_def)
  then have "perform_all (ms @ [m]) collect_init = Some s'" by (simp add: perform_all_append)
  then show ?thesis unfolding paced_reachable_def by blast
qed

lemma paced_steps_reachable:
  "paced_step\<^sup>*\<^sup>* s s' \<Longrightarrow> paced_reachable s \<Longrightarrow> paced_reachable s' \<and>
     documents_so_far (documents s') = documents_so_far (documents s) \<and>
     source (decoding (reading (documents s'))) = source (decoding (reading (documents s)))"
proof (induction rule: rtranclp_induct)
  case (step r s')
  then have "body_so_far (reading (documents s')) = body_so_far (reading (documents r))"
    by (blast dest: paced_step_collects collect_step_body)
  with step show ?case
    by (auto simp: documents_so_far_def body_so_far_def history_def intro: paced_step_reachable)
qed simp

section \<open>A settled promise\<close>

lemma collect_settled_stays:
  "collect_step s s' \<Longrightarrow> resolution s \<noteq> Pending \<Longrightarrow> resolution s' = resolution s \<and> results s' = results s"
  by (induction rule: collect_step.induct) auto

lemma collect_steps_settled:
  "collect_step\<^sup>*\<^sup>* s s' \<Longrightarrow> resolution s \<noteq> Pending \<Longrightarrow> resolution s' = resolution s \<and> results s' = results s"
  by (induction rule: rtranclp_induct) (auto dest: collect_settled_stays)

text \<open>It is what it would be without flow control.\<close>

lemma paced_rest_settled:
  assumes "paced_reachable s" and "\<nexists>s'. paced_step s s'"
    and "source (decoding (reading (documents s))) = Closed"
    and "ending (documents_so_far (documents s)) = Closed"
  shows "resolution s = readStreamToEnd js_truthy (documents_so_far (documents s))"
proof -
  have s: "collect_reachable s" by (rule paced_collects [OF assms(1)])
  obtain r where r: "collect_step\<^sup>*\<^sup>* s r" "\<nexists>r'. collect_step r r'"
    using collect_rests by blast
  have "resolution s \<noteq> Pending" using paced_rest_pending [OF assms(1,2)] assms(3) by auto
  then have "resolution r = resolution s" using collect_steps_settled [OF r(1)] by blast
  moreover have "collect_reachable r" and same: "body_so_far (reading (documents r)) = body_so_far (reading (documents s))"
    using collect_steps_reachable [OF r(1) s] by auto
  moreover have "source (decoding (reading (documents r))) = Closed"
    using same assms(3) by (simp add: body_so_far_def history_def)
  moreover have "documents_so_far (documents r) = documents_so_far (documents s)"
    by (simp add: documents_so_far_def same)
  ultimately show ?thesis using collect_at_rest [of r] r(2) assms(4) by metis
qed

text \<open>
  After that nothing is read: the last stage takes no chunk any more, at most one is passed to it,
  and when every stage has a chunk waiting the pipeline stands still, with the body still open.
\<close>

definition stalled :: "collect_state \<Rightarrow> bool" where
  "stalled s \<longleftrightarrow> resolution s \<noteq> Pending \<and>
     (let d = documents s; r = reading d in
      pending (decoding r) \<noteq> [] \<and> pending (splitting r) \<noteq> [] \<and> pending (parsing r) \<noteq> [] \<and>
      pending (unwrapping r) \<noteq> [] \<and> pending (contents d) \<noteq> [] \<and> pending (splitting_docs d) \<noteq> [] \<and>
      pending (parsing_docs d) \<noteq> [])"

lemma stage_waits: "pending p \<noteq> [] \<Longrightarrow> stage_move T False p = None"
  by (cases "pending p") (simp_all add: stage_move.simps)

lemma not_asks: "pending q \<noteq> [] \<Longrightarrow> \<not> asks q"
  by (simp add: asks_def)

lemma stalled_for_ever: "stalled s \<Longrightarrow> perform m s = None"
  by (cases m) (simp_all add: perform_def stalled_def Let_def consumer_move_def pipe_move_def body_move_def
    not_asks stage_waits)

definition takes_no_more :: "('s, 'a, 'b) pipe \<Rightarrow> ('s, 'a, 'b) pipe \<Rightarrow> bool" where
  "takes_no_more p p' \<longleftrightarrow> delivered p' = delivered p \<and>
     (arrived p' = arrived p \<and> pending p' = pending p
      \<or> pending p = [] \<and> (\<exists>x. arrived p' = arrived p @ [x] \<and> pending p' = [x]))"

lemma takes_no_more_refl: "takes_no_more p p"
  by (simp add: takes_no_more_def)

lemma takes_no_more_trans: "takes_no_more p q \<Longrightarrow> takes_no_more q r \<Longrightarrow> takes_no_more p r"
  by (auto simp: takes_no_more_def)

lemma stage_takes_no_more: "stage_move T False p = Some p' \<Longrightarrow> takes_no_more p p'"
  by (auto simp: takes_no_more_def stage_move.simps split: if_splits list.splits ending.splits prod.splits option.splits)

lemma pipe_takes_no_more: "pipe_move o' p = Some (o'', p') \<Longrightarrow> takes_no_more p p'"
  by (auto simp: takes_no_more_def pipe_move_def asks_def split: if_splits list.splits ending.splits)

lemma document_takes_no_more:
  "document_move False m d = Some d' \<Longrightarrow> takes_no_more (parsing_docs d) (parsing_docs d')"
  by (cases m) (auto simp: takes_no_more_refl dest: stage_takes_no_more pipe_takes_no_more)

lemma settled_perform:
  "perform m s = Some s' \<Longrightarrow> resolution s \<noteq> Pending \<Longrightarrow> resolution s' = resolution s \<and> results s' = results s \<and>
     takes_no_more (parsing_docs (documents s)) (parsing_docs (documents s'))"
  by (auto simp: perform_def consumer_move_def split: if_splits dest: document_takes_no_more)

lemma settled_perform_all:
  "perform_all ms s = Some s' \<Longrightarrow> resolution s \<noteq> Pending \<Longrightarrow>
     resolution s' = resolution s \<and> results s' = results s \<and>
     takes_no_more (parsing_docs (documents s)) (parsing_docs (documents s'))"
proof (induction ms arbitrary: s)
  case (Cons m ms)
  then obtain t where t: "perform m s = Some t" "perform_all ms t = Some s'"
    by (auto simp: bind_eq_Some_conv)
  from settled_perform [OF t(1) Cons.prems(2)] Cons.IH [OF t(2)] Cons.prems(2) show ?case
    by (auto intro: takes_no_more_trans)
qed (simp add: takes_no_more_refl)

section \<open>A run to a standstill\<close>

text \<open>
  Six messages with a document each in the first chunk of the body, and two more chunks: the first
  document is falsy.
\<close>

definition standstill :: "byte list \<Rightarrow> byte list \<Rightarrow> byte list \<Rightarrow> move list" where
  "standstill c c' c'' =
     [Body (Arrives c), Decode, Pipe_split, Split,
      Pipe_parse, Parse, Pipe_unwrap, Unwrap, Pipe_contents, Contents, Pipe_split_docs, Split_docs,
      Pipe_parse_docs, Parse_docs, Consume,
      Pipe_parse, Parse, Pipe_unwrap, Unwrap, Pipe_contents, Contents, Pipe_split_docs, Split_docs,
      Pipe_parse_docs,
      Pipe_parse, Parse, Pipe_unwrap, Unwrap, Pipe_contents, Contents, Pipe_split_docs,
      Pipe_parse, Parse, Pipe_unwrap, Unwrap, Pipe_contents,
      Pipe_parse, Parse, Pipe_unwrap,
      Pipe_parse,
      Body (Arrives c'), Decode, Pipe_split, Body (Arrives c'')]"

lemma stage_takes:
  "outcome p = Open \<Longrightarrow> pending p = x # xs \<Longrightarrow> queue p = [] \<Longrightarrow> ttransform T (tstate p) x = (s', ys, None) \<Longrightarrow>
     stage_move T True p = Some (p\<lparr>pending := xs, tstate := s', queue := ys\<rparr>)"
  by (simp add: stage_move.simps)

lemma standstill_run:
  assumes "ttransform text_decoder_stream (tstart text_decoder_stream) c = (ds, [t], None)"
    and "ttransform text_decoder_stream ds c' = (ds', [t'], None)"
    and "ttransform (splitStream newline) (tstart (splitStream newline)) t = (ss, [l, l, l, l, l, l], None)"
    and "\<And>u. ttransform parseJSONStream u l = (u, [v], None)"
    and "\<And>u. ttransform unwrapResult u v = (u, [m], None)"
    and "\<And>u. ttransform decodeContent u m = (u, [txt], None)"
    and "ttransform (splitStream newline) (tstart (splitStream newline)) txt = (tstart (splitStream newline), [doc], None)"
    and "\<And>u. ttransform parseJSONStream u doc = (u, [d], None)" and "\<not> js_truthy d"
  shows "\<exists>s. perform_all (standstill c c' c'') collect_init = Some s \<and> stalled s
    \<and> resolution s = Fulfilled [] \<and> source (decoding (reading (documents s))) = Open"
  unfolding standstill_def
  by (simp add: perform_def stage_takes pipe_move_def asks_def body_move_def consumer_move_def
      take_chunk_def collect_init_def document_init_def read_init_def pipe_init_def stalled_def assms)

end
