(* ===== verification/Consumer_Types.thy ===== *)
theory Consumer_Types
  imports Wire_Format
begin

text \<open>
  The interfaces of \<open>client/src/gen/consumer/protocol/consumer.ts\<close>, modelled as those of
  \<open>Broker_Types\<close>. The file declares its own copies of the types it shares with the broker,
  and so does this theory: \<open>Consumer_Types.ProtocolHeader\<close> is \<open>consumer.ProtocolHeader\<close>.
\<close>


section \<open>Types of the calls the client makes\<close>

record HeaderEtcd =
  clusterId :: "js_string option"
  memberId :: "js_string option"
  revision :: "js_string option"
  raftTerm :: "js_string option"

definition json_of_HeaderEtcd :: "HeaderEtcd \<Rightarrow> jsval" where
  "json_of_HeaderEtcd r = json_object
     [(js ''clusterId'', map_option JStr (HeaderEtcd.clusterId r)),
      (js ''memberId'', map_option JStr (HeaderEtcd.memberId r)),
      (js ''revision'', map_option JStr (HeaderEtcd.revision r)),
      (js ''raftTerm'', map_option JStr (HeaderEtcd.raftTerm r))]"

lemma wf_json_of_Consumer_Types_HeaderEtcd [wf_encoders]: "wf_json (json_of_HeaderEtcd r)"
  unfolding json_of_HeaderEtcd_def
  by (intro wf_json_object) (auto simp: js_inject some_map_option intro: wf_encoders simp del: js_Cons js_Nil)

record ConsumerShardSpecSource =
  journal :: "js_string option"
  minOffset :: "js_string option"

definition json_of_ConsumerShardSpecSource :: "ConsumerShardSpecSource \<Rightarrow> jsval" where
  "json_of_ConsumerShardSpecSource r = json_object
     [(js ''journal'', map_option JStr (ConsumerShardSpecSource.journal r)),
      (js ''minOffset'', map_option JStr (ConsumerShardSpecSource.minOffset r))]"

lemma wf_json_of_Consumer_Types_ConsumerShardSpecSource [wf_encoders]: "wf_json (json_of_ConsumerShardSpecSource r)"
  unfolding json_of_ConsumerShardSpecSource_def
  by (intro wf_json_object) (auto simp: js_inject some_map_option intro: wf_encoders simp del: js_Cons js_Nil)

record ProtocolLabel =
  name :: "js_string option"
  value' :: "js_string option"

definition json_of_ProtocolLabel :: "ProtocolLabel \<Rightarrow> jsval" where
  "json_of_ProtocolLabel r = json_object
     [(js ''name'', map_option JStr (ProtocolLabel.name r)),
      (js ''value'', map_option JStr (ProtocolLabel.value' r))]"

lemma wf_json_of_Consumer_Types_ProtocolLabel [wf_encoders]: "wf_json (json_of_ProtocolLabel r)"
  unfolding json_of_ProtocolLabel_def
  by (intro wf_json_object) (auto simp: js_inject some_map_option intro: wf_encoders simp del: js_Cons js_Nil)

record ProtocolLabelSet =
  labels :: "ProtocolLabel list option"

definition json_of_ProtocolLabelSet :: "ProtocolLabelSet \<Rightarrow> jsval" where
  "json_of_ProtocolLabelSet r = json_object
     [(js ''labels'', map_option (json_array json_of_ProtocolLabel) (ProtocolLabelSet.labels r))]"

lemma wf_json_of_Consumer_Types_ProtocolLabelSet [wf_encoders]: "wf_json (json_of_ProtocolLabelSet r)"
  unfolding json_of_ProtocolLabelSet_def
  by (intro wf_json_object) (auto simp: js_inject some_map_option intro: wf_encoders simp del: js_Cons js_Nil)

record ConsumerShardSpec =
  id' :: "js_string option"
  sources :: "ConsumerShardSpecSource list option"
  recoveryLogPrefix :: "js_string option"
  hintPrefix :: "js_string option"
  hintBackups :: "int option"
  maxTxnDuration :: "js_string option"
  minTxnDuration :: "js_string option"
  disable :: "bool option"
  hotStandbys :: "int option"
  labels :: "ProtocolLabelSet option"
  disableWaitForAck :: "bool option"
  ringBufferSize :: "int option"
  readChannelSize :: "int option"

definition json_of_ConsumerShardSpec :: "ConsumerShardSpec \<Rightarrow> jsval" where
  "json_of_ConsumerShardSpec r = json_object
     [(js ''id'', map_option JStr (ConsumerShardSpec.id' r)),
      (js ''sources'', map_option (json_array json_of_ConsumerShardSpecSource) (ConsumerShardSpec.sources r)),
      (js ''recoveryLogPrefix'', map_option JStr (ConsumerShardSpec.recoveryLogPrefix r)),
      (js ''hintPrefix'', map_option JStr (ConsumerShardSpec.hintPrefix r)),
      (js ''hintBackups'', map_option json_int (ConsumerShardSpec.hintBackups r)),
      (js ''maxTxnDuration'', map_option JStr (ConsumerShardSpec.maxTxnDuration r)),
      (js ''minTxnDuration'', map_option JStr (ConsumerShardSpec.minTxnDuration r)),
      (js ''disable'', map_option JBool (ConsumerShardSpec.disable r)),
      (js ''hotStandbys'', map_option json_int (ConsumerShardSpec.hotStandbys r)),
      (js ''labels'', map_option json_of_ProtocolLabelSet (ConsumerShardSpec.labels r)),
      (js ''disableWaitForAck'', map_option JBool (ConsumerShardSpec.disableWaitForAck r)),
      (js ''ringBufferSize'', map_option json_int (ConsumerShardSpec.ringBufferSize r)),
      (js ''readChannelSize'', map_option json_int (ConsumerShardSpec.readChannelSize r))]"

lemma wf_json_of_Consumer_Types_ConsumerShardSpec [wf_encoders]: "wf_json (json_of_ConsumerShardSpec r)"
  unfolding json_of_ConsumerShardSpec_def
  by (intro wf_json_object) (auto simp: js_inject some_map_option intro: wf_encoders simp del: js_Cons js_Nil)

record ProcessSpecID =
  zone :: "js_string option"
  suffix' :: "js_string option"

definition json_of_ProcessSpecID :: "ProcessSpecID \<Rightarrow> jsval" where
  "json_of_ProcessSpecID r = json_object
     [(js ''zone'', map_option JStr (ProcessSpecID.zone r)),
      (js ''suffix'', map_option JStr (ProcessSpecID.suffix' r))]"

lemma wf_json_of_Consumer_Types_ProcessSpecID [wf_encoders]: "wf_json (json_of_ProcessSpecID r)"
  unfolding json_of_ProcessSpecID_def
  by (intro wf_json_object) (auto simp: js_inject some_map_option intro: wf_encoders simp del: js_Cons js_Nil)

record ProtocolRoute =
  members :: "ProcessSpecID list option"
  primary :: "int option"
  endpoints :: "js_string list option"

definition json_of_ProtocolRoute :: "ProtocolRoute \<Rightarrow> jsval" where
  "json_of_ProtocolRoute r = json_object
     [(js ''members'', map_option (json_array json_of_ProcessSpecID) (ProtocolRoute.members r)),
      (js ''primary'', map_option json_int (ProtocolRoute.primary r)),
      (js ''endpoints'', map_option (json_array JStr) (ProtocolRoute.endpoints r))]"

lemma wf_json_of_Consumer_Types_ProtocolRoute [wf_encoders]: "wf_json (json_of_ProtocolRoute r)"
  unfolding json_of_ProtocolRoute_def
  by (intro wf_json_object) (auto simp: js_inject some_map_option intro: wf_encoders simp del: js_Cons js_Nil)

datatype ReplicaStatusCode =
    IDLE
  | BACKFILL
  | STANDBY
  | PRIMARY
  | FAILED

fun ReplicaStatusCode_name :: "ReplicaStatusCode \<Rightarrow> string" where
  "ReplicaStatusCode_name ReplicaStatusCode.IDLE = ''IDLE''"
| "ReplicaStatusCode_name ReplicaStatusCode.BACKFILL = ''BACKFILL''"
| "ReplicaStatusCode_name ReplicaStatusCode.STANDBY = ''STANDBY''"
| "ReplicaStatusCode_name ReplicaStatusCode.PRIMARY = ''PRIMARY''"
| "ReplicaStatusCode_name ReplicaStatusCode.FAILED = ''FAILED''"

definition json_of_ReplicaStatusCode :: "ReplicaStatusCode \<Rightarrow> jsval" where
  "json_of_ReplicaStatusCode s = JStr (js (ReplicaStatusCode_name s))"

lemma wf_json_of_Consumer_Types_ReplicaStatusCode [wf_encoders]: "wf_json (json_of_ReplicaStatusCode s)"
  by (simp add: json_of_ReplicaStatusCode_def)

record ConsumerReplicaStatus =
  code :: "ReplicaStatusCode option"
  errors :: "js_string list option"

definition json_of_ConsumerReplicaStatus :: "ConsumerReplicaStatus \<Rightarrow> jsval" where
  "json_of_ConsumerReplicaStatus r = json_object
     [(js ''code'', map_option json_of_ReplicaStatusCode (ConsumerReplicaStatus.code r)),
      (js ''errors'', map_option (json_array JStr) (ConsumerReplicaStatus.errors r))]"

lemma wf_json_of_Consumer_Types_ConsumerReplicaStatus [wf_encoders]: "wf_json (json_of_ConsumerReplicaStatus r)"
  unfolding json_of_ConsumerReplicaStatus_def
  by (intro wf_json_object) (auto simp: js_inject some_map_option intro: wf_encoders simp del: js_Cons js_Nil)

record ListResponseShard =
  spec :: "ConsumerShardSpec option"
  modRevision :: "js_string option"
  route :: "ProtocolRoute option"
  status :: "ConsumerReplicaStatus list option"

definition json_of_ListResponseShard :: "ListResponseShard \<Rightarrow> jsval" where
  "json_of_ListResponseShard r = json_object
     [(js ''spec'', map_option json_of_ConsumerShardSpec (ListResponseShard.spec r)),
      (js ''modRevision'', map_option JStr (ListResponseShard.modRevision r)),
      (js ''route'', map_option json_of_ProtocolRoute (ListResponseShard.route r)),
      (js ''status'', map_option (json_array json_of_ConsumerReplicaStatus) (ListResponseShard.status r))]"

lemma wf_json_of_Consumer_Types_ListResponseShard [wf_encoders]: "wf_json (json_of_ListResponseShard r)"
  unfolding json_of_ListResponseShard_def
  by (intro wf_json_object) (auto simp: js_inject some_map_option intro: wf_encoders simp del: js_Cons js_Nil)

datatype ConsumerStatus =
    OK
  | SHARD_NOT_FOUND
  | NO_SHARD_PRIMARY
  | NOT_SHARD_PRIMARY
  | ETCD_TRANSACTION_FAILED
  | SHARD_STOPPED

fun ConsumerStatus_name :: "ConsumerStatus \<Rightarrow> string" where
  "ConsumerStatus_name ConsumerStatus.OK = ''OK''"
| "ConsumerStatus_name ConsumerStatus.SHARD_NOT_FOUND = ''SHARD_NOT_FOUND''"
| "ConsumerStatus_name ConsumerStatus.NO_SHARD_PRIMARY = ''NO_SHARD_PRIMARY''"
| "ConsumerStatus_name ConsumerStatus.NOT_SHARD_PRIMARY = ''NOT_SHARD_PRIMARY''"
| "ConsumerStatus_name ConsumerStatus.ETCD_TRANSACTION_FAILED = ''ETCD_TRANSACTION_FAILED''"
| "ConsumerStatus_name ConsumerStatus.SHARD_STOPPED = ''SHARD_STOPPED''"

definition json_of_ConsumerStatus :: "ConsumerStatus \<Rightarrow> jsval" where
  "json_of_ConsumerStatus s = JStr (js (ConsumerStatus_name s))"

lemma wf_json_of_Consumer_Types_ConsumerStatus [wf_encoders]: "wf_json (json_of_ConsumerStatus s)"
  by (simp add: json_of_ConsumerStatus_def)

record ProtocolHeader =
  processId :: "ProcessSpecID option"
  route :: "ProtocolRoute option"
  etcd :: "HeaderEtcd option"

definition json_of_ProtocolHeader :: "ProtocolHeader \<Rightarrow> jsval" where
  "json_of_ProtocolHeader r = json_object
     [(js ''processId'', map_option json_of_ProcessSpecID (ProtocolHeader.processId r)),
      (js ''route'', map_option json_of_ProtocolRoute (ProtocolHeader.route r)),
      (js ''etcd'', map_option json_of_HeaderEtcd (ProtocolHeader.etcd r))]"

lemma wf_json_of_Consumer_Types_ProtocolHeader [wf_encoders]: "wf_json (json_of_ProtocolHeader r)"
  unfolding json_of_ProtocolHeader_def
  by (intro wf_json_object) (auto simp: js_inject some_map_option intro: wf_encoders simp del: js_Cons js_Nil)

record ProtocolLabelSelector =
  include' :: "ProtocolLabelSet option"
  exclude' :: "ProtocolLabelSet option"

definition json_of_ProtocolLabelSelector :: "ProtocolLabelSelector \<Rightarrow> jsval" where
  "json_of_ProtocolLabelSelector r = json_object
     [(js ''include'', map_option json_of_ProtocolLabelSet (ProtocolLabelSelector.include' r)),
      (js ''exclude'', map_option json_of_ProtocolLabelSet (ProtocolLabelSelector.exclude' r))]"

lemma wf_json_of_Consumer_Types_ProtocolLabelSelector [wf_encoders]: "wf_json (json_of_ProtocolLabelSelector r)"
  unfolding json_of_ProtocolLabelSelector_def
  by (intro wf_json_object) (auto simp: js_inject some_map_option intro: wf_encoders simp del: js_Cons js_Nil)

record ConsumerListRequest =
  selector :: "ProtocolLabelSelector option"
  extension :: "js_string option"

definition json_of_ConsumerListRequest :: "ConsumerListRequest \<Rightarrow> jsval" where
  "json_of_ConsumerListRequest r = json_object
     [(js ''selector'', map_option json_of_ProtocolLabelSelector (ConsumerListRequest.selector r)),
      (js ''extension'', map_option JStr (ConsumerListRequest.extension r))]"

lemma wf_json_of_Consumer_Types_ConsumerListRequest [wf_encoders]: "wf_json (json_of_ConsumerListRequest r)"
  unfolding json_of_ConsumerListRequest_def
  by (intro wf_json_object) (auto simp: js_inject some_map_option intro: wf_encoders simp del: js_Cons js_Nil)

record ConsumerListResponse =
  status :: "ConsumerStatus option"
  header :: "ProtocolHeader option"
  shards :: "ListResponseShard list option"
  extension :: "js_string option"

definition json_of_ConsumerListResponse :: "ConsumerListResponse \<Rightarrow> jsval" where
  "json_of_ConsumerListResponse r = json_object
     [(js ''status'', map_option json_of_ConsumerStatus (ConsumerListResponse.status r)),
      (js ''header'', map_option json_of_ProtocolHeader (ConsumerListResponse.header r)),
      (js ''shards'', map_option (json_array json_of_ListResponseShard) (ConsumerListResponse.shards r)),
      (js ''extension'', map_option JStr (ConsumerListResponse.extension r))]"

lemma wf_json_of_Consumer_Types_ConsumerListResponse [wf_encoders]: "wf_json (json_of_ConsumerListResponse r)"
  unfolding json_of_ConsumerListResponse_def
  by (intro wf_json_object) (auto simp: js_inject some_map_option intro: wf_encoders simp del: js_Cons js_Nil)

record ConsumerStatRequest =
  header :: "ProtocolHeader option"
  shard :: "js_string option"
  readThrough :: "(js_string \<times> js_string) list option"
  extension :: "js_string option"

definition json_of_ConsumerStatRequest :: "ConsumerStatRequest \<Rightarrow> jsval" where
  "json_of_ConsumerStatRequest r = json_object
     [(js ''header'', map_option json_of_ProtocolHeader (ConsumerStatRequest.header r)),
      (js ''shard'', map_option JStr (ConsumerStatRequest.shard r)),
      (js ''readThrough'', map_option json_string_map (ConsumerStatRequest.readThrough r)),
      (js ''extension'', map_option JStr (ConsumerStatRequest.extension r))]"

lemma wf_json_of_Consumer_Types_ConsumerStatRequest [wf_encoders]: "distinct_keys (ConsumerStatRequest.readThrough r) \<Longrightarrow> wf_json (json_of_ConsumerStatRequest r)"
  unfolding json_of_ConsumerStatRequest_def
  by (intro wf_json_object) (auto simp: js_inject some_map_option intro: wf_encoders simp del: js_Cons js_Nil)

record ConsumerStatResponse =
  status :: "ConsumerStatus option"
  header :: "ProtocolHeader option"
  readThrough :: "(js_string \<times> js_string) list option"
  publishAt :: "(js_string \<times> js_string) list option"
  extension :: "js_string option"

definition json_of_ConsumerStatResponse :: "ConsumerStatResponse \<Rightarrow> jsval" where
  "json_of_ConsumerStatResponse r = json_object
     [(js ''status'', map_option json_of_ConsumerStatus (ConsumerStatResponse.status r)),
      (js ''header'', map_option json_of_ProtocolHeader (ConsumerStatResponse.header r)),
      (js ''readThrough'', map_option json_string_map (ConsumerStatResponse.readThrough r)),
      (js ''publishAt'', map_option json_string_map (ConsumerStatResponse.publishAt r)),
      (js ''extension'', map_option JStr (ConsumerStatResponse.extension r))]"

lemma wf_json_of_Consumer_Types_ConsumerStatResponse [wf_encoders]: "distinct_keys (ConsumerStatResponse.readThrough r) \<Longrightarrow> distinct_keys (ConsumerStatResponse.publishAt r) \<Longrightarrow> wf_json (json_of_ConsumerStatResponse r)"
  unfolding json_of_ConsumerStatResponse_def
  by (intro wf_json_object) (auto simp: js_inject some_map_option intro: wf_encoders simp del: js_Cons js_Nil)

record ProtobufAny =
  typeUrl :: "js_string option"
  value' :: "js_string option"

definition json_of_ProtobufAny :: "ProtobufAny \<Rightarrow> jsval" where
  "json_of_ProtobufAny r = json_object
     [(js ''typeUrl'', map_option JStr (ProtobufAny.typeUrl r)),
      (js ''value'', map_option JStr (ProtobufAny.value' r))]"

lemma wf_json_of_Consumer_Types_ProtobufAny [wf_encoders]: "wf_json (json_of_ProtobufAny r)"
  unfolding json_of_ProtobufAny_def
  by (intro wf_json_object) (auto simp: js_inject some_map_option intro: wf_encoders simp del: js_Cons js_Nil)

record RuntimeError =
  error :: "js_string option"
  code :: "int option"
  message :: "js_string option"
  details :: "ProtobufAny list option"

definition json_of_RuntimeError :: "RuntimeError \<Rightarrow> jsval" where
  "json_of_RuntimeError r = json_object
     [(js ''error'', map_option JStr (RuntimeError.error r)),
      (js ''code'', map_option json_int (RuntimeError.code r)),
      (js ''message'', map_option JStr (RuntimeError.message r)),
      (js ''details'', map_option (json_array json_of_ProtobufAny) (RuntimeError.details r))]"

lemma wf_json_of_Consumer_Types_RuntimeError [wf_encoders]: "wf_json (json_of_RuntimeError r)"
  unfolding json_of_RuntimeError_def
  by (intro wf_json_object) (auto simp: js_inject some_map_option intro: wf_encoders simp del: js_Cons js_Nil)

section \<open>Types that no call of the client uses\<close>

record RecoverylogSegment =
  author :: "int option"
  firstSeqNo :: "js_string option"
  firstOffset :: "js_string option"
  firstChecksum :: "int option"
  lastSeqNo :: "js_string option"
  lastOffset :: "js_string option"
  log :: "js_string option"

record RecoverylogFnodeSegments =
  fnode :: "js_string option"
  segments :: "RecoverylogSegment list option"

record RecoverylogProperty =
  path :: "js_string option"
  content :: "js_string option"

record RecoverylogFSMHints =
  log :: "js_string option"
  liveNodes :: "RecoverylogFnodeSegments list option"
  properties :: "RecoverylogProperty list option"

record GetHintsResponseResponseHints =
  hints :: "RecoverylogFSMHints option"

record ConsumerApplyRequestChange =
  expectModRevision :: "js_string option"
  upsert :: "ConsumerShardSpec option"
  delete :: "js_string option"

record ConsumerApplyResponse =
  status :: "ConsumerStatus option"
  header :: "ProtocolHeader option"
  extension :: "js_string option"

record ConsumerGetHintsResponse =
  status :: "ConsumerStatus option"
  header :: "ProtocolHeader option"
  primaryHints :: "GetHintsResponseResponseHints option"
  backupHints :: "GetHintsResponseResponseHints list option"
  extension :: "js_string option"

record ConsumerUnassignResponse =
  status :: "ConsumerStatus option"
  shards :: "js_string list option"

end
