(* ===== verification/Shard_Client.thy ===== *)
theory Shard_Client
  imports Selectors Consumer_Types
begin

text \<open>
  \<open>client/src/shard_client.ts\<close>: the interface \<open>Shard\<close> and the class \<open>ShardClient\<close> with
  \<open>list\<close> and \<open>stat\<close>, modelled like those of \<open>Journal_Client\<close>.
\<close>

record Shard =
  spec :: ConsumerShardSpec
  status :: "ConsumerReplicaStatus list"

definition json_of_Shard :: "Shard \<Rightarrow> jsval" where
  "json_of_Shard s = JObj [(js ''spec'', json_of_ConsumerShardSpec (Shard.spec s)),
     (js ''status'', json_array json_of_ConsumerReplicaStatus (Shard.status s))]"

record ShardClient =
  authToken :: js_string
  baseUrl :: URL

definition new_ShardClient :: "URL \<Rightarrow> js_string \<Rightarrow> ShardClient" where
  "new_ShardClient baseUrl' authToken' = \<lparr>authToken = authToken', baseUrl = baseUrl'\<rparr>"

definition ShardClient_list ::
  "ShardClient \<Rightarrow> Selector option \<Rightarrow> Selector option \<Rightarrow> network \<Rightarrow> client_world \<Rightarrow>
     (jsval list, ResponseError) Result promise \<times> client_world" where
  "ShardClient_list self included excluded net w =
     (let (inc, w1) = default_selector included w;
          (exc, w2) = default_selector excluded w1;
          url = URL_toString (baseUrl self) @ js ''v1/shards/list'';
          (incs, w3) = toLabelSet inc w2;
          (excs, w4) = toLabelSet exc w3;
          body = JObj [(js ''selector'', JObj [(js ''include'', Broker_Types.json_of_ProtocolLabelSet incs),
                                               (js ''exclude'', Broker_Types.json_of_ProtocolLabelSet excs)])];
          (result, w5) = doFetch net url (authToken self) body w4
      in (await result (\<lambda>result.
            if Result_ok object_truthy result then
              await (settle (Result_unwrap object_truthy print_object result)) (\<lambda>r.
              await (response_json r) (\<lambda>data.
              await (settle (bindC (js_get data (js ''shards''))
                (array_map (\<lambda>s. bindC (js_get s (js ''spec'')) (\<lambda>sp.
                  bindC (js_get s (js ''status'')) (\<lambda>st.
                    Inr (JObj [(js ''spec'', sp), (js ''status'', st)]))))))) (\<lambda>shards.
              Fulfilled (Result_Ok shards))))
            else
              await (settle (Result_unwrap_err object_truthy print_object result)) (\<lambda>e.
              await (ResponseError_fromResponse e) (\<lambda>err.
              Fulfilled (Result_Err err)))), w5))"

definition ShardClient_stat ::
  "ShardClient \<Rightarrow> js_string \<Rightarrow> (js_string \<times> js_string) list \<Rightarrow> network \<Rightarrow> 'z world_scheme \<Rightarrow>
     (jsval, ResponseError) Result promise \<times> 'z world_scheme" where
  "ShardClient_stat self shardId offsets net w =
     (let url = URL_toString (baseUrl self) @ js ''v1/shards/stat'';
          body = JObj [(js ''shard'', JStr shardId), (js ''readThrough'', json_string_map offsets)];
          (result, w') = doFetch net url (authToken self) body w
      in (await result (\<lambda>result.
            if Result_ok object_truthy result then
              await (settle (Result_unwrap object_truthy print_object result)) (\<lambda>r.
              await (response_json r) (\<lambda>data.
              Fulfilled (Result_Ok data)))
            else
              await (settle (Result_unwrap_err object_truthy print_object result)) (\<lambda>e.
              await (ResponseError_fromResponse e) (\<lambda>err.
              Fulfilled (Result_Err err)))), w'))"

section \<open>list as a unary call\<close>

definition shard_list :: "jsval \<Rightarrow> jsval list completion" where
  "shard_list data =
     bindC (js_get data (js ''shards''))
       (array_map (\<lambda>s. bindC (js_get s (js ''spec'')) (\<lambda>sp.
          bindC (js_get s (js ''status'')) (\<lambda>st.
            Inr (JObj [(js ''spec'', sp), (js ''status'', st)])))))"

definition shard_list_url :: "ShardClient \<Rightarrow> js_string" where
  "shard_list_url self = URL_toString (baseUrl self) @ js ''v1/shards/list''"

lemma ShardClient_list_call:
  "ShardClient_list self inc exc = list_call (shard_list_url self) (authToken self) shard_list inc exc"
  by (intro ext) (simp add: ShardClient_list_def list_call_def handle_unary_def [abs_def]
      shard_list_def shard_list_url_def Let_def split: prod.split cong: if_cong del: js_Cons)

interpretation shards_list: unary_call "ShardClient_list self inc exc"
    "list_request (shard_list_url self) (authToken self) inc exc" shard_list
    "valid_arguments inc exc" for self inc exc
  unfolding ShardClient_list_call by (rule list_calls.unary_call_axioms)

section \<open>stat as a unary call\<close>

definition shard_stat_request :: "ShardClient \<Rightarrow> js_string \<Rightarrow> (js_string \<times> js_string) list \<Rightarrow> request" where
  "shard_stat_request self shardId offsets =
     authorized_request (URL_toString (baseUrl self) @ js ''v1/shards/stat'') (authToken self)
       (JObj [(js ''shard'', JStr shardId), (js ''readThrough'', json_string_map offsets)])"

lemma ShardClient_stat_unary:
  "ShardClient_stat self sid rt net w =
     (await (unary_outcome Inr (net (fetched w) (shard_stat_request self sid rt)))
        (\<lambda>r. Fulfilled (of_sum r)),
      w\<lparr>fetched := fetched w @ [shard_stat_request self sid rt]\<rparr>)"
proof -
  let ?url = "URL_toString (baseUrl self) @ js ''v1/shards/stat''"
  let ?body = "JObj [(js ''shard'', JStr sid), (js ''readThrough'', json_string_map rt)]"
  have "ShardClient_stat self sid rt net w =
      (await (fst (doFetch net ?url (authToken self) ?body w)) (handle_unary Inr),
       snd (doFetch net ?url (authToken self) ?body w))"
    by (simp add: ShardClient_stat_def handle_unary_def [abs_def] Let_def split: prod.split cong: if_cong del: js_Cons)
  then show ?thesis
    by (simp add: handle_unary_outcome doFetch_world shard_stat_request_def del: js_Cons)
qed

interpretation shards_stat: unary_call "ShardClient_stat self sid rt"
    "\<lambda>_. shard_stat_request self sid rt" Inr "\<lambda>_. True"
  for self sid rt
  by unfold_locales (simp_all add: ShardClient_stat_unary)

section \<open>Typed responses\<close>

lemma shard_list_typed:
  assumes "ConsumerListResponse.shards resp = Some ss"
    and "\<And>s. s \<in> set ss \<Longrightarrow> ListResponseShard.spec s \<noteq> None \<and> ListResponseShard.status s \<noteq> None"
  shows "shard_list (json_of_ConsumerListResponse resp) =
    Inr (map (\<lambda>s. json_of_Shard \<lparr>spec = the (ListResponseShard.spec s),
                              status = the (ListResponseShard.status s)\<rparr>) ss)"
proof -
  have "js_get (json_of_ConsumerListResponse resp) (js ''shards'')
      = Inr (json_array json_of_ListResponseShard ss)"
    using assms(1)
    by (simp add: json_of_ConsumerListResponse_def js_get_of_object js_inject del: js_Cons js_Nil)
  moreover have "js_get (json_of_ListResponseShard s) (js ''spec'')
      = Inr (json_of_ConsumerShardSpec (the (ListResponseShard.spec s)))"
    "js_get (json_of_ListResponseShard s) (js ''status'')
      = Inr (json_array json_of_ConsumerReplicaStatus (the (ListResponseShard.status s)))"
    if "s \<in> set ss" for s
    using assms(2) [OF that]
    by (auto simp: json_of_ListResponseShard_def js_get_of_object js_inject simp del: js_Cons js_Nil)
  ultimately show ?thesis
    by (simp add: shard_list_def json_array_def json_of_Shard_def del: js_Cons)
      (rule mapC_map_Inr, simp del: js_Cons)
qed

end
