(* ===== verification/Ts_Types.thy ===== *)
theory Ts_Types
  imports Wire_Format
begin

text \<open>
  The part of TypeScript's type language that the published declarations use, and which run-time
  values a type has. A type is checked by the compiler only: at run time \<open>await r.json()\<close> is taken
  for a value of the declared type whatever it is. \<open>conforms\<close> says when that is justified.
\<close>

named_theorems conforming \<open>values that have their declared type\<close>

datatype presence = Optional | Required

datatype ty =
    TString
  | TNumber
  | TBoolean
  | TLiterals "string list"
  | TArray ty
  | TRecord ty
  | TInterface "(string \<times> presence \<times> ty) list"

text \<open>The two kinds of property signatures, \<open>k?: t\<close> and \<open>k: t\<close>.\<close>

definition optional :: "string \<Rightarrow> ty \<Rightarrow> string \<times> presence \<times> ty" where
  "optional k t = (k, Optional, t)"

definition required :: "string \<Rightarrow> ty \<Rightarrow> string \<times> presence \<times> ty" where
  "required k t = (k, Required, t)"

text \<open>
  Types are structural: an object may have further properties. With \<open>strictNullChecks\<close> (on in Deno)
  an optional property may be absent or \<open>undefined\<close>, not \<open>null\<close>.
\<close>

function conforms :: "ty \<Rightarrow> jsval \<Rightarrow> bool" where
  "conforms TString v = (case v of JStr s \<Rightarrow> True | _ \<Rightarrow> False)"
| "conforms TNumber v = (case v of JNum n \<Rightarrow> True | _ \<Rightarrow> False)"
| "conforms TBoolean v = (case v of JBool b \<Rightarrow> True | _ \<Rightarrow> False)"
| "conforms (TLiterals cs) v = (case v of JStr s \<Rightarrow> s \<in> set (map js cs) | _ \<Rightarrow> False)"
| "conforms (TArray t) v = (case v of JArr vs \<Rightarrow> list_all (\<lambda>x. conforms t x) vs | _ \<Rightarrow> False)"
| "conforms (TRecord t) v =
     (case v of JObj kvs \<Rightarrow> list_all (\<lambda>p. conforms t (snd p)) kvs | _ \<Rightarrow> False)"
| "conforms (TInterface fs) v =
     (case v of
        JObj kvs \<Rightarrow> list_all (\<lambda>f.
          if prop_value (js (fst f)) kvs = JUndefined then fst (snd f) = Optional
          else conforms (snd (snd f)) (prop_value (js (fst f)) kvs)) fs
      | _ \<Rightarrow> False)"
  by pat_completeness auto

lemma size_field: "(k, r, t) \<in> set fs \<Longrightarrow> size t < Suc (size_list (size_prod (\<lambda>_. 0) (size_prod (\<lambda>_. 0) size)) fs)"
  by (induction fs) auto

termination conforms
  by (relation "measure (\<lambda>(t, v). size t)") (auto dest: size_field simp: less_Suc_eq_le)

text \<open>The type \<open>t | undefined\<close>, which a non-null assertion \<open>v!\<close> turns into \<open>t\<close> for the compiler.\<close>

definition conforms_opt :: "ty \<Rightarrow> jsval \<Rightarrow> bool" where
  "conforms_opt t v \<longleftrightarrow> v = JUndefined \<or> conforms t v"

section \<open>Values of each type\<close>

lemma undefined_conforms [simp]: "\<not> conforms t JUndefined"
  by (cases t) auto

lemma null_conforms [simp]: "\<not> conforms t JNull"
  by (cases t) auto

lemma conforms_TString: "conforms TString v \<longleftrightarrow> (\<exists>s. v = JStr s)"
  by (cases v) auto

lemma conforms_TNumber: "conforms TNumber v \<longleftrightarrow> (\<exists>n. v = JNum n)"
  by (cases v) auto

lemma conforms_TArray: "conforms (TArray t) v \<longleftrightarrow> (\<exists>vs. v = JArr vs \<and> (\<forall>x \<in> set vs. conforms t x))"
  by (cases v) (auto simp: list_all_iff)

text \<open>Reading a declared property of a conforming object: it does not throw.\<close>

lemma conforms_get:
  assumes "conforms (TInterface fs) v" and "(k, p, t) \<in> set fs"
  shows "\<exists>x. js_get v (js k) = Inr x \<and> (x = JUndefined \<and> p = Optional \<or> conforms t x)"
  using assms by (cases v) (auto simp: list_all_iff split: if_splits)

lemma conforms_get_optional:
  assumes "conforms (TInterface fs) v" and "optional k t \<in> set fs"
  shows "\<exists>x. js_get v (js k) = Inr x \<and> conforms_opt t x"
  using conforms_get [OF assms(1), of k Optional t] assms(2)
  by (auto simp: optional_def conforms_opt_def)

lemma conforms_opt_TArray:
  "conforms_opt (TArray t) v \<longleftrightarrow> v = JUndefined \<or> (\<exists>vs. v = JArr vs \<and> (\<forall>x \<in> set vs. conforms t x))"
  by (cases v) (auto simp: conforms_opt_def list_all_iff)

section \<open>Encoded values\<close>

lemma conforms_JStr [conforming]: "conforms TString (JStr s)"
  by simp

lemma conforms_JBool [conforming]: "conforms TBoolean (JBool b)"
  by simp

lemma conforms_json_int [conforming]: "conforms TNumber (json_int i)"
  by (simp add: json_int_def)

lemma conforms_json_array [conforming]:
  "(\<And>x. x \<in> set xs \<Longrightarrow> conforms t (f x)) \<Longrightarrow> conforms (TArray t) (json_array f xs)"
  by (simp add: json_array_def list_all_iff)

lemma conforms_string_map [conforming]: "conforms (TRecord TString) (json_string_map kvs)"
  by (simp add: json_string_map_def list_all_iff case_prod_beta)

lemma prop_value_present:
  "distinct (map fst ps) \<Longrightarrow> prop_value k (present ps) =
     (case map_of ps k of Some (Some x) \<Rightarrow> x | _ \<Rightarrow> JUndefined)"
  by (simp add: prop_value_def map_of_present split: option.split)

text \<open>An interface and an encoder that list the same properties in the same order.\<close>

definition fields_match :: "(js_string \<times> jsval option) list \<Rightarrow> (string \<times> presence \<times> ty) list \<Rightarrow> bool" where
  "fields_match ps fs \<longleftrightarrow> list_all2 (\<lambda>p f. fst p = js (fst f) \<and>
     (case snd p of None \<Rightarrow> fst (snd f) = Optional | Some v \<Rightarrow> conforms (snd (snd f)) v)) ps fs"

lemma fields_match_Nil: "fields_match [] []"
  by (simp add: fields_match_def)

lemma fields_match_optional:
  assumes "\<And>v. x = Some v \<Longrightarrow> conforms t v" and "fields_match ps fs"
  shows "fields_match ((js k, x) # ps) (optional k t # fs)"
  using assms by (auto simp: fields_match_def optional_def split: option.split)

lemma fields_match_encoded:
  assumes "\<And>y. x = Some y \<Longrightarrow> conforms t (f y)" and "fields_match ps fs"
  shows "fields_match ((js k, map_option f x) # ps) (optional k t # fs)"
  using assms by (intro fields_match_optional) auto

lemmas fields_match = fields_match_Nil fields_match_encoded

lemma conforms_json_object:
  assumes "distinct (map fst ps)" and "fields_match ps fs"
  shows "conforms (TInterface fs) (json_object ps)"
proof -
  have "if prop_value (js (fst f)) (present ps) = JUndefined then fst (snd f) = Optional
      else conforms (snd (snd f)) (prop_value (js (fst f)) (present ps))" if f: "f \<in> set fs" for f
  proof -
    from f obtain i where i: "i < length fs" "f = fs ! i" by (auto simp: in_set_conv_nth)
    define p where "p = ps ! i"
    with assms(2) i have p: "p \<in> set ps" "fst p = js (fst f)" and
      v: "case snd p of None \<Rightarrow> fst (snd f) = Optional | Some v \<Rightarrow> conforms (snd (snd f)) v"
      by (auto simp: fields_match_def list_all2_conv_all_nth)
    have "map_of ps (fst p) = Some (snd p)"
      using assms(1) p(1) by (intro map_of_is_SomeI) auto
    with p(2) v show ?thesis
      by (cases "snd p") (auto simp: prop_value_present [OF assms(1)])
  qed
  then show ?thesis by (simp add: json_object_def list_all_iff)
qed

end
