(* ===== verification/Published_Broker.thy ===== *)
theory Published_Broker
  imports Ts_Types Broker_Types
begin

text \<open>
  The declarations the package publishes in \<open>client/dist/src/gen/broker/protocol/broker.ts\<close>, as
  types of \<open>Ts_Types\<close>: what a program that uses the package is told of the values. A record of
  \<open>Broker_Types\<close> has, as a run-time object, the published type of the same name.
\<close>


section \<open>Types of the calls the client makes\<close>

definition type_ProtocolLabel :: ty where
  "type_ProtocolLabel = TInterface
     [optional ''name'' TString,
      optional ''value'' TString]"

lemma conforms_Broker_Types_ProtocolLabel [conforming]: "conforms type_ProtocolLabel (json_of_ProtocolLabel r)"
  unfolding type_ProtocolLabel_def json_of_ProtocolLabel_def
  by (intro conforms_json_object fields_match conforming) (simp_all add: js_inject del: js_Cons js_Nil)

definition type_ProtocolLabelSet :: ty where
  "type_ProtocolLabelSet = TInterface
     [optional ''labels'' (TArray type_ProtocolLabel)]"

lemma conforms_Broker_Types_ProtocolLabelSet [conforming]: "conforms type_ProtocolLabelSet (json_of_ProtocolLabelSet r)"
  unfolding type_ProtocolLabelSet_def json_of_ProtocolLabelSet_def
  by (intro conforms_json_object fields_match conforming) (simp_all add: js_inject del: js_Cons js_Nil)

definition type_ProtocolCompressionCodec :: ty where
  "type_ProtocolCompressionCodec = TLiterals
     [''INVALID'',
      ''NONE'',
      ''GZIP'',
      ''ZSTANDARD'',
      ''SNAPPY'',
      ''GZIP_OFFLOAD_DECOMPRESSION'']"

lemma conforms_Broker_Types_ProtocolCompressionCodec [conforming]: "conforms type_ProtocolCompressionCodec (json_of_ProtocolCompressionCodec c)"
  by (cases c) (simp_all add: type_ProtocolCompressionCodec_def json_of_ProtocolCompressionCodec_def)

definition type_ProtocolJournalSpecFragment :: ty where
  "type_ProtocolJournalSpecFragment = TInterface
     [optional ''length'' TString,
      optional ''compressionCodec'' type_ProtocolCompressionCodec,
      optional ''stores'' (TArray TString),
      optional ''refreshInterval'' TString,
      optional ''retention'' TString,
      optional ''flushInterval'' TString,
      optional ''pathPostfixTemplate'' TString]"

lemma conforms_Broker_Types_ProtocolJournalSpecFragment [conforming]: "conforms type_ProtocolJournalSpecFragment (json_of_ProtocolJournalSpecFragment r)"
  unfolding type_ProtocolJournalSpecFragment_def json_of_ProtocolJournalSpecFragment_def
  by (intro conforms_json_object fields_match conforming) (simp_all add: js_inject del: js_Cons js_Nil)

definition type_ProtocolJournalSpec :: ty where
  "type_ProtocolJournalSpec = TInterface
     [optional ''name'' TString,
      optional ''replication'' TNumber,
      optional ''labels'' type_ProtocolLabelSet,
      optional ''fragment'' type_ProtocolJournalSpecFragment,
      optional ''flags'' TNumber,
      optional ''maxAppendRate'' TString]"

lemma conforms_Broker_Types_ProtocolJournalSpec [conforming]: "conforms type_ProtocolJournalSpec (json_of_ProtocolJournalSpec r)"
  unfolding type_ProtocolJournalSpec_def json_of_ProtocolJournalSpec_def
  by (intro conforms_json_object fields_match conforming) (simp_all add: js_inject del: js_Cons js_Nil)

definition type_ProtocolSHA1Sum :: ty where
  "type_ProtocolSHA1Sum = TInterface
     [optional ''part1'' TString,
      optional ''part2'' TString,
      optional ''part3'' TNumber]"

lemma conforms_Broker_Types_ProtocolSHA1Sum [conforming]: "conforms type_ProtocolSHA1Sum (json_of_ProtocolSHA1Sum r)"
  unfolding type_ProtocolSHA1Sum_def json_of_ProtocolSHA1Sum_def
  by (intro conforms_json_object fields_match conforming) (simp_all add: js_inject del: js_Cons js_Nil)

definition type_ProtocolFragment :: ty where
  "type_ProtocolFragment = TInterface
     [optional ''journal'' TString,
      optional ''begin'' TString,
      optional ''end'' TString,
      optional ''sum'' type_ProtocolSHA1Sum,
      optional ''compressionCodec'' type_ProtocolCompressionCodec,
      optional ''backingStore'' TString,
      optional ''modTime'' TString,
      optional ''pathPostfix'' TString]"

lemma conforms_Broker_Types_ProtocolFragment [conforming]: "conforms type_ProtocolFragment (json_of_ProtocolFragment r)"
  unfolding type_ProtocolFragment_def json_of_ProtocolFragment_def
  by (intro conforms_json_object fields_match conforming) (simp_all add: js_inject del: js_Cons js_Nil)

definition type_HeaderEtcd :: ty where
  "type_HeaderEtcd = TInterface
     [optional ''clusterId'' TString,
      optional ''memberId'' TString,
      optional ''revision'' TString,
      optional ''raftTerm'' TString]"

lemma conforms_Broker_Types_HeaderEtcd [conforming]: "conforms type_HeaderEtcd (json_of_HeaderEtcd r)"
  unfolding type_HeaderEtcd_def json_of_HeaderEtcd_def
  by (intro conforms_json_object fields_match conforming) (simp_all add: js_inject del: js_Cons js_Nil)

definition type_ProcessSpecID :: ty where
  "type_ProcessSpecID = TInterface
     [optional ''zone'' TString,
      optional ''suffix'' TString]"

lemma conforms_Broker_Types_ProcessSpecID [conforming]: "conforms type_ProcessSpecID (json_of_ProcessSpecID r)"
  unfolding type_ProcessSpecID_def json_of_ProcessSpecID_def
  by (intro conforms_json_object fields_match conforming) (simp_all add: js_inject del: js_Cons js_Nil)

definition type_ProtocolRoute :: ty where
  "type_ProtocolRoute = TInterface
     [optional ''members'' (TArray type_ProcessSpecID),
      optional ''primary'' TNumber,
      optional ''endpoints'' (TArray TString)]"

lemma conforms_Broker_Types_ProtocolRoute [conforming]: "conforms type_ProtocolRoute (json_of_ProtocolRoute r)"
  unfolding type_ProtocolRoute_def json_of_ProtocolRoute_def
  by (intro conforms_json_object fields_match conforming) (simp_all add: js_inject del: js_Cons js_Nil)

definition type_ListResponseJournal :: ty where
  "type_ListResponseJournal = TInterface
     [optional ''spec'' type_ProtocolJournalSpec,
      optional ''modRevision'' TString,
      optional ''route'' type_ProtocolRoute]"

lemma conforms_Broker_Types_ListResponseJournal [conforming]: "conforms type_ListResponseJournal (json_of_ListResponseJournal r)"
  unfolding type_ListResponseJournal_def json_of_ListResponseJournal_def
  by (intro conforms_json_object fields_match conforming) (simp_all add: js_inject del: js_Cons js_Nil)

definition type_ProtobufAny :: ty where
  "type_ProtobufAny = TInterface
     [optional ''typeUrl'' TString,
      optional ''value'' TString]"

lemma conforms_Broker_Types_ProtobufAny [conforming]: "conforms type_ProtobufAny (json_of_ProtobufAny r)"
  unfolding type_ProtobufAny_def json_of_ProtobufAny_def
  by (intro conforms_json_object fields_match conforming) (simp_all add: js_inject del: js_Cons js_Nil)

definition type_ProtocolStatus :: ty where
  "type_ProtocolStatus = TLiterals
     [''OK'',
      ''JOURNAL_NOT_FOUND'',
      ''NO_JOURNAL_PRIMARY_BROKER'',
      ''NOT_JOURNAL_PRIMARY_BROKER'',
      ''NOT_JOURNAL_BROKER'',
      ''INSUFFICIENT_JOURNAL_BROKERS'',
      ''OFFSET_NOT_YET_AVAILABLE'',
      ''WRONG_ROUTE'',
      ''PROPOSAL_MISMATCH'',
      ''ETCD_TRANSACTION_FAILED'',
      ''NOT_ALLOWED'',
      ''WRONG_APPEND_OFFSET'',
      ''INDEX_HAS_GREATER_OFFSET'',
      ''REGISTER_MISMATCH'']"

lemma conforms_Broker_Types_ProtocolStatus [conforming]: "conforms type_ProtocolStatus (json_of_ProtocolStatus c)"
  by (cases c) (simp_all add: type_ProtocolStatus_def json_of_ProtocolStatus_def)

definition type_ProtocolHeader :: ty where
  "type_ProtocolHeader = TInterface
     [optional ''processId'' type_ProcessSpecID,
      optional ''route'' type_ProtocolRoute,
      optional ''etcd'' type_HeaderEtcd]"

lemma conforms_Broker_Types_ProtocolHeader [conforming]: "conforms type_ProtocolHeader (json_of_ProtocolHeader r)"
  unfolding type_ProtocolHeader_def json_of_ProtocolHeader_def
  by (intro conforms_json_object fields_match conforming) (simp_all add: js_inject del: js_Cons js_Nil)

definition type_ProtocolLabelSelector :: ty where
  "type_ProtocolLabelSelector = TInterface
     [optional ''include'' type_ProtocolLabelSet,
      optional ''exclude'' type_ProtocolLabelSet]"

lemma conforms_Broker_Types_ProtocolLabelSelector [conforming]: "conforms type_ProtocolLabelSelector (json_of_ProtocolLabelSelector r)"
  unfolding type_ProtocolLabelSelector_def json_of_ProtocolLabelSelector_def
  by (intro conforms_json_object fields_match conforming) (simp_all add: js_inject del: js_Cons js_Nil)

definition type_ProtocolListRequest :: ty where
  "type_ProtocolListRequest = TInterface
     [optional ''selector'' type_ProtocolLabelSelector]"

lemma conforms_Broker_Types_ProtocolListRequest [conforming]: "conforms type_ProtocolListRequest (json_of_ProtocolListRequest r)"
  unfolding type_ProtocolListRequest_def json_of_ProtocolListRequest_def
  by (intro conforms_json_object fields_match conforming) (simp_all add: js_inject del: js_Cons js_Nil)

definition type_ProtocolListResponse :: ty where
  "type_ProtocolListResponse = TInterface
     [optional ''status'' type_ProtocolStatus,
      optional ''header'' type_ProtocolHeader,
      optional ''journals'' (TArray type_ListResponseJournal)]"

lemma conforms_Broker_Types_ProtocolListResponse [conforming]: "conforms type_ProtocolListResponse (json_of_ProtocolListResponse r)"
  unfolding type_ProtocolListResponse_def json_of_ProtocolListResponse_def
  by (intro conforms_json_object fields_match conforming) (simp_all add: js_inject del: js_Cons js_Nil)

definition type_ProtocolReadRequest :: ty where
  "type_ProtocolReadRequest = TInterface
     [optional ''header'' type_ProtocolHeader,
      optional ''journal'' TString,
      optional ''offset'' TString,
      optional ''block'' TBoolean,
      optional ''doNotProxy'' TBoolean,
      optional ''metadataOnly'' TBoolean,
      optional ''endOffset'' TString,
      optional ''beginModTime'' TString]"

lemma conforms_Broker_Types_ProtocolReadRequest [conforming]: "conforms type_ProtocolReadRequest (json_of_ProtocolReadRequest r)"
  unfolding type_ProtocolReadRequest_def json_of_ProtocolReadRequest_def
  by (intro conforms_json_object fields_match conforming) (simp_all add: js_inject del: js_Cons js_Nil)

definition type_ProtocolReadResponse :: ty where
  "type_ProtocolReadResponse = TInterface
     [optional ''status'' type_ProtocolStatus,
      optional ''header'' type_ProtocolHeader,
      optional ''offset'' TString,
      optional ''writeHead'' TString,
      optional ''fragment'' type_ProtocolFragment,
      optional ''fragmentUrl'' TString,
      optional ''content'' TString]"

lemma conforms_Broker_Types_ProtocolReadResponse [conforming]: "conforms type_ProtocolReadResponse (json_of_ProtocolReadResponse r)"
  unfolding type_ProtocolReadResponse_def json_of_ProtocolReadResponse_def
  by (intro conforms_json_object fields_match conforming) (simp_all add: js_inject del: js_Cons js_Nil)

definition type_RuntimeError :: ty where
  "type_RuntimeError = TInterface
     [optional ''error'' TString,
      optional ''code'' TNumber,
      optional ''message'' TString,
      optional ''details'' (TArray type_ProtobufAny)]"

lemma conforms_Broker_Types_RuntimeError [conforming]: "conforms type_RuntimeError (json_of_RuntimeError r)"
  unfolding type_RuntimeError_def json_of_RuntimeError_def
  by (intro conforms_json_object fields_match conforming) (simp_all add: js_inject del: js_Cons js_Nil)

definition type_RuntimeStreamError :: ty where
  "type_RuntimeStreamError = TInterface
     [optional ''grpcCode'' TNumber,
      optional ''httpCode'' TNumber,
      optional ''message'' TString,
      optional ''httpStatus'' TString,
      optional ''details'' (TArray type_ProtobufAny)]"

lemma conforms_Broker_Types_RuntimeStreamError [conforming]: "conforms type_RuntimeStreamError (json_of_RuntimeStreamError r)"
  unfolding type_RuntimeStreamError_def json_of_RuntimeStreamError_def
  by (intro conforms_json_object fields_match conforming) (simp_all add: js_inject del: js_Cons js_Nil)

section \<open>Types that no call of the client uses\<close>

definition type_ApplyRequestChange :: ty where
  "type_ApplyRequestChange = TInterface
     [optional ''expectModRevision'' TString,
      optional ''upsert'' type_ProtocolJournalSpec,
      optional ''delete'' TString]"

definition type_FragmentsResponseFragment :: ty where
  "type_FragmentsResponseFragment = TInterface
     [optional ''spec'' type_ProtocolFragment,
      optional ''signedUrl'' TString]"

definition type_ProtocolAppendResponse :: ty where
  "type_ProtocolAppendResponse = TInterface
     [optional ''status'' type_ProtocolStatus,
      optional ''header'' type_ProtocolHeader,
      optional ''commit'' type_ProtocolFragment,
      optional ''registers'' type_ProtocolLabelSet,
      optional ''totalChunks'' TString,
      optional ''delayedChunks'' TString]"

definition type_ProtocolApplyResponse :: ty where
  "type_ProtocolApplyResponse = TInterface
     [optional ''status'' type_ProtocolStatus,
      optional ''header'' type_ProtocolHeader]"

definition type_ProtocolFragmentsResponse :: ty where
  "type_ProtocolFragmentsResponse = TInterface
     [optional ''status'' type_ProtocolStatus,
      optional ''header'' type_ProtocolHeader,
      optional ''fragments'' (TArray type_FragmentsResponseFragment),
      optional ''nextPageToken'' TString]"

definition type_ProtocolReplicateResponse :: ty where
  "type_ProtocolReplicateResponse = TInterface
     [optional ''status'' type_ProtocolStatus,
      optional ''header'' type_ProtocolHeader,
      optional ''fragment'' type_ProtocolFragment,
      optional ''registers'' type_ProtocolLabelSet]"

end
