(* ===== verification/Published_Consumer.thy ===== *)
theory Published_Consumer
  imports Ts_Types Consumer_Types
begin

text \<open>
  The declarations of \<open>client/dist/src/gen/consumer/protocol/consumer.ts\<close>, as those of
  \<open>Published_Broker\<close>. The file repeats the types it shares with the broker's.
\<close>


section \<open>Types of the calls the client makes\<close>

definition type_HeaderEtcd :: ty where
  "type_HeaderEtcd = TInterface
     [optional ''clusterId'' TString,
      optional ''memberId'' TString,
      optional ''revision'' TString,
      optional ''raftTerm'' TString]"

lemma conforms_Consumer_Types_HeaderEtcd [conforming]: "conforms type_HeaderEtcd (json_of_HeaderEtcd r)"
  unfolding type_HeaderEtcd_def json_of_HeaderEtcd_def
  by (intro conforms_json_object fields_match conforming) (simp_all add: js_inject del: js_Cons js_Nil)

definition type_ConsumerShardSpecSource :: ty where
  "type_ConsumerShardSpecSource = TInterface
     [optional ''journal'' TString,
      optional ''minOffset'' TString]"

lemma conforms_Consumer_Types_ConsumerShardSpecSource [conforming]: "conforms type_ConsumerShardSpecSource (json_of_ConsumerShardSpecSource r)"
  unfolding type_ConsumerShardSpecSource_def json_of_ConsumerShardSpecSource_def
  by (intro conforms_json_object fields_match conforming) (simp_all add: js_inject del: js_Cons js_Nil)

definition type_ProtocolLabel :: ty where
  "type_ProtocolLabel = TInterface
     [optional ''name'' TString,
      optional ''value'' TString]"

lemma conforms_Consumer_Types_ProtocolLabel [conforming]: "conforms type_ProtocolLabel (json_of_ProtocolLabel r)"
  unfolding type_ProtocolLabel_def json_of_ProtocolLabel_def
  by (intro conforms_json_object fields_match conforming) (simp_all add: js_inject del: js_Cons js_Nil)

definition type_ProtocolLabelSet :: ty where
  "type_ProtocolLabelSet = TInterface
     [optional ''labels'' (TArray type_ProtocolLabel)]"

lemma conforms_Consumer_Types_ProtocolLabelSet [conforming]: "conforms type_ProtocolLabelSet (json_of_ProtocolLabelSet r)"
  unfolding type_ProtocolLabelSet_def json_of_ProtocolLabelSet_def
  by (intro conforms_json_object fields_match conforming) (simp_all add: js_inject del: js_Cons js_Nil)

definition type_ConsumerShardSpec :: ty where
  "type_ConsumerShardSpec = TInterface
     [optional ''id'' TString,
      optional ''sources'' (TArray type_ConsumerShardSpecSource),
      optional ''recoveryLogPrefix'' TString,
      optional ''hintPrefix'' TString,
      optional ''hintBackups'' TNumber,
      optional ''maxTxnDuration'' TString,
      optional ''minTxnDuration'' TString,
      optional ''disable'' TBoolean,
      optional ''hotStandbys'' TNumber,
      optional ''labels'' type_ProtocolLabelSet,
      optional ''disableWaitForAck'' TBoolean,
      optional ''ringBufferSize'' TNumber,
      optional ''readChannelSize'' TNumber]"

lemma conforms_Consumer_Types_ConsumerShardSpec [conforming]: "conforms type_ConsumerShardSpec (json_of_ConsumerShardSpec r)"
  unfolding type_ConsumerShardSpec_def json_of_ConsumerShardSpec_def
  by (intro conforms_json_object fields_match conforming) (simp_all add: js_inject del: js_Cons js_Nil)

definition type_ProcessSpecID :: ty where
  "type_ProcessSpecID = TInterface
     [optional ''zone'' TString,
      optional ''suffix'' TString]"

lemma conforms_Consumer_Types_ProcessSpecID [conforming]: "conforms type_ProcessSpecID (json_of_ProcessSpecID r)"
  unfolding type_ProcessSpecID_def json_of_ProcessSpecID_def
  by (intro conforms_json_object fields_match conforming) (simp_all add: js_inject del: js_Cons js_Nil)

definition type_ProtocolRoute :: ty where
  "type_ProtocolRoute = TInterface
     [optional ''members'' (TArray type_ProcessSpecID),
      optional ''primary'' TNumber,
      optional ''endpoints'' (TArray TString)]"

lemma conforms_Consumer_Types_ProtocolRoute [conforming]: "conforms type_ProtocolRoute (json_of_ProtocolRoute r)"
  unfolding type_ProtocolRoute_def json_of_ProtocolRoute_def
  by (intro conforms_json_object fields_match conforming) (simp_all add: js_inject del: js_Cons js_Nil)

definition type_ReplicaStatusCode :: ty where
  "type_ReplicaStatusCode = TLiterals
     [''IDLE'',
      ''BACKFILL'',
      ''STANDBY'',
      ''PRIMARY'',
      ''FAILED'']"

lemma conforms_Consumer_Types_ReplicaStatusCode [conforming]: "conforms type_ReplicaStatusCode (json_of_ReplicaStatusCode c)"
  by (cases c) (simp_all add: type_ReplicaStatusCode_def json_of_ReplicaStatusCode_def)

definition type_ConsumerReplicaStatus :: ty where
  "type_ConsumerReplicaStatus = TInterface
     [optional ''code'' type_ReplicaStatusCode,
      optional ''errors'' (TArray TString)]"

lemma conforms_Consumer_Types_ConsumerReplicaStatus [conforming]: "conforms type_ConsumerReplicaStatus (json_of_ConsumerReplicaStatus r)"
  unfolding type_ConsumerReplicaStatus_def json_of_ConsumerReplicaStatus_def
  by (intro conforms_json_object fields_match conforming) (simp_all add: js_inject del: js_Cons js_Nil)

definition type_ListResponseShard :: ty where
  "type_ListResponseShard = TInterface
     [optional ''spec'' type_ConsumerShardSpec,
      optional ''modRevision'' TString,
      optional ''route'' type_ProtocolRoute,
      optional ''status'' (TArray type_ConsumerReplicaStatus)]"

lemma conforms_Consumer_Types_ListResponseShard [conforming]: "conforms type_ListResponseShard (json_of_ListResponseShard r)"
  unfolding type_ListResponseShard_def json_of_ListResponseShard_def
  by (intro conforms_json_object fields_match conforming) (simp_all add: js_inject del: js_Cons js_Nil)

definition type_ConsumerStatus :: ty where
  "type_ConsumerStatus = TLiterals
     [''OK'',
      ''SHARD_NOT_FOUND'',
      ''NO_SHARD_PRIMARY'',
      ''NOT_SHARD_PRIMARY'',
      ''ETCD_TRANSACTION_FAILED'',
      ''SHARD_STOPPED'']"

lemma conforms_Consumer_Types_ConsumerStatus [conforming]: "conforms type_ConsumerStatus (json_of_ConsumerStatus c)"
  by (cases c) (simp_all add: type_ConsumerStatus_def json_of_ConsumerStatus_def)

definition type_ProtocolHeader :: ty where
  "type_ProtocolHeader = TInterface
     [optional ''processId'' type_ProcessSpecID,
      optional ''route'' type_ProtocolRoute,
      optional ''etcd'' type_HeaderEtcd]"

lemma conforms_Consumer_Types_ProtocolHeader [conforming]: "conforms type_ProtocolHeader (json_of_ProtocolHeader r)"
  unfolding type_ProtocolHeader_def json_of_ProtocolHeader_def
  by (intro conforms_json_object fields_match conforming) (simp_all add: js_inject del: js_Cons js_Nil)

definition type_ProtocolLabelSelector :: ty where
  "type_ProtocolLabelSelector = TInterface
     [optional ''include'' type_ProtocolLabelSet,
      optional ''exclude'' type_ProtocolLabelSet]"

lemma conforms_Consumer_Types_ProtocolLabelSelector [conforming]: "conforms type_ProtocolLabelSelector (json_of_ProtocolLabelSelector r)"
  unfolding type_ProtocolLabelSelector_def json_of_ProtocolLabelSelector_def
  by (intro conforms_json_object fields_match conforming) (simp_all add: js_inject del: js_Cons js_Nil)

definition type_ConsumerListRequest :: ty where
  "type_ConsumerListRequest = TInterface
     [optional ''selector'' type_ProtocolLabelSelector,
      optional ''extension'' TString]"

lemma conforms_Consumer_Types_ConsumerListRequest [conforming]: "conforms type_ConsumerListRequest (json_of_ConsumerListRequest r)"
  unfolding type_ConsumerListRequest_def json_of_ConsumerListRequest_def
  by (intro conforms_json_object fields_match conforming) (simp_all add: js_inject del: js_Cons js_Nil)

definition type_ConsumerListResponse :: ty where
  "type_ConsumerListResponse = TInterface
     [optional ''status'' type_ConsumerStatus,
      optional ''header'' type_ProtocolHeader,
      optional ''shards'' (TArray type_ListResponseShard),
      optional ''extension'' TString]"

lemma conforms_Consumer_Types_ConsumerListResponse [conforming]: "conforms type_ConsumerListResponse (json_of_ConsumerListResponse r)"
  unfolding type_ConsumerListResponse_def json_of_ConsumerListResponse_def
  by (intro conforms_json_object fields_match conforming) (simp_all add: js_inject del: js_Cons js_Nil)

definition type_ConsumerStatRequest :: ty where
  "type_ConsumerStatRequest = TInterface
     [optional ''header'' type_ProtocolHeader,
      optional ''shard'' TString,
      optional ''readThrough'' (TRecord TString),
      optional ''extension'' TString]"

lemma conforms_Consumer_Types_ConsumerStatRequest [conforming]: "conforms type_ConsumerStatRequest (json_of_ConsumerStatRequest r)"
  unfolding type_ConsumerStatRequest_def json_of_ConsumerStatRequest_def
  by (intro conforms_json_object fields_match conforming) (simp_all add: js_inject del: js_Cons js_Nil)

definition type_ConsumerStatResponse :: ty where
  "type_ConsumerStatResponse = TInterface
     [optional ''status'' type_ConsumerStatus,
      optional ''header'' type_ProtocolHeader,
      optional ''readThrough'' (TRecord TString),
      optional ''publishAt'' (TRecord TString),
      optional ''extension'' TString]"

lemma conforms_Consumer_Types_ConsumerStatResponse [conforming]: "conforms type_ConsumerStatResponse (json_of_ConsumerStatResponse r)"
  unfolding type_ConsumerStatResponse_def json_of_ConsumerStatResponse_def
  by (intro conforms_json_object fields_match conforming) (simp_all add: js_inject del: js_Cons js_Nil)

definition type_ProtobufAny :: ty where
  "type_ProtobufAny = TInterface
     [optional ''typeUrl'' TString,
      optional ''value'' TString]"

lemma conforms_Consumer_Types_ProtobufAny [conforming]: "conforms type_ProtobufAny (json_of_ProtobufAny r)"
  unfolding type_ProtobufAny_def json_of_ProtobufAny_def
  by (intro conforms_json_object fields_match conforming) (simp_all add: js_inject del: js_Cons js_Nil)

definition type_RuntimeError :: ty where
  "type_RuntimeError = TInterface
     [optional ''error'' TString,
      optional ''code'' TNumber,
      optional ''message'' TString,
      optional ''details'' (TArray type_ProtobufAny)]"

lemma conforms_Consumer_Types_RuntimeError [conforming]: "conforms type_RuntimeError (json_of_RuntimeError r)"
  unfolding type_RuntimeError_def json_of_RuntimeError_def
  by (intro conforms_json_object fields_match conforming) (simp_all add: js_inject del: js_Cons js_Nil)

section \<open>Types that no call of the client uses\<close>

definition type_RecoverylogSegment :: ty where
  "type_RecoverylogSegment = TInterface
     [optional ''author'' TNumber,
      optional ''firstSeqNo'' TString,
      optional ''firstOffset'' TString,
      optional ''firstChecksum'' TNumber,
      optional ''lastSeqNo'' TString,
      optional ''lastOffset'' TString,
      optional ''log'' TString]"

definition type_RecoverylogFnodeSegments :: ty where
  "type_RecoverylogFnodeSegments = TInterface
     [optional ''fnode'' TString,
      optional ''segments'' (TArray type_RecoverylogSegment)]"

definition type_RecoverylogProperty :: ty where
  "type_RecoverylogProperty = TInterface
     [optional ''path'' TString,
      optional ''content'' TString]"

definition type_RecoverylogFSMHints :: ty where
  "type_RecoverylogFSMHints = TInterface
     [optional ''log'' TString,
      optional ''liveNodes'' (TArray type_RecoverylogFnodeSegments),
      optional ''properties'' (TArray type_RecoverylogProperty)]"

definition type_GetHintsResponseResponseHints :: ty where
  "type_GetHintsResponseResponseHints = TInterface
     [optional ''hints'' type_RecoverylogFSMHints]"

definition type_ConsumerApplyRequestChange :: ty where
  "type_ConsumerApplyRequestChange = TInterface
     [optional ''expectModRevision'' TString,
      optional ''upsert'' type_ConsumerShardSpec,
      optional ''delete'' TString]"

definition type_ConsumerApplyResponse :: ty where
  "type_ConsumerApplyResponse = TInterface
     [optional ''status'' type_ConsumerStatus,
      optional ''header'' type_ProtocolHeader,
      optional ''extension'' TString]"

definition type_ConsumerGetHintsResponse :: ty where
  "type_ConsumerGetHintsResponse = TInterface
     [optional ''status'' type_ConsumerStatus,
      optional ''header'' type_ProtocolHeader,
      optional ''primaryHints'' type_GetHintsResponseResponseHints,
      optional ''backupHints'' (TArray type_GetHintsResponseResponseHints),
      optional ''extension'' TString]"

definition type_ConsumerUnassignResponse :: ty where
  "type_ConsumerUnassignResponse = TInterface
     [optional ''status'' type_ConsumerStatus,
      optional ''shards'' (TArray TString)]"

end
