(* ===== verification/Client_Types.thy ===== *)
theory Client_Types
  imports Journal_Client Shard_Client Published_Broker Published_Consumer
begin

text \<open>
  The clients against the published declarations: which requests and which results have the types
  that the signatures of \<open>client/dist/src\<close> promise. The methods assert with \<open>!\<close> that optional
  properties are there; where the assertion fails, a result holds \<open>undefined\<close> in their place.
\<close>

text \<open>The interface \<open>Shard\<close> that \<open>ShardClient.list\<close> promises: both properties are required.\<close>

definition type_Shard :: ty where
  "type_Shard = TInterface
     [required ''spec'' type_ConsumerShardSpec,
      required ''status'' (TArray type_ConsumerReplicaStatus)]"

text \<open>The two files that repeat the shared types agree on them.\<close>

lemma shared_types_agree:
  "Published_Broker.type_ProtocolLabelSelector = Published_Consumer.type_ProtocolLabelSelector"
  "Published_Broker.type_ProtocolHeader = Published_Consumer.type_ProtocolHeader"
  "Published_Broker.type_RuntimeError = Published_Consumer.type_RuntimeError"
  by (simp_all add: Published_Broker.type_ProtocolLabelSelector_def Published_Consumer.type_ProtocolLabelSelector_def
      Published_Broker.type_ProtocolLabelSet_def Published_Consumer.type_ProtocolLabelSet_def
      Published_Broker.type_ProtocolLabel_def Published_Consumer.type_ProtocolLabel_def
      Published_Broker.type_ProtocolHeader_def Published_Consumer.type_ProtocolHeader_def
      Published_Broker.type_ProcessSpecID_def Published_Consumer.type_ProcessSpecID_def
      Published_Broker.type_ProtocolRoute_def Published_Consumer.type_ProtocolRoute_def
      Published_Broker.type_HeaderEtcd_def Published_Consumer.type_HeaderEtcd_def
      Published_Broker.type_RuntimeError_def Published_Consumer.type_RuntimeError_def
      Published_Broker.type_ProtobufAny_def Published_Consumer.type_ProtobufAny_def)

section \<open>Requests\<close>

lemma selector_body_typed:
  "selector_body inc exc w = json_of_ProtocolListRequest
     \<lparr>ProtocolListRequest.selector = Some \<lparr>Broker_Types.ProtocolLabelSelector.include' = Some (argument_labels inc w),
        exclude' = Some (argument_labels exc w)\<rparr>\<rparr>"
  by (simp add: selector_body_def json_of_ProtocolListRequest_def Broker_Types.json_of_ProtocolLabelSelector_def
      json_object_def present_def del: js_Cons)

lemma conforms_interface_prefix:
  assumes "conforms (TInterface fs) (JObj kvs)" and "\<And>k p t. (k, p, t) \<in> set gs \<Longrightarrow> p = Optional"
    and "\<And>g. g \<in> set gs \<Longrightarrow> js (fst g) \<notin> set (map fst kvs)"
  shows "conforms (TInterface (fs @ gs)) (JObj kvs)"
proof -
  have "prop_value (js (fst g)) kvs = JUndefined \<and> fst (snd g) = Optional" if "g \<in> set gs" for g
  proof
    have "map_of kvs (js (fst g)) = None"
      using assms(3) [OF that] by (simp add: map_of_eq_None_iff)
    then show "prop_value (js (fst g)) kvs = JUndefined"
      by (simp add: prop_value_def)
    show "fst (snd g) = Optional"
      using assms(2) [of "fst g" "fst (snd g)" "snd (snd g)"] that by simp
  qed
  with assms(1) show ?thesis by (auto simp: list_all_iff)
qed

text \<open>One body serves both list calls: it has the request types of both protocols.\<close>

lemma list_request_declared:
  "conforms type_ProtocolListRequest (selector_body inc exc w)
   \<and> conforms type_ConsumerListRequest (selector_body inc exc w)"
proof
  show broker: "conforms type_ProtocolListRequest (selector_body inc exc w)"
    unfolding selector_body_typed by (rule conforming)
  have "conforms (TInterface ([optional ''selector'' Published_Consumer.type_ProtocolLabelSelector]
      @ [optional ''extension'' TString])) (selector_body inc exc w)"
    unfolding selector_body_def
    by (rule conforms_interface_prefix)
      (use broker in \<open>simp_all add: selector_body_def type_ProtocolListRequest_def optional_def
         shared_types_agree js_inject del: js_Cons js_Nil\<close>)
  then show "conforms type_ConsumerListRequest (selector_body inc exc w)"
    by (simp add: type_ConsumerListRequest_def)
qed

section \<open>Results of the list calls\<close>

text \<open>
  What a list call makes of the array in the response: nothing without it, otherwise one item
  each, in order.
\<close>

fun list_outcome ::
  "jsval \<Rightarrow> (jsval \<Rightarrow> 'a \<Rightarrow> bool) \<Rightarrow> ('a list, 'e) Result promise \<Rightarrow> bool" where
  "list_outcome (JArr xs) good p = (\<exists>ys. p = Fulfilled (Result_Ok ys) \<and> list_all2 good xs ys)"
| "list_outcome v good p = (p = Rejected TypeError)"

definition settled :: "'a completion \<Rightarrow> ('a, 'e) Result promise" where
  "settled c = (case c of Inl e \<Rightarrow> Rejected e | Inr x \<Rightarrow> Fulfilled (Result_Ok x))"

lemma list_outcome_array_map:
  assumes "conforms_opt (TArray t) v" and "\<And>x. conforms t x \<Longrightarrow> \<exists>y. f x = Inr y \<and> good x y"
  shows "list_outcome v good (settled (array_map f v))"
proof (cases "v = JUndefined")
  case False
  then obtain xs where v: "v = JArr xs" and xs: "\<forall>x \<in> set xs. conforms t x"
    using assms(1) by (auto simp: conforms_opt_TArray)
  from xs have "\<exists>ys. mapC f xs = Inr ys \<and> list_all2 good xs ys"
    by (induction xs) (auto dest: assms(2))
  with v show ?thesis by (auto simp: settled_def)
qed (simp add: settled_def)

definition declared_spec :: "jsval \<Rightarrow> jsval \<Rightarrow> bool" where
  "declared_spec j x \<longleftrightarrow> js_get j (js ''spec'') = Inr x \<and> conforms_opt type_ProtocolJournalSpec x"

definition declared_shard :: "jsval \<Rightarrow> jsval \<Rightarrow> bool" where
  "declared_shard s x \<longleftrightarrow> (\<exists>sp st. js_get s (js ''spec'') = Inr sp \<and> js_get s (js ''status'') = Inr st
     \<and> x = JObj [(js ''spec'', sp), (js ''status'', st)]
     \<and> (conforms type_Shard x \<longleftrightarrow> sp \<noteq> JUndefined \<and> st \<noteq> JUndefined))"

text \<open>Reading the properties the methods read, of a value with the declared type.\<close>

lemma declared_gets:
  "conforms type_ProtocolListResponse v \<Longrightarrow>
     \<exists>x. js_get v (js ''journals'') = Inr x \<and> conforms_opt (TArray type_ListResponseJournal) x"
  "conforms type_ListResponseJournal v \<Longrightarrow>
     \<exists>x. js_get v (js ''spec'') = Inr x \<and> conforms_opt type_ProtocolJournalSpec x"
  "conforms type_ConsumerListResponse v \<Longrightarrow>
     \<exists>x. js_get v (js ''shards'') = Inr x \<and> conforms_opt (TArray type_ListResponseShard) x"
  "conforms type_ListResponseShard v \<Longrightarrow>
     \<exists>x. js_get v (js ''spec'') = Inr x \<and> conforms_opt type_ConsumerShardSpec x"
  "conforms type_ListResponseShard v \<Longrightarrow>
     \<exists>x. js_get v (js ''status'') = Inr x \<and> conforms_opt (TArray type_ConsumerReplicaStatus) x"
  unfolding type_ProtocolListResponse_def type_ListResponseJournal_def type_ConsumerListResponse_def
    type_ListResponseShard_def
  by (erule conforms_get_optional, simp add: optional_def)+

lemma journal_specs_declared:
  assumes "conforms type_ProtocolListResponse v" and "js_get v (js ''journals'') = Inr xs"
  shows "list_outcome xs declared_spec (settled (journal_specs v))"
  using declared_gets(1) [OF assms(1)] assms(2)
  by (auto simp: journal_specs_def declared_spec_def simp del: js_Cons
      intro!: list_outcome_array_map dest!: declared_gets(2))

lemma shard_list_declared:
  assumes "conforms type_ConsumerListResponse v" and "js_get v (js ''shards'') = Inr xs"
  shows "list_outcome xs declared_shard (settled (shard_list v))"
proof -
  let ?item = "\<lambda>s. bindC (js_get s (js ''spec'')) (\<lambda>sp. bindC (js_get s (js ''status'')) (\<lambda>st.
    Inr (JObj [(js ''spec'', sp), (js ''status'', st)])))"
  have "\<exists>y. ?item s = Inr y \<and> declared_shard s y" if s: "conforms type_ListResponseShard s" for s
  proof -
    obtain sp st where sp: "js_get s (js ''spec'') = Inr sp" "conforms_opt type_ConsumerShardSpec sp"
      and st: "js_get s (js ''status'') = Inr st" "conforms_opt (TArray type_ConsumerReplicaStatus) st"
      using declared_gets(4,5) [OF s] by blast
    have "conforms type_Shard (JObj [(js ''spec'', sp), (js ''status'', st)])
        \<longleftrightarrow> sp \<noteq> JUndefined \<and> st \<noteq> JUndefined"
      using sp(2) st(2)
      by (auto simp: type_Shard_def required_def prop_value_def conforms_opt_def js_inject
          simp del: js_Cons js_Nil conforms.simps(5))
    with sp(1) st(1) show ?thesis by (auto simp: declared_shard_def simp del: js_Cons)
  qed
  with declared_gets(3) [OF assms(1)] assms(2) show ?thesis
    by (auto simp: shard_list_def simp del: js_Cons intro!: list_outcome_array_map)
qed

section \<open>Read responses\<close>

text \<open>
  The frames of a read: an object with the response in \<open>result\<close>. The client has no declaration for
  it; a frame with an error in its place has the type, too.
\<close>

definition type_frame :: ty where
  "type_frame = TInterface [optional ''result'' type_ProtocolReadResponse]"

definition frames_of :: "byte list stream \<Rightarrow> jsval list" where
  "frames_of body = text_values (concat (chunks (pipeThrough body text_decoder_stream)))"

lemma read_pipeline_declared:
  assumes "\<forall>f \<in> set (frames_of body). conforms type_frame f"
  shows "chunks (read_pipeline body) = map (\<lambda>f. projr (js_get f (js ''result''))) (frames_of body)
    \<and> (\<forall>x \<in> set (chunks (read_pipeline body)). conforms_opt type_ProtocolReadResponse x)"
proof -
  have get: "\<exists>x. js_get f (js ''result'') = Inr x \<and> conforms_opt type_ProtocolReadResponse x"
    if "f \<in> set (frames_of body)" for f
    using bspec [OF assms that] unfolding type_frame_def
    by (rule conforms_get_optional) (simp add: optional_def)
  let ?st = "pipeThrough (pipeThrough (pipeThrough body text_decoder_stream) (splitStream newline)) parseJSONStream"
  have "chunks ?st = frames_of body" by (simp add: split_parse_pipe frames_of_def)
  moreover from this have "read_pipeline body
      = \<lparr>chunks = map (\<lambda>f. projr (js_get f (js ''result''))) (chunks ?st), ending = ending ?st\<rparr>"
    unfolding read_pipeline_def by (intro unwrapResult_pipe) (use get in force)
  ultimately show ?thesis using get by fastforce
qed

section \<open>Errors\<close>

text \<open>
  The fields the class \<open>ResponseError\<close> declares: a body of one of the two error types and a
  status that is a string.
\<close>

definition declared_error :: "ResponseError \<Rightarrow> bool" where
  "declared_error e \<longleftrightarrow>
     (conforms Published_Broker.type_RuntimeError (error_body e) \<or> conforms type_RuntimeStreamError (error_body e))
     \<and> conforms TString (error_status e)"

lemma declared_error_gets:
  "conforms Published_Broker.type_RuntimeError v \<Longrightarrow>
     \<exists>x. js_get v (js ''code'') = Inr x \<and> conforms_opt TNumber x"
  "conforms type_RuntimeStreamError v \<Longrightarrow>
     \<exists>x. js_get v (js ''httpStatus'') = Inr x \<and> conforms_opt TString x"
  unfolding Published_Broker.type_RuntimeError_def type_RuntimeStreamError_def
  by (erule conforms_get_optional, simp add: optional_def)+

lemma number_not_declared: "conforms_opt TNumber (error_status e) \<Longrightarrow> \<not> declared_error e"
  by (auto simp: declared_error_def conforms_opt_def conforms_TString conforms_TNumber
      simp del: conforms.simps)

end
