(* ===== verification/Js_Action.thy ===== *)
theory Js_Action
  imports Js_Prelude
begin

text \<open>
  Statements that read and change a state and may throw, in the order the code has them: a state
  monad with exceptions. What a statement did to the state before it threw stays.
\<close>

named_theorems action_simps \<open>unfolding of actions\<close>

type_synonym ('st, 'a) action = "'st \<Rightarrow> 'a completion \<times> 'st"

definition returnA :: "'a \<Rightarrow> ('st, 'a) action" where
  "returnA x st = (Inr x, st)"

definition throwA :: "js_error \<Rightarrow> ('st, 'a) action" where
  "throwA e st = (Inl e, st)"

definition completeA :: "'a completion \<Rightarrow> ('st, 'a) action" where
  "completeA c st = (c, st)"

definition bindA :: "('st, 'a) action \<Rightarrow> ('a \<Rightarrow> ('st, 'b) action) \<Rightarrow> ('st, 'b) action" where
  "bindA m f st = (case m st of (Inl e, st') \<Rightarrow> (Inl e, st') | (Inr x, st') \<Rightarrow> f x st')"

text \<open>\<open>try { m } catch (e) { handler(e) }\<close>.\<close>

definition catchA :: "('st, 'a) action \<Rightarrow> (js_error \<Rightarrow> ('st, 'a) action) \<Rightarrow> ('st, 'a) action" where
  "catchA m handler st = (case m st of (Inl e, st') \<Rightarrow> handler e st' | (Inr x, st') \<Rightarrow> (Inr x, st'))"

text \<open>\<open>xs.forEach(f)\<close>: it stops at the first throw.\<close>

fun eachA :: "('a \<Rightarrow> ('st, unit) action) \<Rightarrow> 'a list \<Rightarrow> ('st, unit) action" where
  "eachA f [] = returnA ()"
| "eachA f (x # xs) = bindA (f x) (\<lambda>_. eachA f xs)"

declare returnA_def [action_simps] throwA_def [action_simps] completeA_def [action_simps]
  bindA_def [action_simps] catchA_def [action_simps]

end
