(* ===== verification/Js_Object.thy ===== *)
theory Js_Object
  imports Js_Action "HOL-Library.AList"
begin

text \<open>
  Objects as the language has them: a heap of objects whose properties carry attributes, with the
  operations the compiled classes use (\<open>Object.defineProperty\<close>, assignment in strict mode,
  \<open>Object.freeze\<close>) and the other ways a program can change an object. Classes and modules are
  strict code, so an assignment that is not allowed throws.
\<close>

section \<open>Objects\<close>

text \<open>The value of a property is \<open>None\<close> when it is \<open>undefined\<close>.\<close>

record 'v property =
  pvalue :: "'v option"
  writable :: bool
  enumerable :: bool
  configurable :: bool

record 'v js_object =
  properties :: "(string \<times> 'v property) list"
  extensible :: bool

type_synonym 'v heap = "'v js_object list"
type_synonym addr = nat

section \<open>Operations\<close>

definition own_property :: "'v heap \<Rightarrow> addr \<Rightarrow> string \<Rightarrow> 'v property option" where
  "own_property h a k = map_of (properties (h ! a)) k"

definition put_property :: "addr \<Rightarrow> string \<Rightarrow> 'v property \<Rightarrow> 'v heap \<Rightarrow> 'v heap" where
  "put_property a k p h = h[a := (h ! a)\<lparr>properties := AList.update k p (properties (h ! a))\<rparr>]"

definition js_new :: "('v heap, addr) action" where
  "js_new h = (Inr (length h), h @ [\<lparr>properties = [], extensible = True\<rparr>])"

text \<open>\<open>Object.defineProperty\<close> with a descriptor that names all four attributes.\<close>

definition may_define :: "'v heap \<Rightarrow> addr \<Rightarrow> string \<Rightarrow> 'v property \<Rightarrow> bool" where
  "may_define h a k d =
     (case own_property h a k of
        None \<Rightarrow> extensible (h ! a)
      | Some c \<Rightarrow> configurable c \<or>
          \<not> configurable d \<and> enumerable d = enumerable c \<and>
          (writable c \<or> \<not> writable d \<and> pvalue d = pvalue c))"

definition js_defineProperty :: "addr \<Rightarrow> string \<Rightarrow> 'v property \<Rightarrow> ('v heap, unit) action" where
  "js_defineProperty a k d h =
     (if a < length h \<and> may_define h a k d then (Inr (), put_property a k d h) else (Inl TypeError, h))"

text \<open>\<open>o.k = v\<close>, for a name that the prototype has no setter and no constant for.\<close>

definition js_assign :: "addr \<Rightarrow> string \<Rightarrow> 'v option \<Rightarrow> ('v heap, unit) action" where
  "js_assign a k v h =
     (if length h \<le> a then (Inl TypeError, h)
      else case own_property h a k of
        Some c \<Rightarrow> if writable c then (Inr (), put_property a k (c\<lparr>pvalue := v\<rparr>) h) else (Inl TypeError, h)
      | None \<Rightarrow>
          if extensible (h ! a) then
            (Inr (), put_property a k
               \<lparr>pvalue = v, writable = True, enumerable = True, configurable = True\<rparr> h)
          else (Inl TypeError, h))"

definition js_delete :: "addr \<Rightarrow> string \<Rightarrow> ('v heap, unit) action" where
  "js_delete a k h =
     (case own_property h a k of
        Some c \<Rightarrow>
          if a < length h \<and> configurable c then
            (Inr (), h[a := (h ! a)\<lparr>properties := AList.delete k (properties (h ! a))\<rparr>])
          else (Inl TypeError, h)
      | None \<Rightarrow> (Inr (), h))"

definition frozen_property :: "'v property \<Rightarrow> 'v property" where
  "frozen_property p = p\<lparr>writable := False, configurable := False\<rparr>"

definition frozen_object :: "'v js_object \<Rightarrow> 'v js_object" where
  "frozen_object ob = \<lparr>properties = map (apsnd frozen_property) (properties ob), extensible = False\<rparr>"

definition js_freeze :: "addr \<Rightarrow> ('v heap, addr) action" where
  "js_freeze a h = (Inr a, h[a := frozen_object (h ! a)])"

definition js_preventExtensions :: "addr \<Rightarrow> ('v heap, addr) action" where
  "js_preventExtensions a h = (Inr a, h[a := (h ! a)\<lparr>extensible := False\<rparr>])"

definition js_field :: "'v heap \<Rightarrow> addr \<Rightarrow> string \<Rightarrow> 'v option" where
  "js_field h a k = (case own_property h a k of None \<Rightarrow> None | Some p \<Rightarrow> pvalue p)"

definition js_read :: "addr \<Rightarrow> string \<Rightarrow> ('v heap, 'v option) action" where
  "js_read a k h = (Inr (js_field h a k), h)"

declare js_read_def [action_simps]

section \<open>What a program can do\<close>

text \<open>Any sequence of operations on any objects, whether they succeed or throw.\<close>

inductive heap_step :: "'v heap \<Rightarrow> 'v heap \<Rightarrow> bool" where
  creates: "heap_step h (snd (js_new h))"
| redefines: "heap_step h (snd (js_defineProperty a k d h))"
| assigns: "heap_step h (snd (js_assign a k v h))"
| deletes: "heap_step h (snd (js_delete a k h))"
| freezes: "heap_step h (snd (js_freeze a h))"
| prevents: "heap_step h (snd (js_preventExtensions a h))"

definition is_frozen :: "'v js_object \<Rightarrow> bool" where
  "is_frozen ob \<longleftrightarrow> \<not> extensible ob \<and>
     (\<forall>p \<in> set (properties ob). \<not> writable (snd p) \<and> \<not> configurable (snd p))"

lemma is_frozen_property:
  "is_frozen (h ! a) \<Longrightarrow> own_property h a k = Some c \<Longrightarrow> \<not> writable c \<and> \<not> configurable c"
  by (auto simp: is_frozen_def own_property_def dest!: map_of_SomeD dest: bspec [of _ _ "(k, c)"])

lemma update_same: "map_of ps k = Some v \<Longrightarrow> AList.update k v ps = ps"
  by (induction ps) (auto split: if_splits)

lemma put_same: "own_property h a k = Some p \<Longrightarrow> put_property a k p h = h"
  by (simp add: put_property_def own_property_def update_same)

lemma frozen_frozen: "is_frozen ob \<Longrightarrow> frozen_object ob = ob"
  by (cases ob) (auto simp: is_frozen_def frozen_object_def frozen_property_def intro!: map_idI)

lemma frozen_object_frozen: "is_frozen (frozen_object ob)"
  by (auto simp: is_frozen_def frozen_object_def frozen_property_def)

lemma put_other: "b \<noteq> a \<Longrightarrow> put_property b k p h ! a = h ! a"
  by (simp add: put_property_def)

lemma length_put [simp]: "length (put_property a k p h) = length h"
  by (simp add: put_property_def)

lemma frozen_may_define:
  assumes "is_frozen (h ! a)" and "may_define h a k d"
  shows "own_property h a k = Some d"
proof (cases "own_property h a k")
  case None
  with assms show ?thesis by (simp add: may_define_def is_frozen_def)
next
  case (Some c)
  with assms show ?thesis
    using is_frozen_property [OF assms(1) Some] by (cases c; cases d) (simp add: may_define_def)
qed

lemma frozen_assign:
  assumes "a < length h" and "is_frozen (h ! a)"
  shows "js_assign a k v h = (Inl TypeError, h)"
proof (cases "own_property h a k")
  case None
  with assms show ?thesis by (simp add: js_assign_def is_frozen_def)
next
  case (Some c)
  with assms is_frozen_property [OF assms(2) Some] show ?thesis by (simp add: js_assign_def)
qed

text \<open>No operation changes a frozen object.\<close>

lemma frozen_step:
  "heap_step h h' \<Longrightarrow> a < length h \<Longrightarrow> is_frozen (h ! a) \<Longrightarrow> a < length h' \<and> h' ! a = h ! a"
proof (induction rule: heap_step.induct)
  case (creates h)
  then show ?case by (simp add: js_new_def nth_append)
next
  case (redefines h b k d)
  then show ?case
    by (cases "b = a") (auto simp: js_defineProperty_def put_other put_same dest: frozen_may_define)
next
  case (assigns h b k v)
  then show ?case
    by (cases "b = a") (auto simp: frozen_assign, auto simp: js_assign_def put_other split: option.split)
next
  case (deletes h b k)
  then show ?case
    by (cases "b = a") (auto simp: js_delete_def dest: is_frozen_property split: option.split)
next
  case (freezes h b)
  then show ?case by (cases "b = a") (auto simp: js_freeze_def frozen_frozen)
next
  case (prevents h b)
  then show ?case by (cases "b = a") (auto simp: js_preventExtensions_def is_frozen_def)
qed

lemma heap_step_length: "heap_step h h' \<Longrightarrow> length h \<le> length h'"
  by (induction rule: heap_step.induct)
    (auto simp: js_new_def js_defineProperty_def js_assign_def js_delete_def js_freeze_def
      js_preventExtensions_def split: option.split)

lemma heap_steps_length: "heap_step\<^sup>*\<^sup>* h h' \<Longrightarrow> length h \<le> length h'"
  by (induction rule: rtranclp_induct) (auto dest: heap_step_length)

lemma frozen_for_ever:
  assumes "heap_step\<^sup>*\<^sup>* h h'" and "a < length h" and "is_frozen (h ! a)"
  shows "a < length h' \<and> h' ! a = h ! a"
  using assms by (induction rule: rtranclp_induct) (auto dest: frozen_step)

section \<open>Constructors\<close>

text \<open>
  What the compiler makes of a class with declared fields: the constructor defines each field as
  \<open>undefined\<close> and then assigns to each.
\<close>

definition field_descriptor :: "'v property" where
  "field_descriptor = \<lparr>pvalue = None, writable = True, enumerable = True, configurable = True\<rparr>"

definition construct :: "(string \<times> 'v option) list \<Rightarrow> ('v heap, addr) action" where
  "construct fs =
     bindA js_new (\<lambda>self.
     bindA (eachA (\<lambda>f. js_defineProperty self (fst f) field_descriptor) fs) (\<lambda>_.
     bindA (eachA (\<lambda>f. js_assign self (fst f) (snd f)) fs) (\<lambda>_. returnA self)))"

definition plain_object :: "(string \<times> 'v option) list \<Rightarrow> 'v js_object" where
  "plain_object fs = \<lparr>properties = map (apsnd (\<lambda>v. field_descriptor\<lparr>pvalue := v\<rparr>)) fs, extensible = True\<rparr>"

lemma put_last:
  "put_property (length h) k p (h @ [ob]) = h @ [ob\<lparr>properties := AList.update k p (properties ob)\<rparr>]"
  by (simp add: put_property_def)

lemma own_last: "own_property (h @ [ob]) (length h) k = map_of (properties ob) k"
  by (simp add: own_property_def)

lemma update_new: "k \<notin> fst ` set ps \<Longrightarrow> AList.update k v ps = ps @ [(k, v)]"
  by (induction ps) auto

lemma update_middle: "k \<notin> fst ` set ps \<Longrightarrow> AList.update k v (ps @ (k, w) # qs) = ps @ (k, v) # qs"
  by (induction ps) auto

abbreviation fields_object :: "(string \<times> 'v property) list \<Rightarrow> 'v js_object" where
  "fields_object ps \<equiv> \<lparr>properties = ps, extensible = True\<rparr>"

lemma define_fields:
  "distinct (map fst ps @ map fst fs) \<Longrightarrow>
     eachA (\<lambda>f. js_defineProperty (length h) (fst f) field_descriptor) fs (h @ [fields_object ps])
       = (Inr (), h @ [fields_object (ps @ map (apsnd (\<lambda>_. field_descriptor)) fs)])"
proof (induction fs arbitrary: ps)
  case (Cons f fs)
  then have new: "fst f \<notin> fst ` set ps" by auto
  then have "map_of ps (fst f) = None" by (simp add: map_of_eq_None_iff)
  with new have "js_defineProperty (length h) (fst f) field_descriptor (h @ [fields_object ps])
      = (Inr (), h @ [fields_object (ps @ [(fst f, field_descriptor)])])"
    by (simp add: js_defineProperty_def may_define_def own_last put_last update_new)
  with Cons.IH [of "ps @ [(fst f, field_descriptor)]"] Cons.prems show ?case
    by (cases f) (simp add: bindA_def)
qed (simp add: returnA_def)

lemma assign_fields:
  "distinct (map fst ps @ map fst fs) \<Longrightarrow>
     eachA (\<lambda>f. js_assign (length h) (fst f) (snd f)) fs
       (h @ [fields_object (ps @ map (apsnd (\<lambda>_. field_descriptor)) fs)])
     = (Inr (), h @ [fields_object (ps @ map (apsnd (\<lambda>v. field_descriptor\<lparr>pvalue := v\<rparr>)) fs)])"
proof (induction fs arbitrary: ps)
  case (Cons f fs)
  let ?d = "field_descriptor\<lparr>pvalue := snd f\<rparr>"
  let ?rest = "map (apsnd (\<lambda>_. field_descriptor)) fs"
  from Cons.prems have new: "fst f \<notin> fst ` set ps" by auto
  then have "map_of ps (fst f) = None" by (simp add: map_of_eq_None_iff)
  then have "map_of (ps @ (fst f, field_descriptor) # ?rest) (fst f) = Some field_descriptor"
    by (simp add: map_add_def)
  then have "js_assign (length h) (fst f) (snd f) (h @ [fields_object (ps @ (fst f, field_descriptor) # ?rest)])
      = (Inr (), h @ [fields_object ((ps @ [(fst f, ?d)]) @ ?rest)])"
    using update_middle [OF new]
    by (simp add: js_assign_def own_last put_last) (simp add: field_descriptor_def)
  with Cons.IH [of "ps @ [(fst f, ?d)]"] Cons.prems show ?case
    by (cases f) (simp add: bindA_def)
qed (simp add: returnA_def)

text \<open>A constructed object is new and plain: its fields in order, and nothing fixed.\<close>

lemma construct_object:
  assumes "distinct (map fst fs)"
  shows "construct fs h = (Inr (length h), h @ [plain_object fs])"
  using define_fields [of "[]" fs h] assign_fields [of "[]" fs h] assms
  by (simp add: construct_def bindA_def js_new_def returnA_def plain_object_def)

lemma map_of_apsnd: "map_of (map (apsnd f) ps) k = map_option f (map_of ps k)"
  by (induction ps) auto

lemma plain_field: "js_field (h @ [plain_object fs]) (length h) k = (case map_of fs k of Some v \<Rightarrow> v | None \<Rightarrow> None)"
  by (simp add: js_field_def own_last plain_object_def map_of_apsnd split: option.split)

lemma plain_not_frozen: "\<not> is_frozen (plain_object fs)"
  by (simp add: is_frozen_def plain_object_def)

lemma frozen_fields: "h' ! a = frozen_object (h ! a) \<Longrightarrow> js_field h' a k = js_field h a k"
  by (simp add: js_field_def own_property_def frozen_object_def map_of_apsnd frozen_property_def split: option.split)

lemma same_fields: "h' ! a = h ! a \<Longrightarrow> js_field h' a k = js_field h a k"
  by (simp add: js_field_def own_property_def)

end
