(* ===== verification/Published_Classes.thy ===== *)
theory Published_Classes
  imports Js_Object Result_Type
begin

text \<open>
  The classes as the package publishes them, compiled to \<open>client/dist/esm\<close> (for \<open>client/dist/script\<close>
  see \<open>Script_Bodies\<close>): instances are objects on the heap, so that freezing
  and later assignments matter. \<open>Result\<close> is modelled with all its methods, of the other classes the
  constructors; their methods follow in \<open>Published_Util\<close>, \<open>Published_Selectors\<close>, \<open>Published_Client\<close>.
\<close>

section \<open>Constructors\<close>

definition published_Result :: "'v option \<Rightarrow> 'v option \<Rightarrow> ('v heap, addr) action" where
  "published_Result value_arg error_arg = construct [(''value'', value_arg), (''error'', error_arg)]"

definition published_ResponseError :: "'v option \<Rightarrow> 'v option \<Rightarrow> 'v option \<Rightarrow> ('v heap, addr) action" where
  "published_ResponseError body response_arg status_arg =
     construct [(''body'', body), (''response'', response_arg), (''status'', status_arg)]"

definition published_JournalClient :: "'v option \<Rightarrow> 'v option \<Rightarrow> ('v heap, addr) action" where
  "published_JournalClient base_url auth_token =
     construct [(''authToken'', auth_token), (''baseUrl'', base_url)]"

definition published_ShardClient :: "'v option \<Rightarrow> 'v option \<Rightarrow> ('v heap, addr) action" where
  "published_ShardClient base_url auth_token =
     construct [(''authToken'', auth_token), (''baseUrl'', base_url)]"

text \<open>\<open>Selector\<close> and its subclasses, which have no constructor of their own: \<open>empty_array\<close> is the
  new array.\<close>

definition published_Selector :: "'v \<Rightarrow> ('v heap, addr) action" where
  "published_Selector empty_array = construct [(''labels'', Some empty_array)]"

section \<open>Result\<close>

definition published_Ok :: "'v \<Rightarrow> ('v heap, addr) action" where
  "published_Ok v = bindA (published_Result (Some v) None) (\<lambda>self. js_freeze self)"

definition published_Err :: "'v \<Rightarrow> ('v heap, addr) action" where
  "published_Err e = bindA (published_Result None (Some e)) (\<lambda>self. js_freeze self)"

definition published_ok :: "('v \<Rightarrow> bool) \<Rightarrow> addr \<Rightarrow> ('v heap, bool) action" where
  "published_ok truthy this = bindA (js_read this ''value'') (\<lambda>v. returnA (field_truthy truthy v))"

definition published_err :: "('v \<Rightarrow> bool) \<Rightarrow> addr \<Rightarrow> ('v heap, bool) action" where
  "published_err truthy this = bindA (js_read this ''error'') (\<lambda>e. returnA (field_truthy truthy e))"

text \<open>A field that has passed the test of truthiness holds a value.\<close>

definition published_unwrap ::
  "('v \<Rightarrow> bool) \<Rightarrow> ('v \<Rightarrow> js_string completion) \<Rightarrow> addr \<Rightarrow> ('v heap, 'v) action" where
  "published_unwrap truthy printer this =
     bindA (js_read this ''value'') (\<lambda>v.
       if field_truthy truthy v then bindA (js_read this ''value'') (\<lambda>v. returnA (the v))
       else bindA (js_read this ''error'') (\<lambda>e.
         bindA (completeA (template_field printer e)) (\<lambda>s.
           throwA (ThrownString (js ''Attempted to unwrap an Result, but found error: '' @ s)))))"

definition published_unwrap_err ::
  "('v \<Rightarrow> bool) \<Rightarrow> ('v \<Rightarrow> js_string completion) \<Rightarrow> addr \<Rightarrow> ('v heap, 'v) action" where
  "published_unwrap_err truthy printer this =
     bindA (js_read this ''error'') (\<lambda>e.
       if field_truthy truthy e then bindA (js_read this ''error'') (\<lambda>e. returnA (the e))
       else bindA (js_read this ''value'') (\<lambda>v.
         bindA (completeA (template_field printer v)) (\<lambda>s.
           throwA (ThrownString (js ''Attempted to unwrap an Result error, but found value: '' @ s)))))"

text \<open>The function passed to \<open>map\<close> is a caller's: it may throw and change the heap.\<close>

definition published_map ::
  "('v \<Rightarrow> bool) \<Rightarrow> ('v \<Rightarrow> ('v heap, 'v) action) \<Rightarrow> addr \<Rightarrow> ('v heap, addr) action" where
  "published_map truthy f this =
     bindA (js_read this ''value'') (\<lambda>v.
       if field_truthy truthy v then
         bindA (js_read this ''value'') (\<lambda>v.
         bindA (f (the v)) (\<lambda>u. published_Result (Some u) None))
       else bindA (js_read this ''error'') (\<lambda>e. published_Result None e))"

definition published_map_err ::
  "('v \<Rightarrow> bool) \<Rightarrow> ('v \<Rightarrow> ('v heap, 'v) action) \<Rightarrow> addr \<Rightarrow> ('v heap, addr) action" where
  "published_map_err truthy f this =
     bindA (js_read this ''error'') (\<lambda>e.
       if field_truthy truthy e then
         bindA (js_read this ''error'') (\<lambda>e.
         bindA (f (the e)) (\<lambda>u. published_Result None (Some u)))
       else bindA (js_read this ''value'') (\<lambda>v. published_Result v None))"

section \<open>Refinement of the class in the sources\<close>

text \<open>The record of \<open>Result_Type\<close> that an object on the heap stands for.\<close>

definition result_at :: "'v heap \<Rightarrow> addr \<Rightarrow> ('v, 'v) Result" where
  "result_at h a = \<lparr>value' = js_field h a ''value'', error = js_field h a ''error''\<rparr>"

lemma result_at_fields:
  "js_field h a ''value'' = value' (result_at h a)" "js_field h a ''error'' = error (result_at h a)"
  by (simp_all add: result_at_def)

lemma published_ok_refines: "published_ok truthy a h = (Inr (Result_ok truthy (result_at h a)), h)"
  by (simp add: published_ok_def action_simps result_at_fields Result_ok_def)

lemma published_err_refines: "published_err truthy a h = (Inr (Result_err truthy (result_at h a)), h)"
  by (simp add: published_err_def action_simps result_at_fields Result_err_def)

lemma published_unwrap_refines:
  "published_unwrap truthy printer a h = (Result_unwrap truthy printer (result_at h a), h)"
  by (cases "template_field printer (error (result_at h a))"; cases "value' (result_at h a)")
    (simp_all add: published_unwrap_def action_simps result_at_fields Result_unwrap.simps
      field_truthy_def del: js_Cons)

lemma published_unwrap_err_refines:
  "published_unwrap_err truthy printer a h = (Result_unwrap_err truthy printer (result_at h a), h)"
  by (cases "template_field printer (value' (result_at h a))"; cases "error (result_at h a)")
    (simp_all add: published_unwrap_err_def action_simps result_at_fields Result_unwrap_err.simps
      field_truthy_def del: js_Cons)

lemma published_Result_object:
  "published_Result v e h = (Inr (length h), h @ [plain_object [(''value'', v), (''error'', e)]])"
  by (simp add: published_Result_def construct_object)

lemma result_at_plain:
  "result_at (h @ [plain_object [(''value'', v), (''error'', e)]]) (length h) = \<lparr>value' = v, error = e\<rparr>"
  by (simp add: result_at_def plain_field)

text \<open>
  \<open>map\<close> with a caller's function that answers as \<open>g\<close> says and takes the heap to \<open>h'\<close>: a new
  object that stands for the result the source's \<open>map\<close> gives.
\<close>

lemma published_map_refines:
  assumes "\<And>v. f v h = (g v, h')" and "\<not> Result_ok truthy (result_at h a) \<Longrightarrow> h' = h"
  shows "published_map truthy f a h =
    (case Result_map truthy g (result_at h a) of
       Inl e \<Rightarrow> (Inl e, h')
     | Inr r \<Rightarrow> (Inr (length h'), h' @ [plain_object [(''value'', value' r), (''error'', error r)]]))"
  using assms
  by (cases "value' (result_at h a)"; cases "g (the (value' (result_at h a)))")
    (auto simp: published_map_def action_simps result_at_fields Result_map_def field_truthy_def
      published_Result_object Result_ok_def)

lemma published_map_err_refines:
  assumes "\<And>v. f v h = (g v, h')" and "\<not> Result_err truthy (result_at h a) \<Longrightarrow> h' = h"
  shows "published_map_err truthy f a h =
    (case Result_map_err truthy g (result_at h a) of
       Inl e \<Rightarrow> (Inl e, h')
     | Inr r \<Rightarrow> (Inr (length h'), h' @ [plain_object [(''value'', value' r), (''error'', error r)]]))"
  using assms
  by (cases "error (result_at h a)"; cases "g (the (error (result_at h a)))")
    (auto simp: published_map_err_def action_simps result_at_fields Result_map_err_def field_truthy_def
      published_Result_object Result_err_def)

section \<open>Frozen and other results\<close>

lemma published_Ok_object:
  "published_Ok v h = (Inr (length h),
     h @ [frozen_object (plain_object [(''value'', Some v), (''error'', None)])])"
  by (simp add: published_Ok_def published_Result_object bindA_def js_freeze_def)

lemma published_Err_object:
  "published_Err e h = (Inr (length h),
     h @ [frozen_object (plain_object [(''value'', None), (''error'', Some e)])])"
  by (simp add: published_Err_def published_Result_object bindA_def js_freeze_def)

lemma result_at_same: "h' ! a = h ! a \<Longrightarrow> result_at h' a = result_at h a"
  using same_fields [of h' a h] by (simp add: result_at_def)

lemma result_at_frozen:
  "result_at (h @ [frozen_object (plain_object [(''value'', v), (''error'', e)])]) (length h)
     = \<lparr>value' = v, error = e\<rparr>"
proof -
  let ?p = "plain_object [(''value'', v), (''error'', e)]"
  have "js_field (h @ [frozen_object ?p]) (length h) k = js_field (h @ [?p]) (length h) k" for k
    by (rule frozen_fields) simp
  then show ?thesis using result_at_plain [of h v e] by (simp add: result_at_def)
qed

text \<open>A frozen result is the same for ever, and assigning to it throws.\<close>

lemma frozen_result:
  assumes "h' = h @ [frozen_object (plain_object [(''value'', v), (''error'', e)])]"
    and "heap_step\<^sup>*\<^sup>* h' h''"
  shows "result_at h'' (length h) = \<lparr>value' = v, error = e\<rparr>
    \<and> js_assign (length h) k x h'' = (Inl TypeError, h'')"
proof -
  have "length h < length h'' \<and> h'' ! length h = h' ! length h"
    using assms by (intro frozen_for_ever) (simp_all add: frozen_object_frozen)
  with assms(1) show ?thesis
    using result_at_same [of h'' "length h" h'] result_at_frozen [of h v e]
    by (auto intro!: frozen_assign simp: frozen_object_frozen)
qed

text \<open>A result that \<open>map\<close> or \<open>map_err\<close> made is not: a program can give it any value.\<close>

lemma plain_result_assigned:
  "js_assign (length h) ''value'' x (h @ [plain_object [(''value'', v), (''error'', e)]])
     = (Inr (), h @ [plain_object [(''value'', x), (''error'', e)]])"
  by (simp add: js_assign_def own_last put_last plain_object_def field_descriptor_def)

end
