(* ===== verification/Published_Util.thy ===== *)
theory Published_Util
  imports Published_Classes Selectors
begin

text \<open>
  The world of the compiled classes of \<open>client/dist/esm\<close>: clients, selectors, results and errors are
  objects on the heap, methods read their fields through \<open>this\<close> when they run, and at every \<open>await\<close>
  other parts of the program run and may change the objects they know. With \<open>esm/util.js\<close>.
\<close>

section \<open>The world\<close>

text \<open>
  The values that the fields of the objects hold. JSON values, responses and streams are values
  here: no modelled code assigns to their properties.
\<close>

datatype pval =
    PUrl URL
  | PStr js_string
  | PArray nat
  | PResponse response
  | PThrown js_error
  | PJson jsval
  | PItems "jsval list"
  | PStream "jsval stream"
  | PRef addr

fun pval_truthy :: "pval \<Rightarrow> bool" where
  "pval_truthy (PStr s) = (s \<noteq> [])"
| "pval_truthy (PJson v) = js_truthy v"
| "pval_truthy _ = True"

definition json_field :: "jsval \<Rightarrow> pval option" where
  "json_field v = (if v = JUndefined then None else Some (PJson v))"

record published_world = client_world +
  objects :: "pval heap"

definition on_heap :: "(pval heap, 'a) action \<Rightarrow> (published_world, 'a) action" where
  "on_heap m w = (case m (objects w) of (c, h) \<Rightarrow> (c, w\<lparr>objects := h\<rparr>))"

text \<open>
  An asynchronous function gives a promise and the world in which it has come to that. \<open>others\<close> is
  what the rest of the program does while the function waits; it is told which objects it cannot
  know at that moment, because only the function that waits has a reference to them.
\<close>

type_synonym ('w, 'a) async = "'w \<Rightarrow> 'a promise \<times> 'w"
type_synonym 'w others = "addr set \<Rightarrow> 'w \<Rightarrow> 'w"

definition returnP :: "'a \<Rightarrow> ('w, 'a) async" where
  "returnP x w = (Fulfilled x, w)"

definition runP :: "('w, 'a) action \<Rightarrow> ('a \<Rightarrow> ('w, 'b) async) \<Rightarrow> ('w, 'b) async" where
  "runP m f w = (case m w of (Inl e, w') \<Rightarrow> (Rejected e, w') | (Inr x, w') \<Rightarrow> f x w')"

definition awaitP ::
  "('w \<Rightarrow> 'w) \<Rightarrow> ('w, 'a) async \<Rightarrow> ('a \<Rightarrow> ('w, 'b) async) \<Rightarrow> ('w, 'b) async" where
  "awaitP others m f w =
     (case m w of
        (Pending, w') \<Rightarrow> (Pending, w')
      | (Rejected e, w') \<Rightarrow> (Rejected e, w')
      | (Fulfilled x, w') \<Rightarrow> f x (others w'))"

text \<open>Waiting for an object: it is made before the wait is over, and nobody else has it yet.\<close>

definition await_objectP ::
  "'w others \<Rightarrow> ('w, addr) async \<Rightarrow> (addr \<Rightarrow> ('w, 'b) async) \<Rightarrow> ('w, 'b) async" where
  "await_objectP others m f w =
     (case m w of
        (Pending, w') \<Rightarrow> (Pending, w')
      | (Rejected e, w') \<Rightarrow> (Rejected e, w')
      | (Fulfilled a, w') \<Rightarrow> f a (others {a} w'))"

section \<open>util.js\<close>

definition published_doFetch ::
  "published_world others \<Rightarrow> network \<Rightarrow> js_string \<Rightarrow> js_string \<Rightarrow> jsval \<Rightarrow>
     (published_world, addr) async" where
  "published_doFetch others net url token body w =
     (case fetch net (authorized_request url token body) w of
        (Pending, w') \<Rightarrow> (Pending, w')
      | (Fulfilled r, w') \<Rightarrow>
          if response_ok r then runP (on_heap (published_Ok (PResponse r))) returnP (others {} w')
          else runP (on_heap (published_Err (PResponse r))) returnP (others {} w')
      | (Rejected e, w') \<Rightarrow> runP (on_heap (published_Err (PThrown e))) returnP (others {} w'))"

text \<open>The method \<open>json\<close>, which only responses have.\<close>

definition json_method :: "pval \<Rightarrow> ('w, jsval) async" where
  "json_method v w = (case v of PResponse r \<Rightarrow> (response_json r, w) | _ \<Rightarrow> (Rejected TypeError, w))"

definition published_fromResponse ::
  "published_world others \<Rightarrow> pval \<Rightarrow> (published_world, addr) async" where
  "published_fromResponse others response_arg =
     awaitP (others {}) (json_method response_arg) (\<lambda>body.
     runP (completeA (js_get body (js ''code''))) (\<lambda>status_code.
     runP (on_heap (published_ResponseError (json_field body) (Some response_arg) (json_field status_code)))
       returnP))"

definition published_fromStreamResponse ::
  "published_world others \<Rightarrow> pval \<Rightarrow> (published_world, addr) async" where
  "published_fromStreamResponse others response_arg =
     awaitP (others {}) (json_method response_arg) (\<lambda>body.
     runP (completeA (js_get body (js ''error''))) (\<lambda>err.
     runP (completeA (js_get err (js ''httpStatus''))) (\<lambda>status_code.
     runP (on_heap (published_ResponseError (json_field err) (Some response_arg) (json_field status_code)))
       returnP)))"

text \<open>\<open>sortBy(...fields)\<close>: the loop over the fields, from index \<open>i\<close> on.\<close>

function sort_loop :: "('a \<Rightarrow> js_string option) list \<Rightarrow> 'a \<Rightarrow> 'a \<Rightarrow> nat \<Rightarrow> int" where
  "sort_loop names a b i =
     (if i < length names then
        if field_less ((names ! i) b) ((names ! i) a) then 1
        else if field_less ((names ! i) a) ((names ! i) b) then -1
        else sort_loop names a b (i + 1)
      else 0)"
  by pat_completeness auto
termination
  by (relation "measure (\<lambda>(names, a, b, i). length names - i)") auto

declare sort_loop.simps [simp del]

definition published_sortBy :: "('a \<Rightarrow> js_string option) list \<Rightarrow> 'a \<Rightarrow> 'a \<Rightarrow> int" where
  "published_sortBy names a b = sort_loop names a b 0"

lemma sort_loop_drop: "sort_loop names a b i = sortBy (drop i names) a b"
proof (induction names a b i rule: sort_loop.induct)
  case (1 names a b i)
  then show ?case
    by (subst sort_loop.simps) (auto simp: Cons_nth_drop_Suc [symmetric])
qed

lemma published_sortBy_same: "published_sortBy = sortBy"
  by (simp add: fun_eq_iff published_sortBy_def sort_loop_drop)

section \<open>Other code meanwhile\<close>

text \<open>
  Other code may do anything to the heap, to any object, but change those that it cannot know.
\<close>

definition meanwhile :: "published_world others \<Rightarrow> bool" where
  "meanwhile others \<longleftrightarrow> (\<forall>unknown w. heap_step\<^sup>*\<^sup>* (objects w) (objects (others unknown w))
     \<and> (\<forall>a \<in> unknown. a < length (objects w) \<longrightarrow> objects (others unknown w) ! a = objects w ! a))"

text \<open>A result that is there to stay, and an error object.\<close>

definition final :: "pval heap \<Rightarrow> addr \<Rightarrow> pval option \<Rightarrow> pval option \<Rightarrow> bool" where
  "final h a v e \<longleftrightarrow> a < length h \<and> is_frozen (h ! a) \<and> result_at h a = \<lparr>Result.value' = v, error = e\<rparr>"

definition error_at :: "pval heap \<Rightarrow> addr \<Rightarrow> ResponseError \<Rightarrow> bool" where
  "error_at h b e \<longleftrightarrow> js_field h b ''body'' = json_field (error_body e) \<and>
     js_field h b ''response'' = Some (PResponse (error_response e)) \<and>
     js_field h b ''status'' = json_field (error_status e)"

lemma final_steps: "heap_step\<^sup>*\<^sup>* h h' \<Longrightarrow> final h a v e \<Longrightarrow> final h' a v e"
  using frozen_for_ever [of h h' a] result_at_same [of h' a h] by (auto simp: final_def)

lemma final_meanwhile: "meanwhile others \<Longrightarrow> final (objects w) a v e \<Longrightarrow> final (objects (others K w)) a v e"
  by (auto simp: meanwhile_def intro: final_steps)

lemma final_new:
  "final (h @ [frozen_object (plain_object [(''value'', v), (''error'', e)])]) (length h) v e"
  by (simp add: final_def frozen_object_frozen result_at_frozen)

lemma run_Ok: "runP (on_heap (published_Ok v)) f w
    = f (length (objects w)) (w\<lparr>objects := objects w @ [frozen_object (plain_object [(''value'', Some v), (''error'', None)])]\<rparr>)"
  by (simp add: runP_def on_heap_def published_Ok_object)

lemma run_Err: "runP (on_heap (published_Err e)) f w
    = f (length (objects w)) (w\<lparr>objects := objects w @ [frozen_object (plain_object [(''value'', None), (''error'', Some e)])]\<rparr>)"
  by (simp add: runP_def on_heap_def published_Err_object)

lemma run_ResponseError: "runP (on_heap (published_ResponseError b r s)) f w
    = f (length (objects w)) (w\<lparr>objects := objects w @ [plain_object [(''body'', b), (''response'', r), (''status'', s)]]\<rparr>)"
  by (simp add: runP_def on_heap_def published_ResponseError_def construct_object)

lemma run_ok: "final (objects w) a v e \<Longrightarrow>
    runP (on_heap (published_ok truthy a)) f w = f (field_truthy truthy v) w"
  by (simp add: runP_def on_heap_def published_ok_refines final_def Result_ok_def)

lemma run_unwrap: "final (objects w) a (Some v) e \<Longrightarrow> truthy v \<Longrightarrow>
    runP (on_heap (published_unwrap truthy printer a)) f w = f v w"
  by (simp add: runP_def on_heap_def published_unwrap_refines final_def Result_unwrap.simps)

lemma run_unwrap_err: "final (objects w) a v (Some e) \<Longrightarrow> truthy e \<Longrightarrow>
    runP (on_heap (published_unwrap_err truthy printer a)) f w = f e w"
  by (simp add: runP_def on_heap_def published_unwrap_err_refines final_def Result_unwrap_err.simps)

lemma run_complete: "runP (completeA c) f w = (case c of Inl e \<Rightarrow> (Rejected e, w) | Inr x \<Rightarrow> f x w)"
  by (simp add: runP_def completeA_def)

lemma run_throw: "runP (throwA e) f w = (Rejected e, w)"
  by (simp add: runP_def throwA_def)

lemmas run_simps = run_Ok run_Err run_ResponseError run_complete returnP_def awaitP_def

text \<open>
  What a call of the heap comes to, compared with an outcome of the source: the same, with the
  result or the error in objects.
\<close>

definition comes_to ::
  "('a \<Rightarrow> pval) \<Rightarrow> (ResponseError + 'a) promise \<Rightarrow> addr promise \<times> published_world \<Rightarrow> bool" where
  "comes_to wrap q o' =
     (case q of
        Pending \<Rightarrow> fst o' = Pending
      | Rejected e \<Rightarrow> fst o' = Rejected e
      | Fulfilled (Inr x) \<Rightarrow> (\<exists>a. fst o' = Fulfilled a \<and> final (objects (snd o')) a (Some (wrap x)) None)
      | Fulfilled (Inl e) \<Rightarrow> (\<exists>a b. fst o' = Fulfilled a
          \<and> final (objects (snd o')) a None (Some (PRef b)) \<and> error_at (objects (snd o')) b e))"

text \<open>The outcome of \<open>doFetch\<close>, with the result in the newest object.\<close>

definition fetched_result :: "response promise \<Rightarrow> (pval option \<times> pval option) promise" where
  "fetched_result p =
     (case p of
        Pending \<Rightarrow> Pending
      | Rejected e \<Rightarrow> Fulfilled (None, Some (PThrown e))
      | Fulfilled r \<Rightarrow> Fulfilled (if response_ok r then (Some (PResponse r), None) else (None, Some (PResponse r))))"

lemma published_doFetch_comes_to:
  assumes "meanwhile others"
    and "\<And>a w' v e. fetched_result (net (fetched w) (authorized_request url token body)) = Fulfilled (v, e) \<Longrightarrow>
      final (objects w') a v e \<Longrightarrow> comes_to wrap q (f a w')"
    and "fetched_result (net (fetched w) (authorized_request url token body)) = Pending \<Longrightarrow> q = Pending"
  shows "comes_to wrap q (awaitP (others {}) (published_doFetch others net url token body) f w)"
proof (cases "net (fetched w) (authorized_request url token body)")
  case Pending
  with assms(3) show ?thesis
    by (simp add: published_doFetch_def fetch_def awaitP_def fetched_result_def comes_to_def)
next
  case (Rejected e)
  then show ?thesis
    using assms(2) [of None "Some (PThrown e)"] final_meanwhile [OF assms(1)]
    by (simp add: published_doFetch_def fetch_def fetched_result_def run_simps final_new)
next
  case (Fulfilled r)
  then show ?thesis
    using assms(2) [of "Some (PResponse r)" None] assms(2) [of None "Some (PResponse r)"]
      final_meanwhile [OF assms(1)]
    by (simp add: published_doFetch_def fetch_def fetched_result_def run_simps final_new)
qed

text \<open>The error object stays what it is until it is in a result.\<close>

lemma error_result:
  assumes "meanwhile others" and "objects w = h @ [plain_object [(''body'', json_field (error_body e)),
      (''response'', Some (PResponse (error_response e))), (''status'', json_field (error_status e))]]"
  shows "comes_to wrap (Fulfilled (Inl e)) (runP (on_heap (published_Err (PRef (length h)))) returnP (others {length h} w))"
proof -
  let ?h = "objects (others {length h} w)"
  let ?res = "[frozen_object (plain_object [(''value'', None), (''error'', Some (PRef (length h)))])]"
  have same: "?h ! length h = objects w ! length h" and "length h < length ?h"
    using assms by (auto simp: meanwhile_def dest!: spec [of _ "{length h}"] spec [of _ w] dest: heap_steps_length)
  then have "js_field (?h @ ?res) (length h) k = js_field (objects w) (length h) k" for k
    by (intro same_fields) (simp add: nth_append)
  then have "error_at (?h @ ?res) (length h) e"
    using plain_field [of h "[(''body'', json_field (error_body e)),
      (''response'', Some (PResponse (error_response e))), (''status'', json_field (error_status e))]"]
    by (simp add: error_at_def assms(2))
  then show ?thesis
    by (simp add: comes_to_def run_simps final_new exI [of _ "length h"])
qed

end
