(* ===== verification/Published_Stages.thy ===== *)
theory Published_Stages
  imports Js_Action Streams
begin

text \<open>
  The stages as the package publishes them in \<open>client/dist/esm/streams.js\<close>, statement by statement:
  each \<open>enqueue\<close> is an effect on the controller. While the callbacks of a stage run its controller
  takes chunks: when the reader cancels, the Streams standard errors the writable side of the stage,
  and no callback runs after that. The callbacks are those of \<open>Streams\<close>.
\<close>

section \<open>Callbacks\<close>

text \<open>The state a callback works on: the closure's variable, and what it has enqueued in this call.\<close>

record ('s, 'b) stage_state =
  closure :: 's
  enqueued :: "'b list"

definition enqueue :: "'b \<Rightarrow> (('s, 'b) stage_state, unit) action" where
  "enqueue x st = (Inr (), st\<lparr>enqueued := enqueued st @ [x]\<rparr>)"

definition get_closure :: "(('s, 'b) stage_state, 's) action" where
  "get_closure st = (Inr (closure st), st)"

definition set_closure :: "'s \<Rightarrow> (('s, 'b) stage_state, unit) action" where
  "set_closure s st = (Inr (), st\<lparr>closure := s\<rparr>)"

declare get_closure_def [action_simps] set_closure_def [action_simps]

text \<open>\<open>buffer\<close> is \<open>None\<close> when it is \<open>undefined\<close>.\<close>

definition published_queueLines :: "js_string \<Rightarrow> ((js_string option, js_string) stage_state, unit) action" where
  "published_queueLines splitOn =
     bindA get_closure (\<lambda>buffer.
       case buffer of
         None \<Rightarrow> throwA TypeError
       | Some b \<Rightarrow>
           (let parts = js_split b splitOn in
            bindA (eachA enqueue (butlast parts)) (\<lambda>_.
            set_closure (if parts = [] then None else Some (last parts)))))"

definition published_split_transform ::
  "js_string \<Rightarrow> js_string \<Rightarrow> ((js_string option, js_string) stage_state, unit) action" where
  "published_split_transform splitOn chunk =
     bindA get_closure (\<lambda>buffer.
     bindA (set_closure (Some ((case buffer of None \<Rightarrow> js ''undefined'' | Some b \<Rightarrow> b) @ chunk))) (\<lambda>_.
     published_queueLines splitOn))"

definition published_split_flush :: "js_string \<Rightarrow> ((js_string option, js_string) stage_state, unit) action" where
  "published_split_flush splitOn =
     bindA get_closure (\<lambda>buffer.
       case buffer of
         None \<Rightarrow> throwA TypeError
       | Some b \<Rightarrow> if length b \<noteq> 0 then published_queueLines splitOn else returnA ())"

text \<open>The \<open>try\<close> block holds the call of \<open>enqueue\<close>, too.\<close>

definition published_parse_transform :: "js_string \<Rightarrow> ((unit, jsval) stage_state, unit) action" where
  "published_parse_transform chunk =
     catchA (bindA (completeA (json_parse chunk)) enqueue) (\<lambda>_. returnA ())"

definition published_unwrap_transform :: "jsval \<Rightarrow> ((unit, jsval) stage_state, unit) action" where
  "published_unwrap_transform chunk = bindA (completeA (js_get chunk (js ''result''))) enqueue"

definition published_decode_transform :: "jsval \<Rightarrow> ((unit, js_string) stage_state, unit) action" where
  "published_decode_transform v =
     bindA (completeA (js_get v (js ''content''))) (\<lambda>content.
     bindA (completeA (js_get_opt content (js ''length''))) (\<lambda>len.
       if js_truthy len then
         bindA (completeA (js_to_string content)) (\<lambda>s.
         bindA (completeA (atob s)) (\<lambda>binary.
         enqueue (text_decode (copy_bytes binary (replicate (length binary) 0) 0))))
       else returnA ()))"

section \<open>Stages\<close>

text \<open>The outcome of a callback: the closure after it, the chunks and the error.\<close>

definition run_callback ::
  "(('s, 'b) stage_state, unit) action \<Rightarrow> 's \<Rightarrow> 's \<times> 'b list \<times> js_error option" where
  "run_callback m s =
     (case m \<lparr>closure = s, enqueued = []\<rparr> of
        (c, st) \<Rightarrow> (closure st, enqueued st, case c of Inl e \<Rightarrow> Some e | Inr _ \<Rightarrow> None))"

definition published_splitStream :: "js_string \<Rightarrow> (js_string option, js_string, js_string) transformer" where
  "published_splitStream splitOn =
     \<lparr>tstart = Some [],
      ttransform = (\<lambda>s chunk. run_callback (published_split_transform splitOn chunk) s),
      tflush = (\<lambda>s. snd (run_callback (published_split_flush splitOn) s))\<rparr>"

text \<open>The other stages have no \<open>flush\<close>.\<close>

definition published_stage :: "('a \<Rightarrow> ((unit, 'b) stage_state, unit) action) \<Rightarrow> (unit, 'a, 'b) transformer" where
  "published_stage transform =
     \<lparr>tstart = (), ttransform = (\<lambda>s chunk. run_callback (transform chunk) s), tflush = (\<lambda>s. ([], None))\<rparr>"

definition published_parseJSONStream :: "(unit, js_string, jsval) transformer" where
  "published_parseJSONStream = published_stage published_parse_transform"

definition published_unwrapResult :: "(unit, jsval, jsval) transformer" where
  "published_unwrapResult = published_stage published_unwrap_transform"

definition published_decodeContent :: "(unit, jsval, js_string) transformer" where
  "published_decodeContent = published_stage published_decode_transform"

section \<open>They are the stages of the source\<close>

lemma enqueue_each: "eachA enqueue xs st = (Inr (), st\<lparr>enqueued := enqueued st @ xs\<rparr>)"
  by (induction xs arbitrary: st) (simp_all add: action_simps enqueue_def)

lemma queueLines_enqueues:
  "published_queueLines splitOn \<lparr>closure = Some b, enqueued = ys\<rparr> =
     (case queueLines splitOn b of (ls, b') \<Rightarrow> (Inr (), \<lparr>closure = b', enqueued = ys @ ls\<rparr>))"
  by (simp add: published_queueLines_def queueLines_def Let_def action_simps enqueue_each)

lemma published_splitStream_same: "published_splitStream splitOn = splitStream splitOn"
proof -
  have "run_callback (published_split_transform splitOn chunk) s = split_transform splitOn s chunk"
    for s chunk
    by (cases s) (simp_all add: run_callback_def published_split_transform_def split_transform_def action_simps
        queueLines_enqueues Let_def split: prod.split)
  moreover have "snd (run_callback (published_split_flush splitOn) s) = split_flush splitOn s" for s
    by (cases s) (simp_all add: run_callback_def published_split_flush_def split_flush_def action_simps
        queueLines_enqueues split: prod.split)
  ultimately show ?thesis by (simp add: published_splitStream_def splitStream_def)
qed

lemma published_parse_same: "published_parseJSONStream = parseJSONStream"
  by (auto simp: published_parseJSONStream_def published_stage_def parseJSONStream_def run_callback_def
      published_parse_transform_def action_simps enqueue_def fun_eq_iff split: sum.split)

lemma published_unwrap_same: "published_unwrapResult = unwrapResult"
  by (auto simp: published_unwrapResult_def published_stage_def unwrapResult_def run_callback_def
      published_unwrap_transform_def action_simps enqueue_def fun_eq_iff simp del: js_Cons split: sum.split)

lemma published_decode_same: "published_decodeContent = decodeContent"
proof -
  have "run_callback (published_decode_transform v) s =
      (case decode_message v of Inl e \<Rightarrow> ((), [], Some e) | Inr ts \<Rightarrow> ((), ts, None))" for v and s :: unit
    by (auto simp: run_callback_def published_decode_transform_def decode_message_def decode_base64_text_def
        action_simps enqueue_def simp del: js_Cons split: sum.split)
  then show ?thesis
    by (simp add: published_decodeContent_def published_stage_def decodeContent_def)
qed

end
