(* ===== verification/Published_Helpers.thy ===== *)
theory Published_Helpers
  imports Published_Util Published_Stages
begin

text \<open>
  The two compiled functions that only callers of the package use: \<open>readStreamToEnd\<close> of
  \<open>client/dist/esm/streams.js\<close> with the reader it takes and never gives back, and \<open>trimUrl\<close> of
  \<open>client/dist/esm/util.js\<close>.
\<close>

section \<open>Reading a stream to its end\<close>

text \<open>
  The stream that is read, with what it has yet to deliver, and the array of the call. The reader
  has the stream to itself and the array is not known to other code, so nothing that runs during an
  \<open>await\<close> changes either.
\<close>

record 'a reading_state =
  unread :: "'a list"
  stream_end :: ending
  locked :: bool
  read_results :: "'a list"

definition getReader :: "('a reading_state, unit) action" where
  "getReader w = (if locked w then (Inl TypeError, w) else (Inr (), w\<lparr>locked := True\<rparr>))"

text \<open>\<open>reader.read()\<close> comes to an object with the fields \<open>done\<close> and \<open>value\<close>.\<close>

definition reader_read :: "('a reading_state, bool \<times> 'a option) async" where
  "reader_read w =
     (case unread w of
        v # vs \<Rightarrow> (Fulfilled (False, Some v), w\<lparr>unread := vs\<rparr>)
      | [] \<Rightarrow> (case stream_end w of
          Open \<Rightarrow> (Pending, w)
        | Closed \<Rightarrow> (Fulfilled (True, None), w)
        | Errored e \<Rightarrow> (Rejected e, w)))"

definition push_result :: "'a \<Rightarrow> ('a reading_state, unit) action" where
  "push_result v w = (Inr (), w\<lparr>read_results := read_results w @ [v]\<rparr>)"

text \<open>\<open>pump\<close> calls itself with the next read as long as there is one.\<close>

function published_pump ::
  "('a \<Rightarrow> bool) \<Rightarrow> bool \<times> 'a option \<Rightarrow> ('a reading_state, unit) async" where
  "published_pump truthy (fin, value) w =
     (if \<not> fin \<and> (case value of None \<Rightarrow> False | Some v \<Rightarrow> truthy v) then
        (case reader_read (snd (push_result (the value) w)) of
           (Fulfilled r, w') \<Rightarrow> published_pump truthy r w'
         | (Rejected e, w') \<Rightarrow> (Rejected e, w')
         | (Pending, w') \<Rightarrow> (Pending, w'))
      else (Fulfilled (), w))"
  by pat_completeness auto
termination
  by (relation "measure (\<lambda>(_, (fin, _), w). 2 * length (unread w) + (if fin then 0 else 1))")
    (auto simp: reader_read_def push_result_def split: list.splits ending.splits)

declare published_pump.simps [simp del]

definition published_readStreamToEnd :: "('a \<Rightarrow> bool) \<Rightarrow> ('a reading_state, 'a list) async" where
  "published_readStreamToEnd truthy w =
     runP getReader (\<lambda>_.
       awaitP id (awaitP id reader_read (published_pump truthy)) (\<lambda>_ w'. (Fulfilled (read_results w'), w')))
       (w\<lparr>read_results := []\<rparr>)"

text \<open>The array after the reads is what the loop over the values of \<open>Streams\<close> gives.\<close>

definition reads_as :: "('a \<Rightarrow> bool) \<Rightarrow> unit promise \<times> 'a reading_state \<Rightarrow> 'a list promise" where
  "reads_as truthy r =
     (case r of (Fulfilled _, w) \<Rightarrow> Fulfilled (read_results w) | (Rejected e, w) \<Rightarrow> Rejected e
      | (Pending, w) \<Rightarrow> Pending)"

lemma awaited_pump:
  "reads_as truthy (awaitP id reader_read (published_pump truthy) w)
     = pump truthy (read_results w) (unread w) (stream_end w)
   \<and> locked (snd (awaitP id reader_read (published_pump truthy) w)) = locked w
   \<and> unread (snd (awaitP id reader_read (published_pump truthy) w)) = tl (dropWhile truthy (unread w))"
proof (induction "unread w" arbitrary: w)
  case Nil
  then show ?case
    by (cases "stream_end w")
      (simp_all add: reads_as_def awaitP_def reader_read_def published_pump.simps)
next
  case (Cons v vs)
  let ?w = "w\<lparr>unread := vs, read_results := read_results w @ [v]\<rparr>"
  have "awaitP id reader_read (published_pump truthy) w =
      (if truthy v then awaitP id reader_read (published_pump truthy) ?w else (Fulfilled (), w\<lparr>unread := vs\<rparr>))"
    using Cons.hyps(2) [symmetric]
    by (simp add: awaitP_def reader_read_def published_pump.simps [of truthy False] push_result_def
        split: list.splits ending.splits)
  with Cons.hyps(1) [of ?w] Cons.hyps(2) [symmetric] show ?case
    by (simp add: reads_as_def)
qed

lemma published_readStreamToEnd_locked:
  "locked w \<Longrightarrow> fst (published_readStreamToEnd truthy w) = Rejected TypeError"
  by (simp add: published_readStreamToEnd_def runP_def getReader_def)

text \<open>The reader is never released: a second call on the stream always fails.\<close>

lemma published_readStreamToEnd_free:
  assumes "\<not> locked w"
  shows "fst (published_readStreamToEnd truthy w)
      = readStreamToEnd truthy \<lparr>chunks = unread w, ending = stream_end w\<rparr>
    \<and> locked (snd (published_readStreamToEnd truthy w))
    \<and> unread (snd (published_readStreamToEnd truthy w)) = tl (dropWhile truthy (unread w))"
proof -
  let ?w = "w\<lparr>read_results := [], locked := True\<rparr>"
  show ?thesis
    using assms awaited_pump [of truthy ?w]
    by (auto simp: published_readStreamToEnd_def runP_def getReader_def awaitP_def [of id "awaitP id _ _"]
        reads_as_def readStreamToEnd_def split: prod.splits promise.splits)
qed

text \<open>A stream that nobody has read yet.\<close>

definition unread_stream :: "'a stream \<Rightarrow> 'a reading_state" where
  "unread_stream st = \<lparr>unread = chunks st, stream_end = ending st, locked = False, read_results = []\<rparr>"

lemma readStreamToEnd_values:
  "readStreamToEnd truthy st =
     (if \<forall>v \<in> set (chunks st). truthy v
      then case ending st of Open \<Rightarrow> Pending | Closed \<Rightarrow> Fulfilled (chunks st) | Errored e \<Rightarrow> Rejected e
      else Fulfilled (takeWhile truthy (chunks st)))"
proof (cases "\<forall>v \<in> set (chunks st). truthy v")
  case True
  then show ?thesis by (cases "ending st") (simp_all add: readStreamToEnd_def pump_truthy)
next
  case False
  then obtain xs v ys where "chunks st = xs @ v # ys" "\<not> truthy v" "\<forall>x \<in> set xs. truthy x"
    using split_list_first_prop [of "chunks st" "\<lambda>v. \<not> truthy v"] by auto
  then show ?thesis
    by (auto simp: readStreamToEnd_def pump_stops takeWhile_tail)
qed

section \<open>URLs\<close>

text \<open>The variable \<open>url\<close> is assigned twice.\<close>

definition published_trimUrl :: "URL \<Rightarrow> js_string" where
  "published_trimUrl orig =
     (let url = URL_toString orig;
          url = (if js_endsWith url (js ''/'') then js_slice0 (length url - 1) url else url)
      in url)"

lemma published_trimUrl_same: "published_trimUrl orig = trimUrl orig"
  by (simp add: published_trimUrl_def trimUrl_def Let_def)

end
