(* ===== verification/Module_Exports.thy ===== *)
theory Module_Exports
  imports Js_Prelude "HOL-Library.AList"
begin

text \<open>
  The entry points: what a program that imports the package finds. \<open>client/src/index.ts\<close> and
  \<open>client/dist/esm/index.js\<close> declare exports; \<open>client/dist/script/index.js\<close> builds an exports object
  step by step, with the compiler's helpers \<open>__createBinding\<close> and \<open>__importStar\<close>. The modules they
  load are a parameter.
\<close>

section \<open>Modules and exports\<close>

type_synonym path = string

text \<open>How a property of a loaded module is declared, which \<open>__createBinding\<close> asks for.\<close>

datatype prop_kind = Accessor | DataProperty bool bool

text \<open>A loaded module: whether it sets \<open>__esModule\<close>, its own enumerable properties, and their values.\<close>

record 'v loaded =
  es_module :: bool
  keys :: "string list"
  kind :: "string \<Rightarrow> prop_kind"
  member :: "string \<Rightarrow> 'v"

text \<open>
  An exported value: a member of a module, the exports (or namespace) object of a module, or an
  object that \<open>__importStar\<close> made. A slot holds a value or reads it from a module when asked.
\<close>

datatype 'v exported = Undefined | Flag | Member 'v | Exports path | Star "(string \<times> 'v slot) list"
  and 'v slot = Given "'v exported" | Live path string

type_synonym 'v exports = "(string \<times> 'v slot) list"

fun read_slot :: "(path \<Rightarrow> 'v loaded) \<Rightarrow> 'v slot \<Rightarrow> 'v exported" where
  "read_slot require (Given x) = x"
| "read_slot require (Live p k) = Member (member (require p) k)"

definition read_export :: "(path \<Rightarrow> 'v loaded) \<Rightarrow> 'v exports \<Rightarrow> string \<Rightarrow> 'v exported option" where
  "read_export require ex name = map_option (read_slot require) (map_of ex name)"

section \<open>Declared exports\<close>

text \<open>\<open>export * as n from p\<close> and \<open>export { ns } from p\<close>.\<close>

datatype export_decl = Star_as string path | Named "string list" path

fun decl_exports :: "export_decl \<Rightarrow> 'v exports" where
  "decl_exports (Star_as n p) = [(n, Given (Exports p))]"
| "decl_exports (Named ns p) = map (\<lambda>n. (n, Live p n)) ns"

definition module_exports :: "export_decl list \<Rightarrow> 'v exports" where
  "module_exports ds = concat (map decl_exports ds)"

definition source_index :: "export_decl list" where
  "source_index =
     [Star_as ''broker'' ''./gen/broker/protocol/broker.ts'',
      Star_as ''consumer'' ''./gen/consumer/protocol/consumer.ts'',
      Star_as ''streams'' ''./streams.ts'',
      Named [''JournalClient'', ''parseJournalDocuments''] ''./journal_client.ts'',
      Named [''JournalSelector'', ''ShardSelector''] ''./selector.ts'',
      Named [''Result''] ''./result.ts'',
      Named [''ShardClient''] ''./shard_client.ts'']"

definition esm_index :: "export_decl list" where
  "esm_index =
     [Star_as ''broker'' ''./gen/broker/protocol/broker.js'',
      Star_as ''consumer'' ''./gen/consumer/protocol/consumer.js'',
      Star_as ''streams'' ''./streams.js'',
      Named [''JournalClient'', ''parseJournalDocuments''] ''./journal_client.js'',
      Named [''JournalSelector'', ''ShardSelector''] ''./selector.js'',
      Named [''Result''] ''./result.js'',
      Named [''ShardClient''] ''./shard_client.js'']"

text \<open>The compiler replaces the suffix of the paths.\<close>

definition compiled_path :: "path \<Rightarrow> path" where
  "compiled_path p = take (length p - 3) p @ ''.js''"

fun compiled_decl :: "export_decl \<Rightarrow> export_decl" where
  "compiled_decl (Star_as n p) = Star_as n (compiled_path p)"
| "compiled_decl (Named ns p) = Named ns (compiled_path p)"

section \<open>The CommonJS entry point\<close>

text \<open>
  \<open>__createBinding(o, m, k)\<close>: a getter that reads the module, unless the module's own property is an
  accessor of an ES module or a constant; then the property itself is copied.
\<close>

definition create_binding :: "(path \<Rightarrow> 'v loaded) \<Rightarrow> path \<Rightarrow> string \<Rightarrow> 'v exports \<Rightarrow> 'v exports" where
  "create_binding require m k result =
     AList.update k
       (case kind (require m) k of
          Accessor \<Rightarrow> Live m k
        | DataProperty writable configurable \<Rightarrow>
            if writable \<or> configurable then Live m k else Given (Member (member (require m) k))) result"

definition set_module_default :: "path \<Rightarrow> 'v exports \<Rightarrow> 'v exports" where
  "set_module_default m result = AList.update ''default'' (Given (Exports m)) result"

definition import_star :: "(path \<Rightarrow> 'v loaded) \<Rightarrow> path \<Rightarrow> 'v exported" where
  "import_star require m =
     (if es_module (require m) then Exports m
      else Star (set_module_default m
        (fold (\<lambda>k. if k \<noteq> ''default'' then create_binding require m k else id) (keys (require m)) [])))"

datatype statement =
    Mark_es_module
  | Assign_void "string list"
  | Assign_star string path
  | Define_getter string path string

text \<open>A chain of assignments works from its right end.\<close>

fun execute :: "(path \<Rightarrow> 'v loaded) \<Rightarrow> statement \<Rightarrow> 'v exports \<Rightarrow> 'v exports" where
  "execute require Mark_es_module ex = AList.update ''__esModule'' (Given Flag) ex"
| "execute require (Assign_void ns) ex = foldr (\<lambda>n. AList.update n (Given Undefined)) ns ex"
| "execute require (Assign_star n p) ex = AList.update n (Given (import_star require p)) ex"
| "execute require (Define_getter n p k) ex = AList.update n (Live p k) ex"

definition script_index :: "statement list" where
  "script_index =
     [Mark_es_module,
      Assign_void [''ShardClient'', ''Result'', ''ShardSelector'', ''JournalSelector'', ''parseJournalDocuments'',
        ''JournalClient'', ''streams'', ''consumer'', ''broker''],
      Assign_star ''broker'' ''./gen/broker/protocol/broker.js'',
      Assign_star ''consumer'' ''./gen/consumer/protocol/consumer.js'',
      Assign_star ''streams'' ''./streams.js'',
      Define_getter ''JournalClient'' ''./journal_client.js'' ''JournalClient'',
      Define_getter ''parseJournalDocuments'' ''./journal_client.js'' ''parseJournalDocuments'',
      Define_getter ''JournalSelector'' ''./selector.js'' ''JournalSelector'',
      Define_getter ''ShardSelector'' ''./selector.js'' ''ShardSelector'',
      Define_getter ''Result'' ''./result.js'' ''Result'',
      Define_getter ''ShardClient'' ''./shard_client.js'' ''ShardClient'']"

definition load_script :: "(path \<Rightarrow> 'v loaded) \<Rightarrow> 'v exports" where
  "load_script require = fold (execute require) script_index []"

section \<open>What the entry points export\<close>

text \<open>The modules that are exported whole.\<close>

definition star_paths :: "path list" where
  "star_paths = concat (map (\<lambda>d. case d of Star_as n p \<Rightarrow> [p] | Named ns p \<Rightarrow> []) esm_index)"

lemma star_paths_simps:
  "star_paths = [''./gen/broker/protocol/broker.js'', ''./gen/consumer/protocol/consumer.js'', ''./streams.js'']"
  by (simp add: star_paths_def esm_index_def)

lemma esm_index_compiled: "esm_index = map compiled_decl source_index"
  by (simp add: esm_index_def source_index_def compiled_path_def)

lemma esm_exports:
  "module_exports esm_index =
     [(''broker'', Given (Exports ''./gen/broker/protocol/broker.js'')),
      (''consumer'', Given (Exports ''./gen/consumer/protocol/consumer.js'')),
      (''streams'', Given (Exports ''./streams.js'')),
      (''JournalClient'', Live ''./journal_client.js'' ''JournalClient''),
      (''parseJournalDocuments'', Live ''./journal_client.js'' ''parseJournalDocuments''),
      (''JournalSelector'', Live ''./selector.js'' ''JournalSelector''),
      (''ShardSelector'', Live ''./selector.js'' ''ShardSelector''),
      (''Result'', Live ''./result.js'' ''Result''),
      (''ShardClient'', Live ''./shard_client.js'' ''ShardClient'')]"
  by (simp add: module_exports_def esm_index_def)

lemma script_exports:
  assumes "\<And>p. p \<in> set star_paths \<Longrightarrow> es_module (require p)"
  shows "load_script require = (''__esModule'', Given Flag) # module_exports esm_index"
proof -
  have "import_star require p = Exports p" if "p \<in> set star_paths" for p
    using assms [OF that] by (simp add: import_star_def)
  then show ?thesis
    by (simp add: load_script_def script_index_def esm_exports star_paths_simps)
qed

text \<open>
  What \<open>__importStar\<close> does for a module that is not an ES module: every own property of it can be
  read, and \<open>default\<close> is the module itself.
\<close>

lemma read_binding: "read_export require (create_binding require m k result) n =
    (if n = k then Some (Member (member (require m) k)) else read_export require result n)"
  by (auto simp: read_export_def create_binding_def update_conv split: prop_kind.split)

lemma read_bindings:
  "read_export require (fold (\<lambda>k. if k \<noteq> ''default'' then create_binding require m k else id) ks result) n =
     (if n \<in> set ks \<and> n \<noteq> ''default'' then Some (Member (member (require m) n)) else read_export require result n)"
  by (induction ks arbitrary: result) (auto simp: read_binding)

lemma import_star_foreign:
  assumes "\<not> es_module (require m)"
  shows "\<exists>result. import_star require m = Star result \<and> read_export require result n =
    (if n = ''default'' then Some (Exports m)
     else if n \<in> set (keys (require m)) then Some (Member (member (require m) n)) else None)"
proof -
  have "read_export require (set_module_default m result) n =
      (if n = ''default'' then Some (Exports m) else read_export require result n)" for result
    by (simp add: read_export_def set_module_default_def update_conv)
  with assms show ?thesis
    by (auto simp: import_star_def read_bindings) (simp_all add: read_export_def)
qed

end
