(* ===== verification/Script_Modules.thy ===== *)
theory Script_Modules
  imports Js_Object Module_Exports
begin

text \<open>
  The modules of \<open>client/dist/script\<close> as they are loaded: \<open>require\<close> with its cache, and the top-level
  statements of each file, which fill its exports object, an ordinary object on a heap. Every
  program that requires the modules, in any order, ends up with all of them complete.
\<close>

section \<open>Modules\<close>

text \<open>A value that an exports object holds: the \<open>__esModule\<close> mark, a function or class by the module
  that declares it and its name, or something another program put there.\<close>

datatype code = Es_flag | Declared path string | Replacement nat

text \<open>
  The statements at the top level of a module: \<open>Object.defineProperty(exports, "__esModule", ...)\<close>,
  \<open>exports.A = ... = void 0\<close>, \<open>const x = require(p)\<close>, a class with the class it extends, and
  \<open>exports.n = n\<close>. Functions are there before the first statement runs.
\<close>

datatype module_statement =
    Define_es_module
  | Void "string list"
  | Require path
  | Class string "string option"
  | Export string

record commonjs_module =
  hoisted :: "string list"
  statements :: "module_statement list"

definition script_broker :: commonjs_module where
  "script_broker = \<lparr>hoisted = [], statements = [Define_es_module]\<rparr>"

definition script_consumer :: commonjs_module where
  "script_consumer = \<lparr>hoisted = [], statements = [Define_es_module]\<rparr>"

definition script_result :: commonjs_module where
  "script_result = \<lparr>hoisted = [],
     statements = [Define_es_module, Void [''Result''], Class ''Result'' None, Export ''Result'']\<rparr>"

definition script_streams :: commonjs_module where
  "script_streams = \<lparr>hoisted = [''splitStream'', ''parseJSONStream'', ''unwrapResult'', ''decodeContent'', ''readStreamToEnd''],
     statements = [Define_es_module,
       Void [''readStreamToEnd'', ''decodeContent'', ''unwrapResult'', ''parseJSONStream'', ''splitStream''],
       Export ''splitStream'', Export ''parseJSONStream'', Export ''unwrapResult'', Export ''decodeContent'',
       Export ''readStreamToEnd'']\<rparr>"

definition script_util :: commonjs_module where
  "script_util = \<lparr>hoisted = [''trimUrl'', ''doFetch'', ''sortBy''],
     statements = [Define_es_module, Void [''sortBy'', ''ResponseError'', ''doFetch'', ''trimUrl''],
       Require ''./result.js'', Export ''trimUrl'', Export ''doFetch'',
       Class ''ResponseError'' None, Export ''ResponseError'', Export ''sortBy'']\<rparr>"

definition script_selector :: commonjs_module where
  "script_selector = \<lparr>hoisted = [],
     statements = [Define_es_module, Void [''ShardSelector'', ''JournalSelector'', ''Selector''],
       Require ''./util.js'', Class ''Selector'' None, Export ''Selector'',
       Class ''JournalSelector'' (Some ''Selector''), Export ''JournalSelector'',
       Class ''ShardSelector'' (Some ''Selector''), Export ''ShardSelector'']\<rparr>"

definition script_journal_client :: commonjs_module where
  "script_journal_client = \<lparr>hoisted = [''parseJournalDocuments''],
     statements = [Define_es_module, Void [''parseJournalDocuments'', ''JournalClient''],
       Require ''./selector.js'', Require ''./util.js'', Require ''./result.js'', Require ''./streams.js'',
       Class ''JournalClient'' None, Export ''JournalClient'', Export ''parseJournalDocuments'']\<rparr>"

definition script_shard_client :: commonjs_module where
  "script_shard_client = \<lparr>hoisted = [],
     statements = [Define_es_module, Void [''ShardClient''],
       Require ''./result.js'', Require ''./selector.js'', Require ''./util.js'',
       Class ''ShardClient'' None, Export ''ShardClient'']\<rparr>"

definition script_modules :: "(path \<times> commonjs_module) list" where
  "script_modules =
     [(''./gen/broker/protocol/broker.js'', script_broker), (''./gen/consumer/protocol/consumer.js'', script_consumer),
      (''./streams.js'', script_streams), (''./journal_client.js'', script_journal_client),
      (''./selector.js'', script_selector), (''./result.js'', script_result),
      (''./shard_client.js'', script_shard_client), (''./util.js'', script_util)]"

lemmas script_module_defs = script_broker_def script_consumer_def script_result_def script_streams_def
  script_util_def script_selector_def script_journal_client_def script_shard_client_def

section \<open>Loading\<close>

text \<open>\<open>cache\<close> maps a module to its exports object as soon as its body starts, \<open>evaluated\<close> lists those
  whose bodies have run, in that order.\<close>

record loader =
  exports_heap :: "code heap"
  cache :: "(path \<times> addr) list"
  evaluated :: "path list"

definition empty_loader :: loader where
  "empty_loader = \<lparr>exports_heap = [], cache = [], evaluated = []\<rparr>"

definition on_exports :: "(code heap, 'a) action \<Rightarrow> (loader, 'a) action" where
  "on_exports m s = (case m (exports_heap s) of (c, h) \<Rightarrow> (c, s\<lparr>exports_heap := h\<rparr>))"

definition es_property :: "code property" where
  "es_property = \<lparr>pvalue = Some Es_flag, writable = False, enumerable = False, configurable = False\<rparr>"

text \<open>
  \<open>load d p\<close> is \<open>require(p)\<close> with room for \<open>d\<close> more calls on the stack. A module that throws is removed from
  the cache. \<open>run_body\<close> keeps the classes that have been declared so far.
\<close>

function (sequential)
  load :: "nat \<Rightarrow> path \<Rightarrow> (loader, addr) action" and
  run_body :: "nat \<Rightarrow> path \<Rightarrow> addr \<Rightarrow> string list \<Rightarrow> string list \<Rightarrow> module_statement list \<Rightarrow> (loader, unit) action"
where
  "load 0 p = throwA (HostError (js ''Maximum call stack size exceeded''))"
| "load (Suc d) p = (\<lambda>s.
     case map_of (cache s) p of
       Some a \<Rightarrow> (Inr a, s)
     | None \<Rightarrow>
         (case map_of script_modules p of
            None \<Rightarrow> (Inl (HostError (js ''Cannot find module'')), s)
          | Some m \<Rightarrow>
              (let a = length (exports_heap s) in
               case run_body d p a (hoisted m) [] (statements m)
                   (s\<lparr>exports_heap := exports_heap s @ [\<lparr>properties = [], extensible = True\<rparr>],
                      cache := (p, a) # cache s\<rparr>) of
                 (Inl e, s') \<Rightarrow> (Inl e, s'\<lparr>cache := AList.delete p (cache s')\<rparr>)
               | (Inr _, s') \<Rightarrow> (Inr a, s'\<lparr>evaluated := evaluated s' @ [p]\<rparr>))))"
| "run_body d p a fs cs [] = returnA ()"
| "run_body d p a fs cs (Define_es_module # ss) =
     bindA (on_exports (js_defineProperty a ''__esModule'' es_property)) (\<lambda>_. run_body d p a fs cs ss)"
| "run_body d p a fs cs (Void ns # ss) =
     bindA (on_exports (eachA (\<lambda>n. js_assign a n None) (rev ns))) (\<lambda>_. run_body d p a fs cs ss)"
| "run_body d p a fs cs (Require q # ss) =
     bindA (load d q) (\<lambda>_. run_body d p a fs cs ss)"
| "run_body d p a fs cs (Class n parent # ss) =
     (case parent of
        None \<Rightarrow> run_body d p a fs (n # cs) ss
      | Some c \<Rightarrow>
          if c \<in> set cs then run_body d p a fs (n # cs) ss
          else throwA (HostError (js ''Cannot access before initialization'')))"
| "run_body d p a fs cs (Export n # ss) =
     (if n \<in> set fs \<or> n \<in> set cs then
        bindA (on_exports (js_assign a n (Some (Declared p n)))) (\<lambda>_. run_body d p a fs cs ss)
      else throwA (HostError (js ''Cannot access before initialization'')))"
  by pat_completeness auto
termination
  by (relation "measures [\<lambda>x. case x of Inl (d, _) \<Rightarrow> d | Inr (d, _) \<Rightarrow> d,
        \<lambda>x. case x of Inl _ \<Rightarrow> 0 | Inr (_, _, _, _, _, ss) \<Rightarrow> Suc (length ss)]") auto

declare load.simps [simp del] run_body.simps [simp del]


section \<open>What a body does\<close>

text \<open>The modules a body requires, and what it makes of the properties of its exports object.\<close>

fun requires :: "module_statement list \<Rightarrow> path list" where
  "requires [] = []"
| "requires (Require q # ss) = q # requires ss"
| "requires (_ # ss) = requires ss"

definition assigned :: "code option \<Rightarrow> code property option \<Rightarrow> code property" where
  "assigned v old =
     (case old of
        None \<Rightarrow> \<lparr>pvalue = v, writable = True, enumerable = True, configurable = True\<rparr>
      | Some c \<Rightarrow> c\<lparr>pvalue := v\<rparr>)"

definition assign_on :: "code option \<Rightarrow> string \<Rightarrow> (string \<Rightarrow> code property option) \<Rightarrow> string \<Rightarrow> code property option" where
  "assign_on v n m = m(n \<mapsto> assigned v (m n))"

type_synonym 'v own = "string \<Rightarrow> 'v property option"

fun effect :: "path \<Rightarrow> module_statement \<Rightarrow> code own \<Rightarrow> code own" where
  "effect p Define_es_module m = m(''__esModule'' \<mapsto> es_property)"
| "effect p (Void ns) m = foldr (assign_on None) ns m"
| "effect p (Export n) m = assign_on (Some (Declared p n)) n m"
| "effect p _ m = m"

definition exports_of :: "path \<Rightarrow> code own" where
  "exports_of p =
     (case map_of script_modules p of
        None \<Rightarrow> Map.empty | Some m \<Rightarrow> fold (effect p) (statements m) Map.empty)"

text \<open>
  The modules it requires come earlier in an order without cycles; names are declared before they
  are exported; no export is called \<open>__esModule\<close>.
\<close>

definition module_rank :: "path \<Rightarrow> nat" where
  "module_rank p =
     (if p = ''./journal_client.js'' \<or> p = ''./shard_client.js'' then 3
      else if p = ''./selector.js'' then 2 else if p = ''./util.js'' then 1 else 0)"

fun well_formed :: "nat \<Rightarrow> string list \<Rightarrow> string list \<Rightarrow> module_statement list \<Rightarrow> bool" where
  "well_formed r fs cs [] = True"
| "well_formed r fs cs (Define_es_module # ss) = well_formed r fs cs ss"
| "well_formed r fs cs (Void ns # ss) = (''__esModule'' \<notin> set ns \<and> well_formed r fs cs ss)"
| "well_formed r fs cs (Require q # ss) =
     (q \<in> set (map fst script_modules) \<and> module_rank q < r \<and> well_formed r fs cs ss)"
| "well_formed r fs cs (Class n parent # ss) =
     ((case parent of None \<Rightarrow> True | Some c \<Rightarrow> c \<in> set cs) \<and> well_formed r fs (n # cs) ss)"
| "well_formed r fs cs (Export n # ss) =
     (n \<noteq> ''__esModule'' \<and> (n \<in> set fs \<or> n \<in> set cs) \<and> well_formed r fs cs ss)"

lemma script_modules_check:
  "list_all (\<lambda>(p, m). well_formed (module_rank p) (hoisted m) [] (statements m)) script_modules"
  by code_simp

lemma script_modules_well_formed:
  "map_of script_modules p = Some m \<Longrightarrow> well_formed (module_rank p) (hoisted m) [] (statements m)"
  using script_modules_check by (auto simp: list_all_iff dest!: map_of_SomeD)

lemma module_rank_max: "module_rank p \<le> 3"
  by (simp add: module_rank_def)

section \<open>One object of the heap\<close>

definition touches :: "addr \<Rightarrow> 'v heap \<Rightarrow> 'v heap \<Rightarrow> bool" where
  "touches a h h' \<longleftrightarrow> length h' = length h \<and> (\<forall>i. i \<noteq> a \<longrightarrow> h' ! i = h ! i) \<and>
     extensible (h' ! a) = extensible (h ! a)"

definition tidy :: "code own \<Rightarrow> bool" where
  "tidy m \<longleftrightarrow> m ''__esModule'' \<in> {None, Some es_property} \<and>
     (\<forall>k pr. m k = Some pr \<longrightarrow> k \<noteq> ''__esModule'' \<longrightarrow> writable pr)"

lemma touches_refl: "touches a h h"
  by (simp add: touches_def)

lemma touches_trans: "touches a h h' \<Longrightarrow> touches a h' h'' \<Longrightarrow> touches a h h''"
  by (auto simp: touches_def)

lemma own_put: "a < length h \<Longrightarrow> own_property (put_property a k p h) a = (own_property h a)(k \<mapsto> p)"
  by (auto simp: own_property_def put_property_def update_conv' fun_eq_iff)

lemma touches_put: "touches a h (put_property a k p h)"
  by (cases "a < length h") (simp_all add: touches_def put_property_def list_update_beyond)

lemma tidy_assigned: "tidy m \<Longrightarrow> k \<noteq> ''__esModule'' \<Longrightarrow> tidy (assign_on v k m)"
  by (auto simp: tidy_def assign_on_def assigned_def split: option.splits)

lemma tidy_es: "tidy m \<Longrightarrow> tidy (m(''__esModule'' \<mapsto> es_property))"
  by (auto simp: tidy_def)

lemma assign_effect:
  assumes "a < length h" and "extensible (h ! a)" and "tidy (own_property h a)" and "k \<noteq> ''__esModule''"
  shows "\<exists>h'. js_assign a k v h = (Inr (), h') \<and> touches a h h' \<and>
    own_property h' a = assign_on v k (own_property h a)"
  using assms touches_put [of a h k] own_put [of a h k]
  by (cases "own_property h a k") (auto simp: js_assign_def assign_on_def assigned_def tidy_def)

lemma define_effect:
  assumes "a < length h" and "extensible (h ! a)" and "tidy (own_property h a)"
  shows "\<exists>h'. js_defineProperty a ''__esModule'' es_property h = (Inr (), h') \<and> touches a h h' \<and>
    own_property h' a = (own_property h a)(''__esModule'' \<mapsto> es_property)"
  using assms touches_put [of a h "''__esModule''"] own_put [of a h "''__esModule''"]
  by (auto simp: js_defineProperty_def may_define_def tidy_def)

lemma assign_each_effect:
  assumes "a < length h" and "extensible (h ! a)" and "tidy (own_property h a)" and "''__esModule'' \<notin> set ns"
  shows "\<exists>h'. eachA (\<lambda>n. js_assign a n None) ns h = (Inr (), h') \<and> touches a h h' \<and>
    own_property h' a = fold (assign_on None) ns (own_property h a) \<and>
    tidy (own_property h' a)"
  using assms
proof (induction ns arbitrary: h)
  case Nil
  then show ?case by (auto simp: returnA_def touches_refl)
next
  case (Cons n ns)
  then obtain h1 where h1: "js_assign a n None h = (Inr (), h1)" "touches a h h1"
    "own_property h1 a = assign_on None n (own_property h a)"
    using assign_effect [of a h n None] by auto
  moreover have "tidy (own_property h1 a)"
    unfolding h1(3) using Cons.prems by (intro tidy_assigned) auto
  ultimately obtain h2 where "eachA (\<lambda>n. js_assign a n None) ns h1 = (Inr (), h2)" "touches a h1 h2"
    "own_property h2 a = fold (assign_on None) ns (own_property h1 a)"
    "tidy (own_property h2 a)"
    using Cons.IH [of h1] Cons.prems by (auto simp: touches_def)
  with h1 show ?case
    by (auto simp: bindA_def intro: touches_trans)
qed

section \<open>Loading keeps the loader in order\<close>

definition requires_of :: "path \<Rightarrow> path list" where
  "requires_of p = (case map_of script_modules p of None \<Rightarrow> [] | Some m \<Rightarrow> requires (statements m))"

fun evaluated_in_order :: "path set \<Rightarrow> path list \<Rightarrow> bool" where
  "evaluated_in_order seen [] = True"
| "evaluated_in_order seen (p # ps) =
     (set (requires_of p) \<subseteq> seen \<and> p \<notin> seen \<and> evaluated_in_order (insert p seen) ps)"

lemma evaluated_snoc:
  "evaluated_in_order seen (ps @ [p]) \<longleftrightarrow>
     evaluated_in_order seen ps \<and> set (requires_of p) \<subseteq> seen \<union> set ps \<and> p \<notin> seen \<union> set ps"
  by (induction ps arbitrary: seen) auto

text \<open>\<open>started\<close> are the modules whose bodies are running.\<close>

definition good :: "path set \<Rightarrow> loader \<Rightarrow> bool" where
  "good started s \<longleftrightarrow> distinct (map fst (cache s)) \<and> distinct (map snd (cache s)) \<and>
     (\<forall>(p, a) \<in> set (cache s). p \<in> set (map fst script_modules) \<and> a < length (exports_heap s) \<and>
        extensible (exports_heap s ! a) \<and>
        (p \<notin> started \<longrightarrow> own_property (exports_heap s) a = exports_of p)) \<and>
     set (evaluated s) = fst ` set (cache s) - started \<and> evaluated_in_order {} (evaluated s)"

definition later :: "addr set \<Rightarrow> loader \<Rightarrow> loader \<Rightarrow> bool" where
  "later changed s s' \<longleftrightarrow> length (exports_heap s) \<le> length (exports_heap s') \<and>
     (\<forall>i < length (exports_heap s). i \<notin> changed \<longrightarrow> exports_heap s' ! i = exports_heap s ! i) \<and>
     suffix (cache s) (cache s') \<and> prefix (evaluated s) (evaluated s')"

lemma later_refl [simp]: "later X s s"
  by (simp add: later_def)

lemma later_trans: "later X s s' \<Longrightarrow> later X s' s'' \<Longrightarrow> later X s s''"
  unfolding later_def by (auto intro: suffix_order.trans prefix_order.trans)

lemma later_weaken: "later {} s s' \<Longrightarrow> later X s s'"
  by (auto simp: later_def)

lemma later_cached: "later X s s' \<Longrightarrow> c \<in> set (cache s) \<Longrightarrow> c \<in> set (cache s')"
  by (auto simp: later_def suffix_def)

lemma later_own:
  "later X s s' \<Longrightarrow> a < length (exports_heap s) \<Longrightarrow> a \<notin> X \<Longrightarrow>
     own_property (exports_heap s') a = own_property (exports_heap s) a"
  by (simp add: later_def own_property_def fun_eq_iff)

lemma good_cached:
  assumes "good I s" and "(p, a) \<in> set (cache s)"
  shows "a < length (exports_heap s)" and "extensible (exports_heap s ! a)"
    and "p \<notin> I \<Longrightarrow> own_property (exports_heap s) a = exports_of p"
    and "map_of (cache s) p = Some a"
  using assms by (auto simp: good_def)

lemma cached_same_address:
  "distinct (map snd xs) \<Longrightarrow> (p, a) \<in> set xs \<Longrightarrow> (q, a) \<in> set xs \<Longrightarrow> p = q"
  by (induction xs) force+

lemma object_step:
  assumes "good I s" and "(p, a) \<in> set (cache s)" and "p \<in> I" and "touches a (exports_heap s) h'"
  shows "good I (s\<lparr>exports_heap := h'\<rparr>)" and "later {a} s (s\<lparr>exports_heap := h'\<rparr>)"
proof -
  have "own_property h' b = own_property (exports_heap s) b" if "(q, b) \<in> set (cache s)" "q \<notin> I" for q b
  proof -
    have "b \<noteq> a"
      using that assms(1-3) cached_same_address [of "cache s" p a q] by (auto simp: good_def)
    with assms(4) show ?thesis by (simp add: touches_def own_property_def fun_eq_iff)
  qed
  moreover have "extensible (h' ! b)" if "(q, b) \<in> set (cache s)" for q b
    using assms(4) good_cached(2) [OF assms(1) that] by (cases "b = a") (auto simp: touches_def)
  ultimately show "good I (s\<lparr>exports_heap := h'\<rparr>)"
    using assms(1,4) by (auto simp: good_def touches_def)
  show "later {a} s (s\<lparr>exports_heap := h'\<rparr>)"
    using assms(4) by (auto simp: later_def touches_def)
qed

text \<open>What \<open>load\<close> does for modules of a rank below \<open>r\<close>.\<close>

definition loads_below :: "nat \<Rightarrow> nat \<Rightarrow> bool" where
  "loads_below d r \<longleftrightarrow> (\<forall>q s I. q \<in> set (map fst script_modules) \<and> module_rank q < r \<and> good I s \<and>
     (\<forall>x \<in> I. r \<le> module_rank x) \<longrightarrow>
     (\<exists>b s'. load d q s = (Inr b, s') \<and> good I s' \<and> later {} s s' \<and> (q, b) \<in> set (cache s')))"

lemma loads_belowD:
  assumes "loads_below d r" and "q \<in> set (map fst script_modules)" and "module_rank q < r" and "good I s"
    and "\<forall>x \<in> I. r \<le> module_rank x"
  obtains b s' where "load d q s = (Inr b, s')" and "good I s'" and "later {} s s'" and "(q, b) \<in> set (cache s')"
  using assms unfolding loads_below_def by blast

definition body_done where
  "body_done I p a ss s s' \<longleftrightarrow> good I s' \<and> later {a} s s' \<and>
     own_property (exports_heap s') a = fold (effect p) ss (own_property (exports_heap s) a) \<and>
     set (requires ss) \<subseteq> set (evaluated s')"

lemma body_done_Nil: "good I s \<Longrightarrow> body_done I p a [] s s"
  by (simp add: body_done_def)

text \<open>A statement that changes only the module's own exports object, before the others.\<close>

lemma body_done_Cons:
  assumes "good I s" and "(p, a) \<in> set (cache s)" and "p \<in> I" and "touches a (exports_heap s) h1"
    and "own_property h1 a = effect p x (own_property (exports_heap s) a)" and "requires (x # ss) = requires ss"
    and "body_done I p a ss (s\<lparr>exports_heap := h1\<rparr>) s'"
  shows "body_done I p a (x # ss) s s'"
  using assms(5-7) later_trans [OF object_step(2) [OF assms(1-4)]] by (simp add: body_done_def)

lemma run_body_good:
  assumes "loads_below d (module_rank p)"
  shows "well_formed (module_rank p) fs cs ss \<Longrightarrow> good I s \<Longrightarrow> (p, a) \<in> set (cache s) \<Longrightarrow> p \<in> I \<Longrightarrow>
    \<forall>x \<in> I. module_rank p \<le> module_rank x \<Longrightarrow> tidy (own_property (exports_heap s) a) \<Longrightarrow>
    \<exists>s'. run_body d p a fs cs ss s = (Inr (), s') \<and> body_done I p a ss s s'"
proof (induction ss arbitrary: cs s)
  case Nil
  then show ?case by (simp add: run_body.simps returnA_def body_done_Nil)
next
  case (Cons x ss)
  note state = Cons.prems(2-4)
  note a = good_cached(1,2) [OF Cons.prems(2,3)]
  have local: ?case
    if step: "run_body d p a fs cs (x # ss) = bindA (on_exports m) (\<lambda>_. run_body d p a fs cs ss)"
      and m: "m (exports_heap s) = (Inr (), h1)" "touches a (exports_heap s) h1"
        "own_property h1 a = effect p x (own_property (exports_heap s) a)" "tidy (own_property h1 a)"
      and rest: "well_formed (module_rank p) fs cs ss" "requires (x # ss) = requires ss"
    for m :: "(code heap, unit) action" and h1
  proof -
    let ?s = "s\<lparr>exports_heap := h1\<rparr>"
    obtain s' where "run_body d p a fs cs ss ?s = (Inr (), s')" "body_done I p a ss ?s s'"
      using Cons.IH [OF rest(1) object_step(1) [OF state m(2)]] Cons.prems(3-5) m(4) by auto
    with step m(1) body_done_Cons [OF state m(2,3) rest(2)] show ?case
      by (auto simp: bindA_def on_exports_def)
  qed
  show ?case
  proof (cases x)
    case Define_es_module
    then obtain h1 where "js_defineProperty a ''__esModule'' es_property (exports_heap s) = (Inr (), h1)"
      "touches a (exports_heap s) h1" "own_property h1 a = effect p x (own_property (exports_heap s) a)"
      "tidy (own_property h1 a)"
      using define_effect [OF a Cons.prems(6)] tidy_es [OF Cons.prems(6)] by auto
    then show ?thesis
      by (rule local [rotated]) (use Define_es_module Cons.prems(1) in \<open>simp_all add: run_body.simps\<close>)
  next
    case (Void ns)
    then obtain h1 where "eachA (\<lambda>n. js_assign a n None) (rev ns) (exports_heap s) = (Inr (), h1)"
      "touches a (exports_heap s) h1" "own_property h1 a = effect p x (own_property (exports_heap s) a)"
      "tidy (own_property h1 a)"
      using assign_each_effect [OF a Cons.prems(6), of "rev ns"] Cons.prems(1) by (auto simp: foldr_conv_fold)
    then show ?thesis
      by (rule local [rotated]) (use Void Cons.prems(1) in \<open>simp_all add: run_body.simps\<close>)
  next
    case (Export n)
    then have n: "n \<in> set fs \<or> n \<in> set cs" "n \<noteq> ''__esModule''" "well_formed (module_rank p) fs cs ss"
      using Cons.prems(1) by auto
    obtain h1 where "js_assign a n (Some (Declared p n)) (exports_heap s) = (Inr (), h1)"
      "touches a (exports_heap s) h1" "own_property h1 a = effect p x (own_property (exports_heap s) a)"
      using assign_effect [OF a Cons.prems(6) n(2)] Export by fastforce
    moreover from this have "tidy (own_property h1 a)"
      using tidy_assigned [OF Cons.prems(6) n(2)] Export by simp
    ultimately show ?thesis
      by (rule local [rotated]) (use Export n in \<open>simp_all add: run_body.simps\<close>)
  next
    case (Class n parent)
    then show ?thesis
      using Cons.IH [of "n # cs" s] Cons.prems
      by (auto simp: run_body.simps body_done_def split: option.splits)
  next
    case (Require q)
    with Cons.prems(1) have q: "q \<in> set (map fst script_modules)" "module_rank q < module_rank p"
      "well_formed (module_rank p) fs cs ss" by auto
    obtain b s1 where s1: "load d q s = (Inr b, s1)" "good I s1" "later {} s s1" "(q, b) \<in> set (cache s1)"
      by (rule loads_belowD [OF assms q(1,2) Cons.prems(2,5)])
    have own: "own_property (exports_heap s1) a = own_property (exports_heap s) a"
      using later_own [OF s1(3) a(1)] by simp
    obtain s' where s': "run_body d p a fs cs ss s1 = (Inr (), s')" "body_done I p a ss s1 s'"
      using Cons.IH [OF q(3) s1(2) later_cached [OF s1(3) Cons.prems(3)] Cons.prems(4,5)] own Cons.prems(6)
      by auto
    have "q \<notin> I" and "q \<in> fst ` set (cache s1)"
      using q(2) Cons.prems(5) s1(4) by (auto intro: image_eqI [of q fst "(q, b)"])
    then have "q \<in> set (evaluated s1)"
      using s1(2) by (simp add: good_def)
    moreover have "set (evaluated s1) \<subseteq> set (evaluated s')"
      using s'(2) by (auto simp: body_done_def later_def prefix_def)
    ultimately have "body_done I p a (x # ss) s s'"
      using s'(2) Require own later_trans [OF later_weaken [OF s1(3)]] by (auto simp: body_done_def)
    with s' s1(1) Require show ?thesis
      by (auto simp: run_body.simps bindA_def)
  qed
qed

lemma exports_of_fold:
  "map_of script_modules p = Some m \<Longrightarrow> exports_of p = fold (effect p) (statements m) Map.empty"
  by (simp add: exports_of_def)

lemma load_good:
  "module_rank p < d \<Longrightarrow> p \<in> set (map fst script_modules) \<Longrightarrow> good I s \<Longrightarrow>
     \<forall>x \<in> I. module_rank p < module_rank x \<Longrightarrow>
     \<exists>a s'. load d p s = (Inr a, s') \<and> good I s' \<and> later {} s s' \<and> (p, a) \<in> set (cache s')"
proof (induction d arbitrary: p I s)
  case (Suc d)
  show ?case
  proof (cases "map_of (cache s) p")
    case (Some a)
    then show ?thesis
      using Suc.prems by (auto simp: load.simps dest: map_of_SomeD)
  next
    case None
    from Suc.prems(2) obtain m where m: "map_of script_modules p = Some m"
      by (auto simp: in_set_conv_nth map_of_eq_None_iff [symmetric] dest: weak_map_of_SomeI)
    define a where "a = length (exports_heap s)"
    define s1 where "s1 = s\<lparr>exports_heap := exports_heap s @ [\<lparr>properties = [], extensible = True\<rparr>],
      cache := (p, a) # cache s\<rparr>"
    have new: "p \<notin> fst ` set (cache s)" and pI: "p \<notin> I"
      using None Suc.prems(4) by (auto simp: map_of_eq_None_iff)
    have own1: "own_property (exports_heap s1) b = own_property (exports_heap s) b" if "b < a" for b
      using that by (simp add: s1_def own_property_def a_def nth_append fun_eq_iff)
    have "\<forall>(q, b) \<in> set (cache s). b < a"
      using Suc.prems(3) by (auto simp: good_def a_def)
    with Suc.prems(2,3) new own1 have good1: "good (insert p I) s1"
      by (auto simp: good_def s1_def a_def nth_append)
    have fresh: "own_property (exports_heap s1) a = Map.empty"
      by (simp add: s1_def own_property_def a_def fun_eq_iff)
    have "loads_below d (module_rank p)"
      unfolding loads_below_def using Suc.prems(1)
      by (intro allI impI, elim conjE, intro Suc.IH) auto
    moreover have "\<forall>x \<in> insert p I. module_rank p \<le> module_rank x"
      using Suc.prems(4) by (auto intro: less_imp_le)
    ultimately obtain s2 where s2: "run_body d p a (hoisted m) [] (statements m) s1 = (Inr (), s2)"
      "body_done (insert p I) p a (statements m) s1 s2"
      using run_body_good [OF _ script_modules_well_formed [OF m] good1, of d a] fresh
      by (auto simp: s1_def tidy_def)
    let ?s = "s2\<lparr>evaluated := evaluated s2 @ [p]\<rparr>"
    have "load (Suc d) p s = (Inr a, ?s)"
      using None m s2(1) by (simp add: load.simps s1_def a_def)
    moreover have cached: "(p, a) \<in> set (cache s2)"
      using s2(2) by (auto simp: body_done_def s1_def intro: later_cached)
    moreover have "good I ?s"
    proof -
      note good2 = s2(2) [unfolded body_done_def, THEN conjunct1]
      have own: "own_property (exports_heap s2) a = exports_of p"
        using s2(2) fresh exports_of_fold [OF m] by (simp add: body_done_def)
      have "own_property (exports_heap s2) b = exports_of q" if "(q, b) \<in> set (cache s2)" "q \<notin> I" for q b
      proof (cases "q = p")
        case True
        with good2 cached that own show ?thesis
          using good_cached(4) [OF good2] by (auto dest!: good_cached(4) [OF good2])
      qed (use good_cached(3) [OF good2 that(1)] that(2) in simp)
      moreover have "set (requires_of p) \<subseteq> set (evaluated s2)" and "p \<notin> set (evaluated s2)"
        using s2(2) m by (auto simp: body_done_def requires_of_def good_def)
      moreover have "set (evaluated ?s) = fst ` set (cache ?s) - I"
        using good2 cached pI by (force simp: good_def)
      moreover from good2 have "distinct (map fst (cache s2))" "distinct (map snd (cache s2))"
        "evaluated_in_order {} (evaluated s2)"
        and "\<forall>(q, b) \<in> set (cache s2). q \<in> set (map fst script_modules) \<and> b < length (exports_heap s2) \<and>
          extensible (exports_heap s2 ! b)"
        by (auto simp: good_def)
      ultimately show ?thesis
        unfolding good_def by (intro conjI) (simp_all add: evaluated_snoc split_beta)
    qed
    moreover have "later {} s ?s"
      using s2(2) by (auto simp: body_done_def later_def s1_def a_def nth_append suffix_def)
    ultimately show ?thesis by auto
  qed
qed simp

section \<open>Programs that require the modules\<close>

definition require_all :: "nat \<Rightarrow> path list \<Rightarrow> (loader, unit) action" where
  "require_all d = eachA (\<lambda>p. bindA (load d p) (\<lambda>_. returnA ()))"

lemma good_empty: "good {} empty_loader"
  by (simp add: good_def empty_loader_def)

lemma require_all_good:
  "3 < d \<Longrightarrow> set ps \<subseteq> set (map fst script_modules) \<Longrightarrow> good {} s \<Longrightarrow>
     \<exists>s'. require_all d ps s = (Inr (), s') \<and> good {} s' \<and> later {} s s' \<and> set ps \<subseteq> fst ` set (cache s')"
proof (induction ps arbitrary: s)
  case Nil
  then show ?case by (auto simp: require_all_def returnA_def)
next
  case (Cons p ps)
  then have "module_rank p < d" using module_rank_max [of p] by simp
  then obtain a s1 where s1: "load d p s = (Inr a, s1)" "good {} s1" "later {} s s1" "(p, a) \<in> set (cache s1)"
    using load_good [of p d "{}" s] Cons.prems by auto
  then obtain s' where s': "require_all d ps s1 = (Inr (), s')" "good {} s'" "later {} s1 s'"
    "set ps \<subseteq> fst ` set (cache s')"
    using Cons.IH [of s1] Cons.prems by auto
  have "p \<in> fst ` set (cache s')"
    using later_cached [OF s'(3) s1(4)] by force
  with s1 s' show ?case
    by (auto simp: require_all_def bindA_def returnA_def intro: later_trans)
qed

text \<open>The exports of a module: each name it exports, an ordinary property.\<close>

fun exported_names :: "module_statement list \<Rightarrow> string list" where
  "exported_names [] = []"
| "exported_names (Export n # ss) = n # exported_names ss"
| "exported_names (_ # ss) = exported_names ss"

definition names_of :: "path \<Rightarrow> string list" where
  "names_of p = (case map_of script_modules p of None \<Rightarrow> [] | Some m \<Rightarrow> exported_names (statements m))"

definition export_property :: "path \<Rightarrow> string \<Rightarrow> code property" where
  "export_property p n = \<lparr>pvalue = Some (Declared p n), writable = True, enumerable = True, configurable = True\<rparr>"

fun touched_names :: "module_statement list \<Rightarrow> string list" where
  "touched_names [] = []"
| "touched_names (Define_es_module # ss) = ''__esModule'' # touched_names ss"
| "touched_names (Void ns # ss) = ns @ touched_names ss"
| "touched_names (Export n # ss) = n # touched_names ss"
| "touched_names (_ # ss) = touched_names ss"

lemma assign_on_other: "n \<notin> set ns \<Longrightarrow> foldr (assign_on v) ns m n = m n"
  by (induction ns) (auto simp: assign_on_def)

lemma untouched: "n \<notin> set (touched_names ss) \<Longrightarrow> fold (effect p) ss m n = m n"
proof (induction ss arbitrary: m)
  case (Cons x ss)
  then show ?case by (cases x) (auto simp: assign_on_other assign_on_def)
qed simp

text \<open>What the modules export, computed: every name that is assigned is exported in the end.\<close>

lemma module_exports_check:
  "list_all (\<lambda>(p, m). exports_of p ''__esModule'' = Some es_property \<and> ''__esModule'' \<notin> set (names_of p) \<and>
      list_all (\<lambda>n. exports_of p n = Some (export_property p n)) (names_of p) \<and>
      list_all (\<lambda>n. n = ''__esModule'' \<or> List.member (names_of p) n) (touched_names (statements m))) script_modules"
  by code_simp

lemma exports_of_module:
  assumes "p \<in> set (map fst script_modules)"
  shows "exports_of p n =
    (if n = ''__esModule'' then Some es_property
     else if n \<in> set (names_of p) then Some (export_property p n) else None)"
proof -
  from assms obtain m where m: "map_of script_modules p = Some m"
    by (auto dest: weak_map_of_SomeI)
  then have "exports_of p ''__esModule'' = Some es_property"
    and "\<forall>n \<in> set (names_of p). exports_of p n = Some (export_property p n)"
    and "set (touched_names (statements m)) \<subseteq> insert ''__esModule'' (set (names_of p))"
    using module_exports_check by (auto simp: list_all_iff dest!: map_of_SomeD)
  then show ?thesis
    using untouched [of n "statements m" p Map.empty] exports_of_fold [OF m] by auto
qed

text \<open>The exports object of a module that has been loaded, and the module as \<open>Module_Exports\<close> sees it.\<close>

definition exports_object :: "loader \<Rightarrow> path \<Rightarrow> addr" where
  "exports_object s p = the (map_of (cache s) p)"

definition loaded_module :: "loader \<Rightarrow> path \<Rightarrow> code option loaded" where
  "loaded_module s p =
     (let h = exports_heap s; a = exports_object s p in
      \<lparr>es_module = js_field h a ''__esModule'' = Some Es_flag,
       keys = map fst (filter (\<lambda>kp. enumerable (snd kp)) (properties (h ! a))),
       kind = (\<lambda>k. case own_property h a k of
         None \<Rightarrow> DataProperty False False | Some pr \<Rightarrow> DataProperty (writable pr) (configurable pr)),
       member = js_field h a\<rparr>)"

lemma exports_when_loaded:
  assumes "good {} s" and "p \<in> fst ` set (cache s)"
  shows "map_of (cache s) p = Some (exports_object s p)"
    and "own_property (exports_heap s) (exports_object s p) n =
      (if n = ''__esModule'' then Some es_property
       else if n \<in> set (names_of p) then Some (export_property p n) else None)"
    and "js_field (exports_heap s) (exports_object s p) n =
      (if n = ''__esModule'' then Some Es_flag
       else if n \<in> set (names_of p) then Some (Declared p n) else None)"
proof -
  from assms(2) obtain a where a: "(p, a) \<in> set (cache s)" by auto
  from good_cached(4) [OF assms(1) a] have "exports_object s p = a"
    by (simp add: exports_object_def)
  moreover have "p \<in> set (map fst script_modules)"
    using assms(1) a by (auto simp: good_def)
  ultimately show own: "own_property (exports_heap s) (exports_object s p) n =
      (if n = ''__esModule'' then Some es_property
       else if n \<in> set (names_of p) then Some (export_property p n) else None)"
    using good_cached(3) [OF assms(1) a] exports_of_module by simp
  show "map_of (cache s) p = Some (exports_object s p)"
    using good_cached(4) [OF assms(1) a] by (simp add: exports_object_def)
  show "js_field (exports_heap s) (exports_object s p) n =
      (if n = ''__esModule'' then Some Es_flag
       else if n \<in> set (names_of p) then Some (Declared p n) else None)"
    using own by (simp add: js_field_def es_property_def export_property_def)
qed

lemma load_cached: "0 < d \<Longrightarrow> map_of (cache s) p = Some a \<Longrightarrow> load d p s = (Inr a, s)"
  by (cases d) (simp_all add: load.simps)

end
