(* ===== verification/Published_Selectors.thy ===== *)
theory Published_Selectors
  imports Published_Util
begin

text \<open>
  The compiled selectors of \<open>client/dist/esm/selector.js\<close>: an object whose field \<open>labels\<close> refers to an
  array. They do to the arrays what the selectors of \<open>Selectors\<close> do.
\<close>

section \<open>selector.js\<close>

text \<open>The field \<open>labels\<close> of a selector, an array.\<close>

definition labels_field :: "addr \<Rightarrow> (published_world, nat) action" where
  "labels_field this w =
     (case js_field (objects w) this ''labels'' of Some (PArray a) \<Rightarrow> (Inr a, w) | _ \<Rightarrow> (Inl TypeError, w))"

definition published_new_Selector :: "(published_world, addr) action" where
  "published_new_Selector w =
     (let a = length (arrays w) in
      on_heap (published_Selector (PArray a)) (w\<lparr>arrays := arrays w @ [[]]\<rparr>))"

definition published_toLabelSet :: "addr \<Rightarrow> (published_world, ProtocolLabelSet) action" where
  "published_toLabelSet this =
     bindA (labels_field this) (\<lambda>a w.
       let copy = length (arrays w);
           w1 = w\<lparr>arrays := arrays w @ [arrays w ! a]\<rparr>;
           w2 = w1\<lparr>arrays := (arrays w1)[copy := js_sort (published_sortBy [ProtocolLabel.name, ProtocolLabel.value'])
             (arrays w1 ! copy)]\<rparr>
       in (Inr \<lparr>ProtocolLabelSet.labels = Some (arrays w2 ! copy)\<rparr>, w2))"

text \<open>\<open>this.labels.push(l); return this\<close>.\<close>

definition push_label :: "ProtocolLabel \<Rightarrow> addr \<Rightarrow> (published_world, addr) action" where
  "push_label l this =
     bindA (labels_field this) (\<lambda>a w. (Inr this, w\<lparr>arrays := (arrays w)[a := arrays w ! a @ [l]]\<rparr>))"

definition published_collection :: "js_string \<Rightarrow> addr \<Rightarrow> (published_world, addr) action" where
  "published_collection v = push_label (label (js ''estuary.dev/collection'') v)"

definition published_name :: "js_string \<Rightarrow> addr \<Rightarrow> (published_world, addr) action" where
  "published_name v = push_label (label (js ''name'') v)"

definition published_prefix :: "js_string \<Rightarrow> (published_world, addr) action" where
  "published_prefix v =
     (let v' = (if \<not> js_endsWith v (js ''/'') then v @ js ''/'' else v) in
      bindA published_new_Selector (push_label (label (js ''prefix'') v')))"

definition published_task :: "js_string \<Rightarrow> addr \<Rightarrow> (published_world, addr) action" where
  "published_task v = push_label (label (js ''estuary.dev/task-name'') v)"

definition published_id :: "js_string \<Rightarrow> addr \<Rightarrow> (published_world, addr) action" where
  "published_id v = push_label (label (js ''id'') v)"

section \<open>They are the selectors of the source\<close>

text \<open>The world of the source that a world with objects stands for, and selectors in it.\<close>

definition source_world :: "published_world \<Rightarrow> client_world" where
  "source_world w = \<lparr>fetched = fetched w, arrays = arrays w\<rparr>"

definition selector_at :: "published_world \<Rightarrow> addr \<Rightarrow> Selector \<Rightarrow> bool" where
  "selector_at w a s \<longleftrightarrow> a < length (objects w) \<and> js_field (objects w) a ''labels'' = Some (PArray (label_array s))"

definition grows :: "published_world \<Rightarrow> published_world \<Rightarrow> bool" where
  "grows w w' \<longleftrightarrow> (\<exists>os. objects w' = objects w @ os)"

lemma grows_refl: "grows w w"
  by (simp add: grows_def)

lemma grows_trans: "grows u v \<Longrightarrow> grows v w \<Longrightarrow> grows u w"
  by (auto simp: grows_def)

lemma grows_field: "grows w w' \<Longrightarrow> a < length (objects w) \<Longrightarrow> js_field (objects w') a k = js_field (objects w) a k"
  by (auto simp: grows_def nth_append intro!: same_fields)

lemma selector_grows: "grows w w' \<Longrightarrow> selector_at w a s \<Longrightarrow> selector_at w' a s"
  using grows_field [of w w' a "''labels''"] by (auto simp: selector_at_def grows_def)

lemma published_toLabelSet_same:
  assumes "selector_at w a s" and "toLabelSet s (source_world w) = (ls, v)"
  shows "\<exists>w'. published_toLabelSet a w = (Inr ls, w') \<and> source_world w' = v \<and> objects w' = objects w"
  using assms
  by (auto simp: published_toLabelSet_def action_simps labels_field_def selector_at_def toLabelSet_def
      array_slice0_def new_array_def array_sort_def source_world_def Let_def published_sortBy_same
      simp del: sortBy.simps)

lemma push_label_same:
  assumes "selector_at w a s"
  shows "\<exists>w'. push_label l a w = (Inr a, w') \<and> source_world w' = array_push (label_array s) l (source_world w)
    \<and> objects w' = objects w"
  using assms
  by (simp add: push_label_def action_simps labels_field_def selector_at_def array_push_def source_world_def)

lemma published_new_Selector_same:
  assumes "new_Selector (source_world w) = (s, v)"
  shows "\<exists>w'. published_new_Selector w = (Inr (length (objects w)), w') \<and> source_world w' = v
    \<and> selector_at w' (length (objects w)) s \<and> grows w w'"
  using assms
  by (auto simp: published_new_Selector_def on_heap_def published_Selector_def construct_object
      new_Selector_def new_array_def source_world_def selector_at_def plain_field grows_def Let_def)

text \<open>The builder methods, in the order of the file.\<close>

lemma published_builders_same:
  assumes "selector_at w a s"
  shows "\<exists>w'. published_collection v a w = (Inr a, w')
      \<and> (s, source_world w') = JournalSelector_collection v s (source_world w)"
    and "\<exists>w'. published_name v a w = (Inr a, w')
      \<and> (s, source_world w') = JournalSelector_name v s (source_world w)"
    and "\<exists>w'. published_task v a w = (Inr a, w')
      \<and> (s, source_world w') = ShardSelector_task v s (source_world w)"
    and "\<exists>w'. published_id v a w = (Inr a, w')
      \<and> (s, source_world w') = ShardSelector_id v s (source_world w)"
  using push_label_same [OF assms]
  by (auto simp: published_collection_def published_name_def published_task_def published_id_def
      builder_defs simp del: js_Cons)

lemma published_prefix_same:
  assumes "JournalSelector_prefix v (source_world w) = (s, v')"
  shows "\<exists>w'. published_prefix v w = (Inr (length (objects w)), w') \<and> source_world w' = v'
    \<and> selector_at w' (length (objects w)) s"
proof -
  obtain s1 v1 where new: "new_Selector (source_world w) = (s1, v1)" by fastforce
  with published_new_Selector_same obtain w1 where w1: "published_new_Selector w = (Inr (length (objects w)), w1)"
    "source_world w1 = v1" "selector_at w1 (length (objects w)) s1" by blast
  from push_label_same [OF w1(3)] assms new w1 show ?thesis
    by (fastforce simp: published_prefix_def JournalSelector_prefix_def bindA_def selector_at_def Let_def
        simp del: js_Cons)
qed

end
