(* ===== verification/Script_Bodies.thy ===== *)
theory Script_Bodies
  imports Published_Helpers Published_Selectors
begin

text \<open>
  The functions, classes and methods of \<open>client/dist/script\<close> that use no import, from \<open>result.js\<close>,
  \<open>util.js\<close>, \<open>streams.js\<close>, \<open>selector.js\<close> and the constructors of the two clients, on the worlds of the
  ES modules. They are the same functions: which format a program loads makes no difference to
  them. Those that use imports are in \<open>Script_Calls\<close>.
\<close>

named_theorems commonjs_same \<open>functions of the CommonJS modules as those of the ES modules\<close>

section \<open>result.js\<close>

definition commonjs_Result :: "'v option \<Rightarrow> 'v option \<Rightarrow> ('v heap, addr) action" where
  "commonjs_Result value_arg error_arg = construct [(''value'', value_arg), (''error'', error_arg)]"

definition commonjs_Ok :: "'v \<Rightarrow> ('v heap, addr) action" where
  "commonjs_Ok v = bindA (commonjs_Result (Some v) None) js_freeze"

definition commonjs_Err :: "'v \<Rightarrow> ('v heap, addr) action" where
  "commonjs_Err e = bindA (commonjs_Result None (Some e)) js_freeze"

definition commonjs_ok :: "('v \<Rightarrow> bool) \<Rightarrow> addr \<Rightarrow> ('v heap, bool) action" where
  "commonjs_ok truthy this h = (Inr (field_truthy truthy (js_field h this ''value'')), h)"

definition commonjs_err :: "('v \<Rightarrow> bool) \<Rightarrow> addr \<Rightarrow> ('v heap, bool) action" where
  "commonjs_err truthy this h = (Inr (field_truthy truthy (js_field h this ''error'')), h)"

text \<open>The two methods read one field and report the other.\<close>

definition unwrap_field ::
  "string \<Rightarrow> string \<Rightarrow> js_string \<Rightarrow> ('v \<Rightarrow> bool) \<Rightarrow> ('v \<Rightarrow> js_string completion) \<Rightarrow> addr \<Rightarrow> ('v heap, 'v) action" where
  "unwrap_field field other msg truthy printer this =
     bindA (js_read this field) (\<lambda>v.
       if field_truthy truthy v then bindA (js_read this field) (\<lambda>v. returnA (the v))
       else bindA (js_read this other) (\<lambda>e.
         bindA (completeA (template_field printer e)) (\<lambda>s. throwA (ThrownString (msg @ s)))))"

definition commonjs_unwrap ::
  "('v \<Rightarrow> bool) \<Rightarrow> ('v \<Rightarrow> js_string completion) \<Rightarrow> addr \<Rightarrow> ('v heap, 'v) action" where
  "commonjs_unwrap = unwrap_field ''value'' ''error'' (js ''Attempted to unwrap an Result, but found error: '')"

definition commonjs_unwrap_err ::
  "('v \<Rightarrow> bool) \<Rightarrow> ('v \<Rightarrow> js_string completion) \<Rightarrow> addr \<Rightarrow> ('v heap, 'v) action" where
  "commonjs_unwrap_err = unwrap_field ''error'' ''value'' (js ''Attempted to unwrap an Result error, but found value: '')"

text \<open>What the function makes of a truthy field goes into the field of the new result; the other field
  is only copied when there is none.\<close>

definition map_field ::
  "string \<Rightarrow> string \<Rightarrow> ('v option \<Rightarrow> 'v option \<Rightarrow> ('v heap, addr) action) \<Rightarrow> ('v \<Rightarrow> bool) \<Rightarrow>
     ('v \<Rightarrow> ('v heap, 'v) action) \<Rightarrow> addr \<Rightarrow> ('v heap, addr) action" where
  "map_field field other new truthy f this =
     bindA (js_read this field) (\<lambda>v.
       if field_truthy truthy v then
         bindA (js_read this field) (\<lambda>v. bindA (f (the v)) (\<lambda>u. new (Some u) None))
       else bindA (js_read this other) (\<lambda>e. new None e))"

definition commonjs_map ::
  "('v \<Rightarrow> bool) \<Rightarrow> ('v \<Rightarrow> ('v heap, 'v) action) \<Rightarrow> addr \<Rightarrow> ('v heap, addr) action" where
  "commonjs_map = map_field ''value'' ''error'' commonjs_Result"

definition commonjs_map_err ::
  "('v \<Rightarrow> bool) \<Rightarrow> ('v \<Rightarrow> ('v heap, 'v) action) \<Rightarrow> addr \<Rightarrow> ('v heap, addr) action" where
  "commonjs_map_err = map_field ''error'' ''value'' (\<lambda>e v. commonjs_Result v e)"

section \<open>util.js\<close>

definition commonjs_trimUrl :: "URL \<Rightarrow> js_string" where
  "commonjs_trimUrl orig =
     (let url = URL_toString orig in
      if js_endsWith url (js ''/'') then js_slice0 (length url - 1) url else url)"

definition commonjs_ResponseError :: "'v option \<Rightarrow> 'v option \<Rightarrow> 'v option \<Rightarrow> ('v heap, addr) action" where
  "commonjs_ResponseError body response_arg status_arg =
     construct [(''body'', body), (''response'', response_arg), (''status'', status_arg)]"

text \<open>The loop, over the fields that are left.\<close>

fun commonjs_sortBy :: "('a \<Rightarrow> js_string option) list \<Rightarrow> 'a \<Rightarrow> 'a \<Rightarrow> int" where
  "commonjs_sortBy [] a b = 0"
| "commonjs_sortBy (field # others) a b =
     (if field_less (field b) (field a) then 1
      else if field_less (field a) (field b) then -1
      else commonjs_sortBy others a b)"

section \<open>streams.js\<close>

definition commonjs_queueLines :: "js_string \<Rightarrow> ((js_string option, js_string) stage_state, unit) action" where
  "commonjs_queueLines splitOn =
     bindA get_closure (\<lambda>buffer.
       case buffer of
         None \<Rightarrow> throwA TypeError
       | Some b \<Rightarrow>
           bindA (eachA enqueue (butlast (js_split b splitOn))) (\<lambda>_.
           set_closure (case js_split b splitOn of [] \<Rightarrow> None | parts \<Rightarrow> Some (last parts))))"

definition commonjs_splitStream :: "js_string \<Rightarrow> (js_string option, js_string, js_string) transformer" where
  "commonjs_splitStream splitOn =
     \<lparr>tstart = Some [],
      ttransform = (\<lambda>s chunk. run_callback
        (bindA get_closure (\<lambda>buffer.
         bindA (set_closure (Some ((case buffer of None \<Rightarrow> js ''undefined'' | Some b \<Rightarrow> b) @ chunk))) (\<lambda>_.
           commonjs_queueLines splitOn))) s),
      tflush = (\<lambda>s. snd (run_callback
        (bindA get_closure (\<lambda>buffer.
           case buffer of
             None \<Rightarrow> throwA TypeError
           | Some b \<Rightarrow> if length b \<noteq> 0 then commonjs_queueLines splitOn else returnA ())) s))\<rparr>"

definition commonjs_parseJSONStream :: "(unit, js_string, jsval) transformer" where
  "commonjs_parseJSONStream =
     published_stage (\<lambda>chunk. catchA (bindA (completeA (json_parse chunk)) enqueue) (\<lambda>_. returnA ()))"

definition commonjs_unwrapResult :: "(unit, jsval, jsval) transformer" where
  "commonjs_unwrapResult = published_stage (\<lambda>chunk. bindA (completeA (js_get chunk (js ''result''))) enqueue)"

definition commonjs_decodeContent :: "(unit, jsval, js_string) transformer" where
  "commonjs_decodeContent = published_stage (\<lambda>v.
     bindA (completeA (js_get v (js ''content''))) (\<lambda>content.
     bindA (completeA (js_get_opt content (js ''length''))) (\<lambda>len.
       if js_truthy len then
         bindA (completeA (bindC (js_to_string content) atob)) (\<lambda>binary.
         enqueue (text_decode (copy_bytes binary (replicate (length binary) 0) 0)))
       else returnA ())))"

text \<open>\<open>pump\<close> with the read it waits for: the two callbacks of \<open>then\<close> are one loop.\<close>

function commonjs_pump :: "('a \<Rightarrow> bool) \<Rightarrow> ('a reading_state, unit) async" where
  "commonjs_pump truthy w =
     (case reader_read w of
        (Fulfilled (False, Some v), w') \<Rightarrow>
          if truthy v then commonjs_pump truthy (snd (push_result v w')) else (Fulfilled (), w')
      | (Fulfilled _, w') \<Rightarrow> (Fulfilled (), w')
      | (Rejected e, w') \<Rightarrow> (Rejected e, w')
      | (Pending, w') \<Rightarrow> (Pending, w'))"
  by pat_completeness auto
termination
  by (relation "measure (\<lambda>(_, w). length (unread w))")
    (auto simp: reader_read_def push_result_def split: list.splits ending.splits)

declare commonjs_pump.simps [simp del]

definition commonjs_readStreamToEnd :: "('a \<Rightarrow> bool) \<Rightarrow> ('a reading_state, 'a list) async" where
  "commonjs_readStreamToEnd truthy w =
     runP getReader (\<lambda>_. awaitP id (commonjs_pump truthy) (\<lambda>_ w'. (Fulfilled (read_results w'), w')))
       (w\<lparr>read_results := []\<rparr>)"

section \<open>selector.js and the constructors of the clients\<close>

definition commonjs_new_Selector :: "(published_world, addr) action" where
  "commonjs_new_Selector w =
     on_heap (construct [(''labels'', Some (PArray (length (arrays w))))]) (w\<lparr>arrays := arrays w @ [[]]\<rparr>)"

text \<open>\<open>this.labels.push({ name: n, value: v })\<close>.\<close>

definition push_named :: "string \<Rightarrow> js_string \<Rightarrow> addr \<Rightarrow> (published_world, unit) action" where
  "push_named n v this =
     bindA (labels_field this) (\<lambda>a w. (Inr (), w\<lparr>arrays := (arrays w)[a := arrays w ! a @ [label (js n) v]]\<rparr>))"

definition commonjs_collection :: "js_string \<Rightarrow> addr \<Rightarrow> (published_world, addr) action" where
  "commonjs_collection v this = bindA (push_named ''estuary.dev/collection'' v this) (\<lambda>_. returnA this)"

definition commonjs_name :: "js_string \<Rightarrow> addr \<Rightarrow> (published_world, addr) action" where
  "commonjs_name v this = bindA (push_named ''name'' v this) (\<lambda>_. returnA this)"

definition commonjs_prefix :: "js_string \<Rightarrow> (published_world, addr) action" where
  "commonjs_prefix v =
     bindA commonjs_new_Selector (\<lambda>sel.
     bindA (push_named ''prefix'' (if js_endsWith v (js ''/'') then v else v @ js ''/'') sel) (\<lambda>_. returnA sel))"

definition commonjs_task :: "js_string \<Rightarrow> addr \<Rightarrow> (published_world, addr) action" where
  "commonjs_task v this = bindA (push_named ''estuary.dev/task-name'' v this) (\<lambda>_. returnA this)"

definition commonjs_id :: "js_string \<Rightarrow> addr \<Rightarrow> (published_world, addr) action" where
  "commonjs_id v this = bindA (push_named ''id'' v this) (\<lambda>_. returnA this)"

definition commonjs_JournalClient :: "'v option \<Rightarrow> 'v option \<Rightarrow> ('v heap, addr) action" where
  "commonjs_JournalClient base_url auth_token =
     construct [(''authToken'', auth_token), (''baseUrl'', base_url)]"

definition commonjs_ShardClient :: "'v option \<Rightarrow> 'v option \<Rightarrow> ('v heap, addr) action" where
  "commonjs_ShardClient base_url auth_token =
     construct [(''authToken'', auth_token), (''baseUrl'', base_url)]"

section \<open>They are the functions of the ES modules\<close>

lemma commonjs_constructors_same [commonjs_same]:
  "commonjs_Result = published_Result" "commonjs_ResponseError = published_ResponseError"
  "commonjs_JournalClient = published_JournalClient" "commonjs_ShardClient = published_ShardClient"
  "commonjs_new_Selector = published_new_Selector"
  by (simp_all add: fun_eq_iff commonjs_Result_def published_Result_def commonjs_ResponseError_def
      published_ResponseError_def commonjs_JournalClient_def published_JournalClient_def
      commonjs_ShardClient_def published_ShardClient_def commonjs_new_Selector_def
      published_new_Selector_def published_Selector_def Let_def)

lemma commonjs_methods_same [commonjs_same]:
  "commonjs_Ok = published_Ok" "commonjs_Err = published_Err" "commonjs_ok = published_ok"
  "commonjs_err = published_err" "commonjs_unwrap = published_unwrap" "commonjs_unwrap_err = published_unwrap_err"
  "commonjs_map = published_map" "commonjs_map_err = published_map_err"
  by (simp_all add: fun_eq_iff commonjs_same commonjs_Ok_def published_Ok_def commonjs_Err_def published_Err_def
      commonjs_ok_def published_ok_def commonjs_err_def published_err_def js_read_def action_simps
      commonjs_unwrap_def published_unwrap_def commonjs_unwrap_err_def published_unwrap_err_def unwrap_field_def
      commonjs_map_def published_map_def commonjs_map_err_def published_map_err_def map_field_def del: js_Cons)

lemma commonjs_trimUrl_same [commonjs_same]: "commonjs_trimUrl = published_trimUrl"
  by (simp add: fun_eq_iff commonjs_trimUrl_def published_trimUrl_def Let_def)

lemma commonjs_sortBy_same [commonjs_same]: "commonjs_sortBy = published_sortBy"
proof -
  have "commonjs_sortBy names a b = sortBy names a b" for names and a b :: 'a
    by (induction names) auto
  then show ?thesis by (simp add: fun_eq_iff published_sortBy_same)
qed

lemma commonjs_queueLines_same: "commonjs_queueLines = published_queueLines"
  by (auto simp: fun_eq_iff commonjs_queueLines_def published_queueLines_def action_simps Let_def
      split: option.splits list.splits prod.splits sum.splits)

lemma commonjs_stages_same [commonjs_same]:
  "commonjs_splitStream = published_splitStream" "commonjs_parseJSONStream = published_parseJSONStream"
  "commonjs_unwrapResult = published_unwrapResult" "commonjs_decodeContent = published_decodeContent"
proof -
  show "commonjs_splitStream = published_splitStream"
    unfolding commonjs_splitStream_def published_splitStream_def commonjs_queueLines_same
      published_split_transform_def published_split_flush_def fun_eq_iff by (rule allI, rule refl)
  show "commonjs_parseJSONStream = published_parseJSONStream"
    by (simp add: commonjs_parseJSONStream_def published_parseJSONStream_def published_stage_def
        published_parse_transform_def)
  show "commonjs_unwrapResult = published_unwrapResult"
    by (simp add: commonjs_unwrapResult_def published_unwrapResult_def published_stage_def
        published_unwrap_transform_def)
  have two: "bindA (completeA (bindC (js_to_string content) atob)) f
      = bindA (completeA (js_to_string content)) (\<lambda>s. bindA (completeA (atob s)) f)"
    for content and f :: "js_string \<Rightarrow> ((unit, js_string) stage_state, unit) action"
    by (cases "js_to_string content") (simp_all add: fun_eq_iff action_simps)
  show "commonjs_decodeContent = published_decodeContent"
    unfolding commonjs_decodeContent_def published_decodeContent_def published_decode_transform_def [abs_def] two
    by (rule refl)
qed

lemma commonjs_pump_same: "commonjs_pump truthy w = awaitP id reader_read (published_pump truthy) w"
proof (induction "unread w" arbitrary: w)
  case Nil
  then show ?case
    by (cases "stream_end w")
      (simp_all add: commonjs_pump.simps [of truthy w] awaitP_def reader_read_def published_pump.simps)
next
  case (Cons v vs)
  let ?w = "w\<lparr>unread := vs, read_results := read_results w @ [v]\<rparr>"
  have "commonjs_pump truthy w = (if truthy v then commonjs_pump truthy ?w else (Fulfilled (), w\<lparr>unread := vs\<rparr>))"
    using Cons.hyps(2) [symmetric]
    by (simp add: commonjs_pump.simps [of truthy w] reader_read_def push_result_def)
  with Cons.hyps(1) [of ?w] show ?case
    using Cons.hyps(2) [symmetric]
    by (simp add: awaitP_def reader_read_def published_pump.simps [of truthy False] push_result_def
        split: list.splits ending.splits)
qed

lemma commonjs_readStreamToEnd_same [commonjs_same]: "commonjs_readStreamToEnd = published_readStreamToEnd"
proof -
  have same: "commonjs_pump truthy = awaitP id reader_read (published_pump truthy)" for truthy :: "'a \<Rightarrow> bool"
    by (rule ext) (rule commonjs_pump_same)
  show ?thesis
    unfolding commonjs_readStreamToEnd_def published_readStreamToEnd_def fun_eq_iff same by simp
qed

lemma push_named_same: "bindA (push_named n v this) (\<lambda>_. returnA this) = push_label (label (js n) v) this"
  by (auto simp: fun_eq_iff push_named_def push_label_def action_simps split: sum.splits prod.splits)

lemma commonjs_selectors_same [commonjs_same]:
  "commonjs_collection = published_collection" "commonjs_name = published_name" "commonjs_prefix = published_prefix"
  "commonjs_task = published_task" "commonjs_id = published_id"
  by (simp_all add: fun_eq_iff commonjs_same push_named_same commonjs_collection_def published_collection_def
      commonjs_name_def published_name_def commonjs_prefix_def published_prefix_def commonjs_task_def
      published_task_def commonjs_id_def published_id_def Let_def if_distrib del: js_Cons)

end
