(* ===== verification/Published_Client.thy ===== *)
theory Published_Client
  imports Published_Selectors Published_Stages Shard_Client Journal_Client
begin

text \<open>
  The compiled clients, \<open>client/dist/esm/journal_client.js\<close> and \<open>shard_client.js\<close>, on the heap.
  Results are frozen, so that whatever other code does while a call waits, the clients read from
  them what \<open>doFetch\<close> put in, and the calls come to what the calls of the source come to.
\<close>

section \<open>journal_client.js and shard_client.js\<close>

text \<open>The fields a client was constructed with: a URL and a string, as its constructor declares.\<close>

definition base_field :: "addr \<Rightarrow> (published_world, js_string) action" where
  "base_field this w =
     (case js_field (objects w) this ''baseUrl'' of
        Some (PUrl u) \<Rightarrow> (Inr (URL_toString u), w) | _ \<Rightarrow> (Inl TypeError, w))"

definition token_field :: "addr \<Rightarrow> (published_world, js_string) action" where
  "token_field this w =
     (case js_field (objects w) this ''authToken'' of
        Some (PStr s) \<Rightarrow> (Inr s, w) | _ \<Rightarrow> (Inl TypeError, w))"

definition default_argument :: "addr option \<Rightarrow> (published_world, addr) action" where
  "default_argument arg = (case arg of None \<Rightarrow> published_new_Selector | Some a \<Rightarrow> returnA a)"

text \<open>What follows the fetch in the three calls with one response.\<close>

definition published_answer ::
  "published_world others \<Rightarrow> (jsval \<Rightarrow> 'a completion) \<Rightarrow> ('a \<Rightarrow> pval) \<Rightarrow> addr \<Rightarrow>
     (published_world, addr) async" where
  "published_answer others view wrap result =
     runP (on_heap (published_ok pval_truthy result)) (\<lambda>okay.
       if okay then
         runP (on_heap (published_unwrap pval_truthy print_object result)) (\<lambda>r.
         awaitP (others {}) (json_method r) (\<lambda>data.
         runP (completeA (view data)) (\<lambda>x.
         runP (on_heap (published_Ok (wrap x))) returnP)))
       else
         runP (on_heap (published_unwrap_err pval_truthy print_object result)) (\<lambda>e.
         await_objectP others (published_fromResponse others e) (\<lambda>err.
         runP (on_heap (published_Err (PRef err))) returnP)))"

definition published_list_call ::
  "js_string \<Rightarrow> (jsval \<Rightarrow> jsval list completion) \<Rightarrow> published_world others \<Rightarrow> network \<Rightarrow>
     addr \<Rightarrow> addr option \<Rightarrow> addr option \<Rightarrow> (published_world, addr) async" where
  "published_list_call method_path view others net this included excluded =
     runP (default_argument included) (\<lambda>inc.
     runP (default_argument excluded) (\<lambda>exc.
     runP (base_field this) (\<lambda>base.
     runP (published_toLabelSet inc) (\<lambda>incs.
     runP (published_toLabelSet exc) (\<lambda>excs.
     runP (token_field this) (\<lambda>token.
     awaitP (others {}) (published_doFetch others net (base @ method_path) token
       (JObj [(js ''selector'', JObj [(js ''include'', Broker_Types.json_of_ProtocolLabelSet incs),
                                      (js ''exclude'', Broker_Types.json_of_ProtocolLabelSet excs)])]))
       (published_answer others view PItems)))))))"

definition published_JournalClient_list where
  "published_JournalClient_list = published_list_call (js ''v1/journals/list'') (\<lambda>data.
     bindC (js_get data (js ''journals'')) (array_map (\<lambda>j. js_get j (js ''spec''))))"

definition published_ShardClient_list where
  "published_ShardClient_list = published_list_call (js ''v1/shards/list'') (\<lambda>data.
     bindC (js_get data (js ''shards'')) (array_map (\<lambda>s. bindC (js_get s (js ''spec'')) (\<lambda>sp.
       bindC (js_get s (js ''status'')) (\<lambda>st.
         Inr (JObj [(js ''spec'', sp), (js ''status'', st)]))))))"

definition published_ShardClient_stat ::
  "published_world others \<Rightarrow> network \<Rightarrow> addr \<Rightarrow> js_string \<Rightarrow> (js_string \<times> js_string) list \<Rightarrow>
     (published_world, addr) async" where
  "published_ShardClient_stat others net this shardId offsets =
     runP (base_field this) (\<lambda>base.
     runP (token_field this) (\<lambda>token.
     awaitP (others {}) (published_doFetch others net (base @ js ''v1/shards/stat'') token
       (JObj [(js ''shard'', JStr shardId), (js ''readThrough'', json_string_map offsets)]))
       (published_answer others Inr PJson)))"

text \<open>What follows the fetch in \<open>read\<close>.\<close>

definition published_read_answer ::
  "published_world others \<Rightarrow> addr \<Rightarrow> (published_world, addr) async" where
  "published_read_answer others result =
     runP (on_heap (published_ok pval_truthy result)) (\<lambda>okay.
       if okay then
         runP (on_heap (published_unwrap pval_truthy print_object result)) (\<lambda>r.
           case r of
             PResponse resp \<Rightarrow>
               (case response_body resp of
                  None \<Rightarrow> runP (throwA TypeError) returnP
                | Some body \<Rightarrow>
                    (let reader =
                       pipeThrough (pipeThrough (pipeThrough (pipeThrough body
                         text_decoder_stream) (published_splitStream newline)) published_parseJSONStream)
                         published_unwrapResult
                     in runP (on_heap (published_Ok (PStream reader))) returnP))
           | _ \<Rightarrow> runP (throwA TypeError) returnP)
       else
         runP (on_heap (published_unwrap_err pval_truthy print_object result)) (\<lambda>e.
         await_objectP others (published_fromStreamResponse others e) (\<lambda>err.
         runP (on_heap (published_Err (PRef err))) returnP)))"

definition published_JournalClient_read ::
  "published_world others \<Rightarrow> network \<Rightarrow> addr \<Rightarrow> ProtocolReadRequest \<Rightarrow>
     (published_world, addr) async" where
  "published_JournalClient_read others net this req =
     runP (base_field this) (\<lambda>base.
     runP (token_field this) (\<lambda>token.
     awaitP (others {}) (published_doFetch others net (base @ js ''v1/journals/read'') token
       (json_of_ProtocolReadRequest req)) (published_read_answer others)))"

definition published_parseJournalDocuments :: "jsval stream \<Rightarrow> jsval stream" where
  "published_parseJournalDocuments st =
     pipeThrough (pipeThrough (pipeThrough st published_decodeContent) (published_splitStream newline))
       published_parseJSONStream"

lemmas published_stages_same = published_splitStream_same published_parse_same published_unwrap_same
  published_decode_same

lemma published_parseJournalDocuments_same: "published_parseJournalDocuments = parseJournalDocuments"
  by (simp add: fun_eq_iff published_parseJournalDocuments_def parseJournalDocuments_def published_stages_same)

section \<open>They are the clients of the source\<close>

definition client_at :: "published_world \<Rightarrow> addr \<Rightarrow> URL \<Rightarrow> js_string \<Rightarrow> bool" where
  "client_at w this u token \<longleftrightarrow> this < length (objects w) \<and>
     js_field (objects w) this ''baseUrl'' = Some (PUrl u) \<and> js_field (objects w) this ''authToken'' = Some (PStr token)"

text \<open>A client is what its constructor makes.\<close>

lemma client_constructed:
  "\<exists>w'. on_heap (published_JournalClient (Some (PUrl u)) (Some (PStr token))) w = (Inr (length (objects w)), w')
     \<and> client_at w' (length (objects w)) u token \<and> source_world w' = source_world w"
  by (simp add: on_heap_def published_JournalClient_def construct_object client_at_def plain_field source_world_def)

definition argument_at :: "published_world \<Rightarrow> addr option \<Rightarrow> Selector option \<Rightarrow> bool" where
  "argument_at w arg sel =
     (case arg of
        None \<Rightarrow> sel = None
      | Some a \<Rightarrow> (case sel of None \<Rightarrow> False | Some s \<Rightarrow> selector_at w a s))"

lemma argument_grows: "grows w w' \<Longrightarrow> argument_at w arg sel \<Longrightarrow> argument_at w' arg sel"
  by (auto simp: argument_at_def intro: selector_grows split: option.splits)

lemma client_grows: "grows w w' \<Longrightarrow> client_at w this u token \<Longrightarrow> client_at w' this u token"
  using grows_field [of w w' this] by (auto simp: client_at_def grows_def)

lemma default_argument_same:
  assumes "argument_at w arg sel" and "default_selector sel (source_world w) = (s, v)"
  shows "\<exists>a w'. default_argument arg w = (Inr a, w') \<and> source_world w' = v \<and> selector_at w' a s \<and> grows w w'"
proof (cases arg)
  case None
  with assms have "new_Selector (source_world w) = (s, v)"
    by (simp add: argument_at_def default_selector_def)
  from published_new_Selector_same [OF this] None show ?thesis
    by (auto simp: default_argument_def)
next
  case (Some a)
  with assms show ?thesis
    by (auto simp: argument_at_def default_argument_def default_selector_def returnA_def grows_refl
        split: option.splits)
qed

lemma published_answer_comes_to:
  assumes others: "meanwhile others" and result: "final (objects w) a v e"
    and p: "fetched_result p = Fulfilled (v, e)"
  shows "comes_to wrap (unary_outcome view p) (published_answer others view wrap a w)"
proof (cases p)
  case Pending
  with p show ?thesis by (simp add: fetched_result_def)
next
  case (Rejected err)
  with p have ve: "v = None" "e = Some (PThrown err)" by (simp_all add: fetched_result_def)
  with result Rejected show ?thesis
    by (simp add: published_answer_def run_ok run_unwrap_err field_truthy_def await_objectP_def awaitP_def published_fromResponse_def
        json_method_def unary_outcome_def comes_to_def)
next
  case (Fulfilled r)
  show ?thesis
  proof (cases "response_ok r")
    case True
    with p Fulfilled have ve: "v = Some (PResponse r)" "e = None" by (simp_all add: fetched_result_def)
    with result have "published_answer others view wrap a w =
        awaitP (others {}) (json_method (PResponse r)) (\<lambda>data. runP (completeA (view data)) (\<lambda>x.
          runP (on_heap (published_Ok (wrap x))) returnP)) w"
      by (simp add: published_answer_def run_ok run_unwrap field_truthy_def)
    with True Fulfilled show ?thesis
      by (cases "response_json r"; simp add: unary_outcome_def json_method_def run_simps comes_to_def)
        (auto simp: final_new run_Ok returnP_def split: sum.split)
  next
    case False
    with p Fulfilled have ve: "v = None" "e = Some (PResponse r)" by (simp_all add: fetched_result_def)
    with result have "published_answer others view wrap a w =
        await_objectP others (published_fromResponse others (PResponse r)) (\<lambda>err.
          runP (on_heap (published_Err (PRef err))) returnP) w"
      by (simp add: published_answer_def run_ok run_unwrap_err field_truthy_def)
    moreover have "comes_to wrap (unary_outcome view p) \<dots>"
    proof (cases "response_json r")
      case body: (Fulfilled body)
      show ?thesis
      proof (cases "js_get body (js ''code'')")
        case (Inr c)
        let ?e = "\<lparr>error_body = body, error_response = r, error_status = c\<rparr>"
        have "unary_outcome view p = Fulfilled (Inl ?e)"
          using Fulfilled False body Inr by (simp add: unary_outcome_def del: js_Cons)
        with body Inr show ?thesis
          using error_result [OF others, where e = ?e and wrap = wrap and h = "objects (others {} w)"]
          by (simp add: await_objectP_def awaitP_def published_fromResponse_def json_method_def run_ResponseError run_complete
              returnP_def del: js_Cons)
      qed (use Fulfilled False body in \<open>simp add: unary_outcome_def await_objectP_def awaitP_def published_fromResponse_def
          json_method_def run_complete comes_to_def del: js_Cons\<close>)
    qed (use Fulfilled False in \<open>simp_all add: unary_outcome_def await_objectP_def awaitP_def published_fromResponse_def
        json_method_def comes_to_def del: js_Cons\<close>)
    ultimately show ?thesis by simp
  qed
qed

lemma published_unary_comes_to:
  assumes "meanwhile others"
  shows "comes_to wrap (unary_outcome view (net (fetched w) (authorized_request url token body)))
    (awaitP (others {}) (published_doFetch others net url token body) (published_answer others view wrap) w)"
proof (rule published_doFetch_comes_to [OF assms])
  let ?p = "net (fetched w) (authorized_request url token body)"
  show "comes_to wrap (unary_outcome view ?p) (published_answer others view wrap a w')"
    if "fetched_result ?p = Fulfilled (v, e)" and "final (objects w') a v e" for a w' v e
    using assms that(2,1) by (rule published_answer_comes_to)
  show "unary_outcome view ?p = Pending" if "fetched_result ?p = Pending"
    using that by (simp add: fetched_result_def unary_outcome_def split: promise.splits)
qed

section \<open>The calls\<close>

text \<open>The source's result and the heap's.\<close>

definition same_result ::
  "('a \<Rightarrow> pval) \<Rightarrow> ('a, ResponseError) Result promise \<Rightarrow> addr promise \<times> published_world \<Rightarrow> bool" where
  "same_result wrap p o' \<longleftrightarrow> (\<exists>q. p = await q (\<lambda>r. Fulfilled (of_sum r)) \<and> comes_to wrap q o')"

lemma base_token:
  assumes "client_at w this u token"
  shows "base_field this w = (Inr (URL_toString u), w)"
    and "token_field this w = (Inr token, w)"
  using assms by (simp_all add: client_at_def base_field_def token_field_def)

text \<open>The statements of a list call up to the fetch, in their order.\<close>

lemma list_call_evaluated:
  assumes client: "client_at w this u token"
    and inc: "argument_at w inc isel" and exc: "argument_at w exc esel"
    and valid: "valid_arguments isel esel (source_world w)"
  obtains a w1 b w2 w3 w4 where "default_argument inc w = (Inr a, w1)" and "default_argument exc w1 = (Inr b, w2)"
    and "base_field this w2 = (Inr (URL_toString u), w2)"
    and "published_toLabelSet a w2 = (Inr (argument_labels isel (source_world w)), w3)"
    and "published_toLabelSet b w3 = (Inr (argument_labels esel (source_world w)), w4)"
    and "token_field this w4 = (Inr token, w4)" and "fetched w4 = fetched w"
proof -
  obtain i v1 where d1: "default_selector isel (source_world w) = (i, v1)" by fastforce
  then obtain a w1 where w1: "default_argument inc w = (Inr a, w1)" "source_world w1 = v1"
    "selector_at w1 a i" "grows w w1" using default_argument_same [OF inc] by blast
  obtain e v2 where d2: "default_selector esel v1 = (e, v2)" by fastforce
  then obtain b w2 where w2: "default_argument exc w1 = (Inr b, w2)" "source_world w2 = v2"
    "selector_at w2 b e" "grows w1 w2"
    using default_argument_same [OF argument_grows [OF w1(4) exc]] w1(2) by blast
  have c2: "client_at w2 this u token"
    using client w1(4) w2(4) by (blast intro: client_grows)
  obtain incs v3 where t1: "toLabelSet i v2 = (incs, v3)" by fastforce
  then obtain w3 where w3: "published_toLabelSet a w2 = (Inr incs, w3)" "source_world w3 = v3"
    "objects w3 = objects w2"
    using published_toLabelSet_same [OF selector_grows [OF w2(4) w1(3)]] w2(2) by blast
  obtain excs v4 where t2: "toLabelSet e v3 = (excs, v4)" by fastforce
  have "selector_at w3 b e" using w2(3) w3(3) by (simp add: selector_at_def)
  then obtain w4 where w4: "published_toLabelSet b w3 = (Inr excs, w4)" "source_world w4 = v4"
    "objects w4 = objects w3"
    using published_toLabelSet_same t2 w3(2) by blast
  have c4: "client_at w4 this u token" using c2 w3(3) w4(3) by (simp add: client_at_def)
  have args: "incs = argument_labels isel (source_world w)" "excs = argument_labels esel (source_world w)"
    "fetched v4 = fetched (source_world w)"
    using list_arguments [OF d1 d2 t1 t2] valid by (simp_all add: valid_arguments_def)
  have "fetched w4 = fetched w"
    using args(3) w4(2) by (auto simp: source_world_def)
  with that [OF w1(1) w2(1) base_token(1) [OF c2] _ _ base_token(2) [OF c4]] w3(1) w4(1) args(1,2) show thesis
    by simp
qed

lemma published_list_comes_to:
  assumes others: "meanwhile others" and call: "client_at w this u token"
    "argument_at w inc isel" "argument_at w exc esel" "valid_arguments isel esel (source_world w)"
  shows "comes_to PItems
    (unary_outcome view (net (fetched w) (list_request (URL_toString u @ route') token isel esel (source_world w))))
    (published_list_call route' view others net this inc exc w)"
proof -
  obtain a w1 b w2 w3 w4 where steps: "default_argument inc w = (Inr a, w1)" "default_argument exc w1 = (Inr b, w2)"
      "base_field this w2 = (Inr (URL_toString u), w2)"
      "published_toLabelSet a w2 = (Inr (argument_labels isel (source_world w)), w3)"
      "published_toLabelSet b w3 = (Inr (argument_labels esel (source_world w)), w4)"
      "token_field this w4 = (Inr token, w4)" and "fetched w4 = fetched w"
    by (rule list_call_evaluated [OF call])
  moreover have "published_list_call route' view others net this inc exc w =
      awaitP (others {}) (published_doFetch others net (URL_toString u @ route') token (selector_body isel esel (source_world w)))
        (published_answer others view PItems) w4"
    by (simp add: published_list_call_def runP_def steps selector_body_def del: js_Cons)
  ultimately show ?thesis
    using published_unary_comes_to [OF others, of PItems view net w4] by (simp add: list_request_def)
qed

lemma published_lists_same:
  assumes "meanwhile others" and "client_at w this u token"
    and "argument_at w inc isel" and "argument_at w exc esel"
    and valid: "valid_arguments isel esel (source_world w)"
  shows "same_result PItems
      (fst (JournalClient_list \<lparr>JournalClient.authToken = token, baseUrl = u\<rparr> isel esel net (source_world w)))
      (published_JournalClient_list others net this inc exc w)"
    and "same_result PItems
      (fst (ShardClient_list \<lparr>ShardClient.authToken = token, baseUrl = u\<rparr> isel esel net (source_world w)))
      (published_ShardClient_list others net this inc exc w)"
  unfolding same_result_def
  using published_list_comes_to [OF assms, of journal_specs net "js ''v1/journals/list''"]
    published_list_comes_to [OF assms, of shard_list net "js ''v1/shards/list''"]
    journal_list.outcome [OF valid] shards_list.outcome [OF valid]
  by (auto simp: published_JournalClient_list_def published_ShardClient_list_def journal_specs_def [abs_def]
      shard_list_def [abs_def] journal_list_url_def shard_list_url_def source_world_def simp del: js_Cons)

lemma published_stat_same:
  assumes "meanwhile others" and "client_at w this u token"
  shows "same_result PJson
    (fst (ShardClient_stat \<lparr>ShardClient.authToken = token, baseUrl = u\<rparr> sid offsets net w))
    (published_ShardClient_stat others net this sid offsets w)"
  unfolding same_result_def
  using published_unary_comes_to [OF assms(1), of PJson Inr net w]
  by (auto simp: published_ShardClient_stat_def runP_def base_token [OF assms(2)] ShardClient_stat_unary
      shard_stat_request_def simp del: js_Cons)

lemma published_read_answer_comes_to:
  assumes others: "meanwhile others" and result: "final (objects w) a v e"
    and p: "fetched_result p = Fulfilled (v, e)"
  shows "comes_to PStream (read_outcome p) (published_read_answer others a w)"
proof (cases p)
  case Pending
  with p show ?thesis by (simp add: fetched_result_def)
next
  case (Rejected err)
  with p have ve: "v = None" "e = Some (PThrown err)" by (simp_all add: fetched_result_def)
  with result Rejected show ?thesis
    by (simp add: published_read_answer_def run_ok run_unwrap_err field_truthy_def await_objectP_def awaitP_def
        published_fromStreamResponse_def json_method_def read_outcome_def comes_to_def)
next
  case (Fulfilled r)
  show ?thesis
  proof (cases "response_ok r")
    case True
    with p Fulfilled have ve: "v = Some (PResponse r)" "e = None" by (simp_all add: fetched_result_def)
    with result True Fulfilled show ?thesis
      by (cases "response_body r")
        (auto simp: published_read_answer_def run_ok run_unwrap field_truthy_def read_outcome_def run_Ok returnP_def
          comes_to_def final_new run_throw read_pipeline_def Let_def published_stages_same)
  next
    case False
    with p Fulfilled have ve: "v = None" "e = Some (PResponse r)" by (simp_all add: fetched_result_def)
    with result have "published_read_answer others a w =
        await_objectP others (published_fromStreamResponse others (PResponse r)) (\<lambda>err.
          runP (on_heap (published_Err (PRef err))) returnP) w"
      by (simp add: published_read_answer_def run_ok run_unwrap_err field_truthy_def)
    moreover have "comes_to PStream (read_outcome p) \<dots>"
    proof (cases "response_json r")
      case body: (Fulfilled body)
      show ?thesis
      proof (cases "js_get body (js ''error'')")
        case err: (Inr b)
        show ?thesis
        proof (cases "js_get b (js ''httpStatus'')")
          case (Inr c)
          let ?e = "\<lparr>error_body = b, error_response = r, error_status = c\<rparr>"
          have "read_outcome p = Fulfilled (Inl ?e)"
            using Fulfilled False body err Inr by (simp add: read_outcome_def del: js_Cons)
          with body err Inr show ?thesis
            using error_result [OF others, where e = ?e and wrap = PStream and h = "objects (others {} w)"]
            by (simp add: await_objectP_def awaitP_def published_fromStreamResponse_def json_method_def run_ResponseError
                run_complete returnP_def del: js_Cons)
        qed (use Fulfilled False body err in \<open>simp add: read_outcome_def await_objectP_def awaitP_def
            published_fromStreamResponse_def json_method_def run_complete comes_to_def del: js_Cons\<close>)
      qed (use Fulfilled False body in \<open>simp add: read_outcome_def await_objectP_def awaitP_def published_fromStreamResponse_def
          json_method_def run_complete comes_to_def del: js_Cons\<close>)
    qed (use Fulfilled False in \<open>simp_all add: read_outcome_def await_objectP_def awaitP_def published_fromStreamResponse_def
        json_method_def comes_to_def del: js_Cons\<close>)
    ultimately show ?thesis by simp
  qed
qed

lemma published_read_same:
  assumes others: "meanwhile others" and "client_at w this u token"
  shows "same_result PStream
    (fst (JournalClient_read \<lparr>JournalClient.authToken = token, baseUrl = u\<rparr> req net w))
    (published_JournalClient_read others net this req w)"
proof -
  let ?self = "\<lparr>JournalClient.authToken = token, baseUrl = u\<rparr>"
  let ?p = "net (fetched w) (read_request ?self req)"
  have "comes_to PStream (read_outcome ?p) (awaitP (others {}) (published_doFetch others net
      (URL_toString u @ js ''v1/journals/read'') token (json_of_ProtocolReadRequest req))
      (published_read_answer others) w)"
  proof (rule published_doFetch_comes_to [OF others])
    show "comes_to PStream (read_outcome ?p) (published_read_answer others a w')"
      if "fetched_result (net (fetched w) (authorized_request (URL_toString u @ js ''v1/journals/read'') token
          (json_of_ProtocolReadRequest req))) = Fulfilled (v, e)"
        and "final (objects w') a v e" for a w' v e
      using published_read_answer_comes_to [OF others that(2)] that(1)
      by (simp add: read_request_def del: js_Cons)
    show "read_outcome ?p = Pending"
      if "fetched_result (net (fetched w) (authorized_request (URL_toString u @ js ''v1/journals/read'') token
          (json_of_ProtocolReadRequest req))) = Pending"
      using that by (simp add: fetched_result_def read_outcome_def read_request_def del: js_Cons split: promise.splits)
  qed
  then show ?thesis
    by (auto simp: same_result_def published_JournalClient_read_def runP_def base_token [OF assms(2)]
        JournalClient_read_outcome simp del: js_Cons)
qed

end
