(* ===== verification/Script_Calls.thy ===== *)
theory Script_Calls
  imports Script_Modules Script_Bodies Published_Client
begin

text \<open>
  The functions of \<open>client/dist/script\<close> that use other modules. The compiler writes every use of an
  import as a property of the exports object of the module it comes from, \<open>util_js_1.doFetch\<close>, read at
  the time of the call: a program that changes the exports object changes what the clients do. As
  long as the exports stay what they were when the modules were loaded, the calls are those of
  \<open>Published_Client\<close>.
\<close>

section \<open>Worlds with modules\<close>

record script_world =
  page :: published_world
  modules :: loader

definition on_page :: "(published_world, 'a) action \<Rightarrow> (script_world, 'a) action" where
  "on_page m w = (case m (page w) of (c, v) \<Rightarrow> (c, w\<lparr>page := v\<rparr>))"

text \<open>The value of \<open>x.n\<close>, where \<open>x\<close> is the exports object of module \<open>p\<close>, about to be called or to have
  a method called: neither can be done with \<open>undefined\<close>.\<close>

definition imported :: "path \<Rightarrow> string \<Rightarrow> (script_world, code) action" where
  "imported p n w =
     (case js_field (exports_heap (modules w)) (exports_object (modules w) p) n of
        None \<Rightarrow> (Inl TypeError, w) | Some c \<Rightarrow> (Inr c, w))"

text \<open>
  What the values do that other programs put into the exports objects is a parameter, by the way
  the code uses each: \<open>doFetch\<close>, the methods of \<open>Result\<close> and \<open>ResponseError\<close> by their names, a selector
  class, \<open>sortBy("name", "value")\<close>, and the four stages.
\<close>

record foreign_code =
  f_fetch :: "code \<Rightarrow> js_string \<Rightarrow> js_string \<Rightarrow> jsval \<Rightarrow> (script_world, addr) async"
  f_result :: "code \<Rightarrow> string \<Rightarrow> pval \<Rightarrow> (script_world, addr) action"
  f_error :: "code \<Rightarrow> string \<Rightarrow> pval \<Rightarrow> (script_world, addr) async"
  f_selector :: "code \<Rightarrow> (script_world, addr) action"
  f_compare :: "code \<Rightarrow> Broker_Types.ProtocolLabel \<Rightarrow> Broker_Types.ProtocolLabel \<Rightarrow> int"
  f_split :: "code \<Rightarrow> js_string \<Rightarrow> js_string stream \<Rightarrow> js_string stream"
  f_parse :: "code \<Rightarrow> js_string stream \<Rightarrow> jsval stream"
  f_unwrap :: "code \<Rightarrow> jsval stream \<Rightarrow> jsval stream"
  f_decode :: "code \<Rightarrow> jsval stream \<Rightarrow> js_string stream"

section \<open>Calls of imports\<close>

definition call_Result :: "foreign_code \<Rightarrow> code \<Rightarrow> string \<Rightarrow> pval \<Rightarrow> (script_world, addr) action" where
  "call_Result F c meth v =
     (if c = Declared ''./result.js'' ''Result'' then
        on_page (on_heap (if meth = ''Ok'' then commonjs_Ok v else commonjs_Err v))
      else f_result F c meth v)"

definition call_selector :: "foreign_code \<Rightarrow> string \<Rightarrow> code \<Rightarrow> (script_world, addr) action" where
  "call_selector F n c =
     (if c = Declared ''./selector.js'' n then on_page commonjs_new_Selector else f_selector F c)"

definition call_sortBy :: "foreign_code \<Rightarrow> code \<Rightarrow> Broker_Types.ProtocolLabel \<Rightarrow> Broker_Types.ProtocolLabel \<Rightarrow> int" where
  "call_sortBy F c =
     (if c = Declared ''./util.js'' ''sortBy'' then commonjs_sortBy [Broker_Types.ProtocolLabel.name, Broker_Types.ProtocolLabel.value']
      else f_compare F c)"

text \<open>A stage and the stream it is put behind.\<close>

definition pipe_split :: "foreign_code \<Rightarrow> code \<Rightarrow> js_string stream \<Rightarrow> js_string stream" where
  "pipe_split F c st =
     (if c = Declared ''./streams.js'' ''splitStream'' then pipeThrough st (commonjs_splitStream newline)
      else f_split F c newline st)"

definition pipe_parse :: "foreign_code \<Rightarrow> code \<Rightarrow> js_string stream \<Rightarrow> jsval stream" where
  "pipe_parse F c st =
     (if c = Declared ''./streams.js'' ''parseJSONStream'' then pipeThrough st commonjs_parseJSONStream
      else f_parse F c st)"

definition pipe_unwrap :: "foreign_code \<Rightarrow> code \<Rightarrow> jsval stream \<Rightarrow> jsval stream" where
  "pipe_unwrap F c st =
     (if c = Declared ''./streams.js'' ''unwrapResult'' then pipeThrough st commonjs_unwrapResult
      else f_unwrap F c st)"

definition pipe_decode :: "foreign_code \<Rightarrow> code \<Rightarrow> jsval stream \<Rightarrow> js_string stream" where
  "pipe_decode F c st =
     (if c = Declared ''./streams.js'' ''decodeContent'' then pipeThrough st commonjs_decodeContent
      else f_decode F c st)"

section \<open>util.js and selector.js\<close>

text \<open>The calls of \<open>Result\<close> stand in the \<open>try\<close> block and in the \<open>catch\<close> block.\<close>

definition settle_with :: "foreign_code \<Rightarrow> string \<Rightarrow> pval \<Rightarrow> (script_world, addr) action" where
  "settle_with F meth v = bindA (imported ''./result.js'' ''Result'') (\<lambda>c. call_Result F c meth v)"

definition script_doFetch ::
  "foreign_code \<Rightarrow> script_world others \<Rightarrow> network \<Rightarrow> js_string \<Rightarrow> js_string \<Rightarrow> jsval \<Rightarrow>
     (script_world, addr) async" where
  "script_doFetch F others net url token body_data w =
     (case fetch net (authorized_request url token body_data) (page w) of
        (Pending, v) \<Rightarrow> (Pending, w\<lparr>page := v\<rparr>)
      | (Fulfilled r, v) \<Rightarrow>
          runP (catchA
            (if response_ok r then settle_with F ''Ok'' (PResponse r) else settle_with F ''Err'' (PResponse r))
            (\<lambda>e. settle_with F ''Err'' (PThrown e))) returnP (others {} (w\<lparr>page := v\<rparr>))
      | (Rejected e, v) \<Rightarrow> runP (settle_with F ''Err'' (PThrown e)) returnP (others {} (w\<lparr>page := v\<rparr>)))"

definition call_doFetch where
  "call_doFetch F others net c url token body_data =
     (if c = Declared ''./util.js'' ''doFetch'' then script_doFetch F others net url token body_data
      else f_fetch F c url token body_data)"

definition script_fromResponse :: "script_world others \<Rightarrow> pval \<Rightarrow> (script_world, addr) async" where
  "script_fromResponse others response_arg =
     awaitP (others {}) (json_method response_arg) (\<lambda>body_data.
     runP (completeA (js_get body_data (js ''code''))) (\<lambda>status_code.
     runP (on_page (on_heap (commonjs_ResponseError (json_field body_data) (Some response_arg)
       (json_field status_code)))) returnP))"

definition script_fromStreamResponse :: "script_world others \<Rightarrow> pval \<Rightarrow> (script_world, addr) async" where
  "script_fromStreamResponse others response_arg =
     awaitP (others {}) (json_method response_arg) (\<lambda>body_data.
     runP (completeA (js_get body_data (js ''error''))) (\<lambda>err.
     runP (completeA (js_get err (js ''httpStatus''))) (\<lambda>status_code.
     runP (on_page (on_heap (commonjs_ResponseError (json_field err) (Some response_arg)
       (json_field status_code)))) returnP)))"

definition call_ResponseError where
  "call_ResponseError F others c meth v =
     (if c = Declared ''./util.js'' ''ResponseError'' then
        (if meth = ''fromResponse'' then script_fromResponse others v else script_fromStreamResponse others v)
      else f_error F c meth v)"

text \<open>\<open>this.labels.slice(0).sort(...)\<close>: the copy is made before the comparison is.\<close>

definition copy_labels :: "addr \<Rightarrow> (published_world, nat) action" where
  "copy_labels this =
     bindA (labels_field this) (\<lambda>a w. (Inr (length (arrays w)), w\<lparr>arrays := arrays w @ [arrays w ! a]\<rparr>))"

definition sort_labels ::
  "(Broker_Types.ProtocolLabel \<Rightarrow> Broker_Types.ProtocolLabel \<Rightarrow> int) \<Rightarrow> nat \<Rightarrow> (published_world, Broker_Types.ProtocolLabelSet) action" where
  "sort_labels cmp a w =
     (let w' = w\<lparr>arrays := (arrays w)[a := js_sort cmp (arrays w ! a)]\<rparr>
      in (Inr \<lparr>Broker_Types.ProtocolLabelSet.labels = Some (arrays w' ! a)\<rparr>, w'))"

definition script_toLabelSet :: "foreign_code \<Rightarrow> addr \<Rightarrow> (script_world, Broker_Types.ProtocolLabelSet) action" where
  "script_toLabelSet F this =
     bindA (on_page (copy_labels this)) (\<lambda>copy.
     bindA (imported ''./util.js'' ''sortBy'') (\<lambda>c.
     on_page (sort_labels (call_sortBy F c) copy)))"

section \<open>journal_client.js and shard_client.js\<close>

definition script_default :: "foreign_code \<Rightarrow> string \<Rightarrow> addr option \<Rightarrow> (script_world, addr) action" where
  "script_default F n arg =
     (case arg of
        None \<Rightarrow> bindA (imported ''./selector.js'' n) (call_selector F n)
      | Some a \<Rightarrow> returnA a)"

text \<open>
  A method is looked up before its arguments are computed, so \<open>Result\<close> and \<open>ResponseError\<close> are read
  before the error is unwrapped, and \<open>Result\<close> before the wait for it.
\<close>

definition script_answer ::
  "foreign_code \<Rightarrow> script_world others \<Rightarrow> (jsval \<Rightarrow> 'a completion) \<Rightarrow> ('a \<Rightarrow> pval) \<Rightarrow> addr \<Rightarrow>
     (script_world, addr) async" where
  "script_answer F others view wrap result =
     runP (on_page (on_heap (commonjs_ok pval_truthy result))) (\<lambda>okay.
       if okay then
         runP (on_page (on_heap (commonjs_unwrap pval_truthy print_object result))) (\<lambda>r.
         awaitP (others {}) (json_method r) (\<lambda>data.
         runP (imported ''./result.js'' ''Result'') (\<lambda>c.
         runP (completeA (view data)) (\<lambda>x.
         runP (call_Result F c ''Ok'' (wrap x)) returnP))))
       else
         runP (imported ''./result.js'' ''Result'') (\<lambda>c.
         runP (imported ''./util.js'' ''ResponseError'') (\<lambda>d.
         runP (on_page (on_heap (commonjs_unwrap_err pval_truthy print_object result))) (\<lambda>e.
         await_objectP others (call_ResponseError F others d ''fromResponse'' e) (\<lambda>err.
         runP (call_Result F c ''Err'' (PRef err)) returnP)))))"

definition script_list_call where
  "script_list_call selector_class method_path view F others net this included excluded =
     runP (script_default F selector_class included) (\<lambda>inc.
     runP (script_default F selector_class excluded) (\<lambda>exc.
     runP (on_page (base_field this)) (\<lambda>base.
     runP (script_toLabelSet F inc) (\<lambda>incs.
     runP (script_toLabelSet F exc) (\<lambda>excs.
     runP (imported ''./util.js'' ''doFetch'') (\<lambda>c.
     runP (on_page (token_field this)) (\<lambda>token.
     awaitP (others {}) (call_doFetch F others net c (base @ method_path) token
       (JObj [(js ''selector'', JObj [(js ''include'', Broker_Types.json_of_ProtocolLabelSet incs),
                                      (js ''exclude'', Broker_Types.json_of_ProtocolLabelSet excs)])]))
       (script_answer F others view PItems))))))))"

definition script_JournalClient_list where
  "script_JournalClient_list = script_list_call ''JournalSelector'' (js ''v1/journals/list'') (\<lambda>data.
     bindC (js_get data (js ''journals'')) (array_map (\<lambda>j. js_get j (js ''spec''))))"

definition script_ShardClient_list where
  "script_ShardClient_list = script_list_call ''ShardSelector'' (js ''v1/shards/list'') (\<lambda>data.
     bindC (js_get data (js ''shards'')) (array_map (\<lambda>s. bindC (js_get s (js ''spec'')) (\<lambda>sp.
       bindC (js_get s (js ''status'')) (\<lambda>st.
         Inr (JObj [(js ''spec'', sp), (js ''status'', st)]))))))"

definition script_ShardClient_stat where
  "script_ShardClient_stat F others net this shardId offsets =
     runP (on_page (base_field this)) (\<lambda>base.
     runP (imported ''./util.js'' ''doFetch'') (\<lambda>c.
     runP (on_page (token_field this)) (\<lambda>token.
     awaitP (others {}) (call_doFetch F others net c (base @ js ''v1/shards/stat'') token
       (JObj [(js ''shard'', JStr shardId), (js ''readThrough'', json_string_map offsets)]))
       (script_answer F others Inr PJson))))"

definition script_read_answer ::
  "foreign_code \<Rightarrow> script_world others \<Rightarrow> addr \<Rightarrow> (script_world, addr) async" where
  "script_read_answer F others result =
     runP (on_page (on_heap (commonjs_ok pval_truthy result))) (\<lambda>okay.
       if okay then
         runP (on_page (on_heap (commonjs_unwrap pval_truthy print_object result))) (\<lambda>r.
           case r of
             PResponse resp \<Rightarrow>
               (case response_body resp of
                  None \<Rightarrow> runP (throwA TypeError) returnP
                | Some st \<Rightarrow>
                    runP (imported ''./streams.js'' ''splitStream'') (\<lambda>sp.
                    runP (imported ''./streams.js'' ''parseJSONStream'') (\<lambda>pj.
                    runP (imported ''./streams.js'' ''unwrapResult'') (\<lambda>ur.
                    runP (imported ''./result.js'' ''Result'') (\<lambda>c.
                      let reader = pipe_unwrap F ur (pipe_parse F pj (pipe_split F sp
                        (pipeThrough st text_decoder_stream)))
                      in runP (call_Result F c ''Ok'' (PStream reader)) returnP)))))
           | _ \<Rightarrow> runP (throwA TypeError) returnP)
       else
         runP (imported ''./result.js'' ''Result'') (\<lambda>c.
         runP (imported ''./util.js'' ''ResponseError'') (\<lambda>d.
         runP (on_page (on_heap (commonjs_unwrap_err pval_truthy print_object result))) (\<lambda>e.
         await_objectP others (call_ResponseError F others d ''fromStreamResponse'' e) (\<lambda>err.
         runP (call_Result F c ''Err'' (PRef err)) returnP)))))"

definition script_JournalClient_read where
  "script_JournalClient_read F others net this req =
     runP (on_page (base_field this)) (\<lambda>base.
     runP (imported ''./util.js'' ''doFetch'') (\<lambda>c.
     runP (on_page (token_field this)) (\<lambda>token.
     awaitP (others {}) (call_doFetch F others net c (base @ js ''v1/journals/read'') token
       (json_of_ProtocolReadRequest req)) (script_read_answer F others))))"

definition script_parseJournalDocuments :: "foreign_code \<Rightarrow> jsval stream \<Rightarrow> (script_world, jsval stream) action" where
  "script_parseJournalDocuments F st =
     bindA (imported ''./streams.js'' ''decodeContent'') (\<lambda>dc.
     bindA (imported ''./streams.js'' ''splitStream'') (\<lambda>sp.
     bindA (imported ''./streams.js'' ''parseJSONStream'') (\<lambda>pj.
       returnA (pipe_parse F pj (pipe_split F sp (pipe_decode F dc st))))))"

section \<open>They mimic the functions of the ES modules\<close>

text \<open>The imports the files use, and exports objects that hold them.\<close>

definition imports_used :: "(path \<times> string) list" where
  "imports_used =
     [(''./result.js'', ''Result''), (''./util.js'', ''doFetch''), (''./util.js'', ''ResponseError''),
      (''./util.js'', ''sortBy''), (''./selector.js'', ''JournalSelector''), (''./selector.js'', ''ShardSelector''),
      (''./streams.js'', ''splitStream''), (''./streams.js'', ''parseJSONStream''),
      (''./streams.js'', ''unwrapResult''), (''./streams.js'', ''decodeContent'')]"

definition linked :: "loader \<Rightarrow> bool" where
  "linked l \<longleftrightarrow> (\<forall>(p, n) \<in> set imports_used.
     js_field (exports_heap l) (exports_object l p) n = Some (Declared p n))"

text \<open>Other code does to the page what \<open>others'\<close> does, and leaves the used exports as they are.\<close>

definition leaves_imports :: "script_world others \<Rightarrow> published_world others \<Rightarrow> bool" where
  "leaves_imports others others' \<longleftrightarrow>
     (\<forall>K w. linked (modules w) \<longrightarrow> page (others K w) = others' K (page w) \<and> linked (modules (others K w)))"

definition mimics :: "(script_world \<Rightarrow> 'r \<times> script_world) \<Rightarrow> (published_world \<Rightarrow> 'r \<times> published_world) \<Rightarrow> bool" where
  "mimics m m' \<longleftrightarrow> (\<forall>w. linked (modules w) \<longrightarrow>
     fst (m w) = fst (m' (page w)) \<and> page (snd (m w)) = snd (m' (page w)) \<and> linked (modules (snd (m w))))"

named_theorems mimics_intros \<open>one rule for each construct of the code\<close>

lemma mimics_on_page [mimics_intros]: "mimics (on_page m) m"
  by (simp add: mimics_def on_page_def split: prod.split)

lemma mimics_return [mimics_intros]: "mimics (returnP x) (returnP x)"
  by (simp add: mimics_def returnP_def)

lemma mimics_returnA [mimics_intros]: "mimics (returnA x) (returnA x)"
  by (simp add: mimics_def returnA_def)

lemma mimics_throw [mimics_intros]: "mimics (throwA e) (throwA e)"
  by (simp add: mimics_def throwA_def)

lemma mimics_complete [mimics_intros]: "mimics (completeA c) (completeA c)"
  by (simp add: mimics_def completeA_def)

lemma mimics_json [mimics_intros]: "mimics (json_method v) (json_method v)"
  by (simp add: mimics_def json_method_def split: pval.split)

lemma mimicsE:
  assumes "mimics m m'" and "linked (modules w)"
  obtains r w' where "m w = (r, w')" and "m' (page w) = (r, page w')" and "linked (modules w')"
  using assms unfolding mimics_def by (metis prod.collapse)

lemma mimics_run [mimics_intros]:
  assumes "mimics m m'" and "\<And>x. mimics (f x) (f' x)"
  shows "mimics (runP m f) (runP m' f')"
  unfolding mimics_def
proof (intro allI impI)
  fix w :: script_world assume l: "linked (modules w)"
  obtain r w' where "m w = (r, w')" "m' (page w) = (r, page w')" "linked (modules w')"
    by (rule mimicsE [OF assms(1) l])
  then show "fst (runP m f w) = fst (runP m' f' (page w)) \<and> page (snd (runP m f w)) = snd (runP m' f' (page w))
      \<and> linked (modules (snd (runP m f w)))"
    using assms(2) by (cases r) (auto simp: runP_def mimics_def)
qed

lemma mimics_bind [mimics_intros]:
  assumes "mimics m m'" and "\<And>x. mimics (f x) (f' x)"
  shows "mimics (bindA m f) (bindA m' f')"
  unfolding mimics_def
proof (intro allI impI)
  fix w :: script_world assume l: "linked (modules w)"
  obtain r w' where "m w = (r, w')" "m' (page w) = (r, page w')" "linked (modules w')"
    by (rule mimicsE [OF assms(1) l])
  then show "fst (bindA m f w) = fst (bindA m' f' (page w)) \<and> page (snd (bindA m f w)) = snd (bindA m' f' (page w))
      \<and> linked (modules (snd (bindA m f w)))"
    using assms(2) by (cases r) (auto simp: bindA_def mimics_def)
qed

lemma mimics_await:
  assumes "leaves_imports others others'" and "mimics m m'" and "\<And>x. mimics (f x) (f' x)"
  shows "mimics (awaitP (others K) m f) (awaitP (others' K) m' f')"
  unfolding mimics_def
proof (intro allI impI)
  fix w :: script_world assume l: "linked (modules w)"
  obtain r w' where "m w = (r, w')" "m' (page w) = (r, page w')" "linked (modules w')"
    by (rule mimicsE [OF assms(2) l])
  then show "fst (awaitP (others K) m f w) = fst (awaitP (others' K) m' f' (page w))
      \<and> page (snd (awaitP (others K) m f w)) = snd (awaitP (others' K) m' f' (page w))
      \<and> linked (modules (snd (awaitP (others K) m f w)))"
    using assms(1,3) by (cases r) (auto simp: awaitP_def mimics_def leaves_imports_def)
qed

lemma mimics_await_object:
  assumes "leaves_imports others others'" and "mimics m m'" and "\<And>x. mimics (f x) (f' x)"
  shows "mimics (await_objectP others m f) (await_objectP others' m' f')"
  unfolding mimics_def
proof (intro allI impI)
  fix w :: script_world assume l: "linked (modules w)"
  obtain r w' where "m w = (r, w')" "m' (page w) = (r, page w')" "linked (modules w')"
    by (rule mimicsE [OF assms(2) l])
  then show "fst (await_objectP others m f w) = fst (await_objectP others' m' f' (page w))
      \<and> page (snd (await_objectP others m f w)) = snd (await_objectP others' m' f' (page w))
      \<and> linked (modules (snd (await_objectP others m f w)))"
    using assms(1,3) by (cases r) (auto simp: await_objectP_def mimics_def leaves_imports_def)
qed

lemma mimics_if [mimics_intros]:
  "mimics a a' \<Longrightarrow> mimics b b' \<Longrightarrow> mimics (if c then a else b) (if c then a' else b')"
  by simp

text \<open>An import is what its module declares.\<close>

lemma imported_linked:
  "linked (modules w) \<Longrightarrow> (p, n) \<in> set imports_used \<Longrightarrow> imported p n w = (Inr (Declared p n), w)"
  by (auto simp: linked_def imported_def)

lemma mimics_run_imported [mimics_intros]:
  "(p, n) \<in> set imports_used \<Longrightarrow> mimics (f (Declared p n)) m' \<Longrightarrow> mimics (runP (imported p n) f) m'"
  by (simp add: mimics_def runP_def imported_linked)

lemma mimics_bind_imported [mimics_intros]:
  "(p, n) \<in> set imports_used \<Longrightarrow> mimics (f (Declared p n)) m' \<Longrightarrow> mimics (bindA (imported p n) f) m'"
  by (simp add: mimics_def bindA_def imported_linked)

lemmas imports_used_simps = imports_used_def

lemma mimics_run_Result [mimics_intros]:
  "mimics (call_Result F (Declared ''./result.js'' ''Result'') meth v)
       (on_heap (if meth = ''Ok'' then published_Ok v else published_Err v))"
  by (simp add: call_Result_def commonjs_same mimics_on_page)

lemma mimics_settle_with:
  "mimics (settle_with F meth v) (on_heap (if meth = ''Ok'' then published_Ok v else published_Err v))"
  unfolding settle_with_def by (intro mimics_intros) (simp_all add: imports_used_def call_Result_def commonjs_same mimics_on_page)

text \<open>\<open>Result.Ok\<close> never throws, so the \<open>catch\<close> block is for \<open>fetch\<close>.\<close>

lemma catch_settle:
  assumes "linked (modules w)"
  shows "catchA (settle_with F meth v) handler w = settle_with F meth v w"
  using assms
  by (simp add: catchA_def settle_with_def bindA_def imported_linked imports_used_def call_Result_def commonjs_same on_page_def
      on_heap_def published_Ok_object published_Err_object split: prod.split)

lemma mimics_doFetch:
  assumes "leaves_imports others others'"
  shows "mimics (script_doFetch F others net url token data) (published_doFetch others' net url token data)"
  unfolding mimics_def
proof (intro allI impI)
  fix w :: script_world assume l: "linked (modules w)"
  let ?w = "w\<lparr>page := snd (fetch net (authorized_request url token data) (page w))\<rparr>"
  have w': "page (others {} ?w) = others' {} (page ?w)" "linked (modules (others {} ?w))"
    using assms l by (simp_all add: leaves_imports_def)
  have settle: "fst (runP m returnP (others {} ?w)) = fst (runP m' returnP (others' {} (page ?w)))
      \<and> page (snd (runP m returnP (others {} ?w))) = snd (runP m' returnP (others' {} (page ?w)))
      \<and> linked (modules (snd (runP m returnP (others {} ?w))))" if "mimics m m'" for m and m' :: "(published_world, addr) action"
    using mimics_run [OF that, of returnP returnP, OF mimics_return] w' by (simp add: mimics_def)
  show "fst (script_doFetch F others net url token data w) = fst (published_doFetch others' net url token data (page w))
      \<and> page (snd (script_doFetch F others net url token data w)) = snd (published_doFetch others' net url token data (page w))
      \<and> linked (modules (snd (script_doFetch F others net url token data w)))"
    using settle [OF mimics_settle_with [of F "''Ok''"]] settle [OF mimics_settle_with [of F "''Err''"]] w' l
    by (cases "fetch net (authorized_request url token data) (page w)"; cases "fst (fetch net (authorized_request url token data) (page w))")
      (auto simp: script_doFetch_def published_doFetch_def runP_def catch_settle)
qed

lemma mimics_errors:
  assumes "leaves_imports others others'"
  shows "mimics (script_fromResponse others v) (published_fromResponse others' v)"
    and "mimics (script_fromStreamResponse others v) (published_fromStreamResponse others' v)"
  unfolding commonjs_same script_fromResponse_def published_fromResponse_def script_fromStreamResponse_def
    published_fromStreamResponse_def
  by (intro mimics_await [OF assms] mimics_await_object [OF assms] mimics_intros)+

lemma toLabelSet_steps:
  "published_toLabelSet this =
     bindA (copy_labels this) (sort_labels (published_sortBy [Broker_Types.ProtocolLabel.name, Broker_Types.ProtocolLabel.value']))"
  by (auto simp: published_toLabelSet_def copy_labels_def sort_labels_def bindA_def fun_eq_iff Let_def
      split: prod.split sum.split)

lemma mimics_toLabelSet [mimics_intros]: "mimics (script_toLabelSet F this) (published_toLabelSet this)"
  unfolding script_toLabelSet_def toLabelSet_steps
  by (intro mimics_intros) (simp_all add: imports_used_def call_sortBy_def commonjs_same mimics_on_page)

lemma mimics_default:
  "(''./selector.js'', n) \<in> set imports_used \<Longrightarrow> mimics (script_default F n arg) (default_argument arg)"
  by (cases arg) (auto simp: script_default_def default_argument_def call_selector_def commonjs_same
      intro!: mimics_bind_imported mimics_on_page mimics_returnA)

lemma mimics_answer:
  assumes "leaves_imports others others'"
  shows "mimics (script_answer F others view wrap a) (published_answer others' view wrap a)"
  unfolding commonjs_same script_answer_def published_answer_def
  by (intro mimics_await [OF assms] mimics_await_object [OF assms] mimics_intros)
    (simp_all add: imports_used_def call_Result_def commonjs_same call_ResponseError_def mimics_on_page mimics_errors [OF assms])

lemma mimics_fetch:
  assumes "leaves_imports others others'"
  shows "mimics (call_doFetch F others net (Declared ''./util.js'' ''doFetch'') url token data)
    (published_doFetch others' net url token data)"
  using mimics_doFetch [OF assms] by (simp add: call_doFetch_def)

lemma mimics_list_call:
  assumes "leaves_imports others others'" and "(''./selector.js'', n) \<in> set imports_used"
  shows "mimics (script_list_call n route' view F others net this inc exc)
    (published_list_call route' view others' net this inc exc)"
  unfolding script_list_call_def published_list_call_def
  by (intro mimics_await [OF assms(1)] mimics_fetch [OF assms(1)] mimics_answer [OF assms(1)]
      mimics_default [OF assms(2)] mimics_intros) (simp add: imports_used_def)

lemma mimics_read_body:
  "mimics (runP (imported ''./streams.js'' ''splitStream'') (\<lambda>sp.
       runP (imported ''./streams.js'' ''parseJSONStream'') (\<lambda>pj.
       runP (imported ''./streams.js'' ''unwrapResult'') (\<lambda>ur.
       runP (imported ''./result.js'' ''Result'') (\<lambda>c.
         let reader = pipe_unwrap F ur (pipe_parse F pj (pipe_split F sp (pipeThrough st text_decoder_stream)))
         in runP (call_Result F c ''Ok'' (PStream reader)) returnP)))))
     (let reader = pipeThrough (pipeThrough (pipeThrough (pipeThrough st text_decoder_stream)
         (published_splitStream newline)) published_parseJSONStream) published_unwrapResult
      in runP (on_heap (published_Ok (PStream reader))) returnP)"
  unfolding Let_def
  by (intro mimics_run_imported mimics_run mimics_return)
    (simp_all add: imports_used_def call_Result_def commonjs_same mimics_on_page commonjs_same pipe_split_def pipe_parse_def pipe_unwrap_def)

lemma mimics_read_answer:
  assumes "leaves_imports others others'"
  shows "mimics (script_read_answer F others a) (published_read_answer others' a)"
  unfolding commonjs_same script_read_answer_def published_read_answer_def
proof (intro mimics_run mimics_if mimics_on_page)
  fix r show "mimics
     (case r of PResponse resp \<Rightarrow>
         (case response_body resp of
            None \<Rightarrow> runP (throwA TypeError) returnP
          | Some st \<Rightarrow>
              runP (imported ''./streams.js'' ''splitStream'') (\<lambda>sp.
              runP (imported ''./streams.js'' ''parseJSONStream'') (\<lambda>pj.
              runP (imported ''./streams.js'' ''unwrapResult'') (\<lambda>ur.
              runP (imported ''./result.js'' ''Result'') (\<lambda>c.
                let reader = pipe_unwrap F ur (pipe_parse F pj (pipe_split F sp (pipeThrough st text_decoder_stream)))
                in runP (call_Result F c ''Ok'' (PStream reader)) returnP)))))
      | _ \<Rightarrow> runP (throwA TypeError) returnP)
     (case r of PResponse resp \<Rightarrow>
         (case response_body resp of
            None \<Rightarrow> runP (throwA TypeError) returnP
          | Some body \<Rightarrow>
              (let reader = pipeThrough (pipeThrough (pipeThrough (pipeThrough body text_decoder_stream)
                   (published_splitStream newline)) published_parseJSONStream) published_unwrapResult
               in runP (on_heap (published_Ok (PStream reader))) returnP))
      | _ \<Rightarrow> runP (throwA TypeError) returnP)"
    by (auto split: pval.split option.split intro: mimics_run mimics_throw mimics_return
        mimics_read_body [unfolded Let_def])
next
  show "mimics
     (runP (imported ''./result.js'' ''Result'') (\<lambda>c.
      runP (imported ''./util.js'' ''ResponseError'') (\<lambda>d.
      runP (on_page (on_heap (published_unwrap_err pval_truthy print_object a))) (\<lambda>e.
      await_objectP others (call_ResponseError F others d ''fromStreamResponse'' e) (\<lambda>err.
      runP (call_Result F c ''Err'' (PRef err)) returnP)))))
     (runP (on_heap (published_unwrap_err pval_truthy print_object a)) (\<lambda>e.
      await_objectP others' (published_fromStreamResponse others' e) (\<lambda>err.
      runP (on_heap (published_Err (PRef err))) returnP)))"
    by (intro mimics_await [OF assms] mimics_await_object [OF assms] mimics_intros)
      (simp_all add: imports_used_def call_Result_def commonjs_same call_ResponseError_def mimics_on_page mimics_errors [OF assms])
qed

text \<open>The calls, and \<open>parseJournalDocuments\<close>.\<close>

lemma script_clients_mimic:
  assumes "leaves_imports others others'"
  shows "mimics (script_JournalClient_list F others net this inc exc) (published_JournalClient_list others' net this inc exc)"
    and "mimics (script_JournalClient_read F others net this req) (published_JournalClient_read others' net this req)"
    and "mimics (script_ShardClient_list F others net this inc exc) (published_ShardClient_list others' net this inc exc)"
    and "mimics (script_ShardClient_stat F others net this sid offsets) (published_ShardClient_stat others' net this sid offsets)"
proof -
  show "mimics (script_JournalClient_list F others net this inc exc) (published_JournalClient_list others' net this inc exc)"
    and "mimics (script_ShardClient_list F others net this inc exc) (published_ShardClient_list others' net this inc exc)"
    unfolding script_JournalClient_list_def published_JournalClient_list_def script_ShardClient_list_def
      published_ShardClient_list_def
    by (rule mimics_list_call [OF assms], simp add: imports_used_def)+
  show "mimics (script_JournalClient_read F others net this req) (published_JournalClient_read others' net this req)"
    and "mimics (script_ShardClient_stat F others net this sid offsets) (published_ShardClient_stat others' net this sid offsets)"
    unfolding script_JournalClient_read_def published_JournalClient_read_def script_ShardClient_stat_def
      published_ShardClient_stat_def
    by (intro mimics_await [OF assms] mimics_fetch [OF assms] mimics_answer [OF assms]
        mimics_read_answer [OF assms] mimics_intros, simp add: imports_used_def)+
qed

lemma script_parseJournalDocuments_same:
  "linked (modules w) \<Longrightarrow>
     script_parseJournalDocuments F st w = (Inr (published_parseJournalDocuments st), w)"
  by (simp add: script_parseJournalDocuments_def bindA_def returnA_def imported_linked imports_used_def
      pipe_decode_def commonjs_same pipe_split_def pipe_parse_def published_parseJournalDocuments_def)

section \<open>Programs that load the package\<close>

text \<open>The modules that the entry point of the package requires, and the imports of those.\<close>

fun statement_paths :: "statement \<Rightarrow> path list" where
  "statement_paths (Assign_star n p) = [p]"
| "statement_paths (Define_getter n p k) = [p]"
| "statement_paths _ = []"

definition index_paths :: "path list" where
  "index_paths = remdups (concat (map statement_paths script_index))"

lemma index_star: "p \<in> set star_paths \<Longrightarrow> p \<in> set index_paths"
  by (auto simp: star_paths_simps index_paths_def script_index_def)

lemma named_exports_check:
  "list_all (\<lambda>decl. case decl of Star_as n p \<Rightarrow> True
     | Named ns p \<Rightarrow> List.member index_paths p \<and> list_all (\<lambda>n. n \<noteq> ''__esModule'' \<and> List.member (names_of p) n \<and>
         map_of (module_exports esm_index :: code option exports) n = Some (Live p n)) ns) esm_index"
  by code_simp

lemma named_exports:
  assumes "Named ns p \<in> set esm_index" and "n \<in> set ns"
  shows "map_of (module_exports esm_index :: code option exports) n = Some (Live p n)"
    and "p \<in> set index_paths" and "n \<in> set (names_of p)" and "n \<noteq> ''__esModule''"
  using named_exports_check assms by (auto simp: list_all_iff dest!: bspec)

lemma imports_used_check:
  "list_all (\<lambda>(p, n). List.member (names_of p) n \<and> n \<noteq> ''__esModule'' \<and>
      (List.member index_paths p \<or> list_ex (\<lambda>q. List.member (requires_of q) p) index_paths)) imports_used"
  by code_simp

lemma required_evaluated:
  "evaluated_in_order seen ps \<Longrightarrow> q \<in> set ps \<Longrightarrow> p \<in> set (requires_of q) \<Longrightarrow> p \<in> seen \<union> set ps"
  by (induction ps arbitrary: seen) auto

lemma loaded_linked:
  assumes "good {} s" and "set index_paths \<subseteq> fst ` set (cache s)"
  shows "linked s"
  unfolding linked_def
proof (clarify)
  fix p n assume pn: "(p, n) \<in> set imports_used"
  have evaluated: "set (evaluated s) = fst ` set (cache s)" "evaluated_in_order {} (evaluated s)"
    using assms(1) by (simp_all add: good_def)
  have n: "n \<in> set (names_of p)" "n \<noteq> ''__esModule''"
    and p: "p \<in> set index_paths \<or> (\<exists>q \<in> set index_paths. p \<in> set (requires_of q))"
    using imports_used_check pn by (auto simp: list_all_iff list_ex_iff)
  have "p \<in> fst ` set (cache s)"
    using p assms(2) required_evaluated [OF evaluated(2)] evaluated(1) by blast
  with n show "js_field (exports_heap s) (exports_object s p) n = Some (Declared p n)"
    using exports_when_loaded(3) [OF assms(1)] by simp
qed

text \<open>A program that puts a function of its own in the place of an export.\<close>

definition replace_export :: "path \<Rightarrow> string \<Rightarrow> code \<Rightarrow> (script_world, unit) action" where
  "replace_export p n c w =
     (case js_assign (exports_object (modules w) p) n (Some c) (exports_heap (modules w)) of
        (r, h) \<Rightarrow> (r, w\<lparr>modules := (modules w)\<lparr>exports_heap := h\<rparr>\<rparr>))"

lemma own_put_other: "m \<noteq> n \<Longrightarrow> own_property (put_property a n p h) b m = own_property h b m"
  by (cases "b = a"; cases "a < length h") (simp_all add: own_property_def put_property_def update_conv' list_update_beyond)

lemma replaced_export:
  assumes "good {} (modules w)" and "p \<in> fst ` set (cache (modules w))" and "n \<in> set (names_of p)"
    and "n \<noteq> ''__esModule''"
  shows "\<exists>w'. replace_export p n c w = (Inr (), w') \<and> page w' = page w \<and> imported p n w' = (Inr c, w')
    \<and> (\<forall>q m x. m \<noteq> n \<and> imported q m w = (Inr x, w) \<longrightarrow> imported q m w' = (Inr x, w'))"
proof -
  let ?a = "exports_object (modules w) p"
  have "(p, ?a) \<in> set (cache (modules w))"
    using exports_when_loaded(1) [OF assms(1,2)] by (rule map_of_SomeD)
  then have a: "?a < length (exports_heap (modules w))"
    by (rule good_cached(1) [OF assms(1)])
  have "own_property (exports_heap (modules w)) ?a n = Some (export_property p n)"
    using exports_when_loaded(2) [OF assms(1,2)] assms(3,4) by simp
  with a show ?thesis
    using own_put [OF a, of n]
    by (auto simp: own_put_other replace_export_def js_assign_def export_property_def imported_def js_field_def
        exports_object_def split: option.splits)
qed

text \<open>What the arguments of the calls are computed with is still what the modules declare.\<close>

definition imports_for_arguments :: "script_world \<Rightarrow> bool" where
  "imports_for_arguments w \<longleftrightarrow> (\<forall>(p, n) \<in> {(''./util.js'', ''sortBy''), (''./selector.js'', ''JournalSelector''),
     (''./selector.js'', ''ShardSelector'')}. imported p n w = (Inr (Declared p n), w))"

lemma imported_page: "imported p n w = (Inr c, w) \<Longrightarrow> imported p n (w\<lparr>page := v\<rparr>) = (Inr c, w\<lparr>page := v\<rparr>)"
  by (auto simp: imported_def split: option.splits)

lemma script_default_page:
  assumes "imported ''./selector.js'' n w = (Inr (Declared ''./selector.js'' n), w)"
  shows "script_default F n arg w = on_page (default_argument arg) w"
  using assms by (cases arg) (simp_all add: script_default_def default_argument_def bindA_def call_selector_def
      commonjs_same on_page_def returnA_def)

lemma script_toLabelSet_page:
  assumes "imported ''./util.js'' ''sortBy'' w = (Inr (Declared ''./util.js'' ''sortBy''), w)"
  shows "script_toLabelSet F this w = on_page (published_toLabelSet this) w"
  using imported_page [OF assms]
  by (auto simp: script_toLabelSet_def toLabelSet_steps bindA_def on_page_def call_sortBy_def commonjs_same
      split: prod.split sum.split)

lemma replaced_list:
  assumes fetch: "imported ''./util.js'' ''doFetch'' w = (Inr (Replacement k), w)" and used: "imports_for_arguments w"
    and n: "n = ''JournalSelector'' \<or> n = ''ShardSelector''"
    and call: "client_at (page w) this u token" "argument_at (page w) inc isel" "argument_at (page w) exc esel"
      "valid_arguments isel esel (source_world (page w))"
  shows "\<exists>v. fetched v = fetched (page w) \<and> script_list_call n route' view F others net this inc exc w =
      awaitP (others {}) (f_fetch F (Replacement k) (URL_toString u @ route') token
        (selector_body isel esel (source_world (page w)))) (script_answer F others view PItems) (w\<lparr>page := v\<rparr>)"
proof -
  obtain a w1 b w2 w3 w4 where steps: "default_argument inc (page w) = (Inr a, w1)"
      "default_argument exc w1 = (Inr b, w2)" "base_field this w2 = (Inr (URL_toString u), w2)"
      "published_toLabelSet a w2 = (Inr (argument_labels isel (source_world (page w))), w3)"
      "published_toLabelSet b w3 = (Inr (argument_labels esel (source_world (page w))), w4)"
      "token_field this w4 = (Inr token, w4)" and "fetched w4 = fetched (page w)"
    by (rule list_call_evaluated [OF call])
  moreover have sel: "imported ''./selector.js'' n (w\<lparr>page := v\<rparr>) = (Inr (Declared ''./selector.js'' n), w\<lparr>page := v\<rparr>)"
    and sort: "imported ''./util.js'' ''sortBy'' (w\<lparr>page := v\<rparr>) = (Inr (Declared ''./util.js'' ''sortBy''), w\<lparr>page := v\<rparr>)" for v
    using used n by (auto simp: imports_for_arguments_def intro!: imported_page)
  moreover have "imported ''./selector.js'' n w = (Inr (Declared ''./selector.js'' n), w)"
    using used n by (auto simp: imports_for_arguments_def)
  ultimately have "script_list_call n route' view F others net this inc exc w =
      awaitP (others {}) (f_fetch F (Replacement k) (URL_toString u @ route') token
        (selector_body isel esel (source_world (page w)))) (script_answer F others view PItems) (w\<lparr>page := w4\<rparr>)"
    by (simp add: script_list_call_def runP_def script_default_page script_toLabelSet_page on_page_def
        imported_page [OF fetch] call_doFetch_def selector_body_def del: js_Cons)
  with \<open>fetched w4 = fetched (page w)\<close> show ?thesis by blast
qed

lemma replaced_fetch:
  assumes "imported ''./util.js'' ''doFetch'' w = (Inr (Replacement k), w)" and "client_at (page w) this u token"
  shows "script_ShardClient_stat F others net this sid offsets w =
      awaitP (others {}) (f_fetch F (Replacement k) (URL_toString u @ js ''v1/shards/stat'') token
        (JObj [(js ''shard'', JStr sid), (js ''readThrough'', json_string_map offsets)]))
        (script_answer F others Inr PJson) w"
    and "script_JournalClient_read F others net this req w =
      awaitP (others {}) (f_fetch F (Replacement k) (URL_toString u @ js ''v1/journals/read'') token
        (json_of_ProtocolReadRequest req)) (script_read_answer F others) w"
  using base_token [OF assms(2)]
  by (simp_all add: script_ShardClient_stat_def script_JournalClient_read_def runP_def on_page_def assms(1)
      call_doFetch_def del: js_Cons)

lemma replaced_lists:
  assumes "imported ''./util.js'' ''doFetch'' w = (Inr (Replacement k), w)" and "imports_for_arguments w"
    and "client_at (page w) this u token" "argument_at (page w) inc isel" "argument_at (page w) exc esel"
      "valid_arguments isel esel (source_world (page w))"
  shows "\<exists>v. fetched v = fetched (page w) \<and> script_JournalClient_list F others net this inc exc w =
      awaitP (others {}) (f_fetch F (Replacement k) (URL_toString u @ js ''v1/journals/list'') token
        (selector_body isel esel (source_world (page w)))) (script_answer F others journal_specs PItems) (w\<lparr>page := v\<rparr>)"
    and "\<exists>v. fetched v = fetched (page w) \<and> script_ShardClient_list F others net this inc exc w =
      awaitP (others {}) (f_fetch F (Replacement k) (URL_toString u @ js ''v1/shards/list'') token
        (selector_body isel esel (source_world (page w)))) (script_answer F others shard_list PItems) (w\<lparr>page := v\<rparr>)"
  unfolding script_JournalClient_list_def script_ShardClient_list_def journal_specs_def [abs_def, symmetric]
    shard_list_def [abs_def, symmetric]
  using replaced_list [OF assms(1,2) _ assms(3-6)] by blast+

text \<open>A call in a world with modules and one without: the same promise, the same page in the end.\<close>

definition agrees_with where
  "agrees_with w m m' \<longleftrightarrow> fst (m w) = fst (m' (page w)) \<and> page (snd (m w)) = snd (m' (page w))"

lemma mimics_agrees: "mimics m m' \<Longrightarrow> linked (modules w) \<Longrightarrow> agrees_with w m m'"
  by (simp add: mimics_def agrees_with_def)

lemma util_loaded:
  assumes "good {} s" and "set index_paths \<subseteq> fst ` set (cache s)"
  shows "''./util.js'' \<in> fst ` set (cache s)" and "''doFetch'' \<in> set (names_of ''./util.js'')"
    and "''doFetch'' \<noteq> ''__esModule''"
proof -
  have "''./util.js'' \<in> set (requires_of ''./selector.js'')" "''./selector.js'' \<in> set index_paths"
    by (simp_all add: requires_of_def script_modules_def script_module_defs index_paths_def script_index_def)
  with assms show "''./util.js'' \<in> fst ` set (cache s)"
    using required_evaluated [of "{}" "evaluated s" "''./selector.js''" "''./util.js''"] by (auto simp: good_def)
qed (simp_all add: names_of_def script_modules_def script_module_defs)

lemma replaced_doFetch:
  assumes "good {} (modules w)" and "set index_paths \<subseteq> fst ` set (cache (modules w))"
  shows "\<exists>w'. replace_export ''./util.js'' ''doFetch'' (Replacement k) w = (Inr (), w') \<and> page w' = page w
    \<and> imported ''./util.js'' ''doFetch'' w' = (Inr (Replacement k), w') \<and> imports_for_arguments w'"
proof -
  obtain w' where w': "replace_export ''./util.js'' ''doFetch'' (Replacement k) w = (Inr (), w')" "page w' = page w"
      "imported ''./util.js'' ''doFetch'' w' = (Inr (Replacement k), w')"
    and others: "\<And>q m x. m \<noteq> ''doFetch'' \<Longrightarrow> imported q m w = (Inr x, w) \<Longrightarrow> imported q m w' = (Inr x, w')"
    using replaced_export [OF assms(1) util_loaded [OF assms], of "Replacement k"] by blast
  have "imported p n w' = (Inr (Declared p n), w')" if "(p, n) \<in> set imports_used" "n \<noteq> ''doFetch''" for p n
    using others [OF that(2) imported_linked [OF loaded_linked [OF assms] that(1)]] .
  then have "imports_for_arguments w'"
    by (simp add: imports_for_arguments_def imports_used_def)
  with w' show ?thesis by blast
qed

end
