(* ===== verification/Gateway.thy ===== *)
theory Gateway
  imports Main "HOL-Library.Sublist"
begin

text \<open>
  \<open>journal_server.go\<close> and \<open>shard_server.go\<close>: the proxies of the gateway process. gRPC and
  the Gazette client are libraries and parameters here: \<open>calls\<close> groups what the code calls of
  them. A stream is what its operations return in turn; a list that has run out is an operation
  that has not returned yet.
\<close>

section \<open>Errors and streams\<close>

datatype go_error = EOF | Failure string

datatype 'a received = Message 'a | RecvError go_error

text \<open>How a handler stands: waiting in a stream operation, or returned with an error or \<open>nil\<close>.\<close>

datatype handler = Waiting | Returned "go_error option"

section \<open>PassThroughAuthorizer\<close>

record ('ctx, 'md, 'claims) calls =
  FromIncomingContext :: "'ctx \<Rightarrow> 'md"
  md_Get :: "'md \<Rightarrow> string \<Rightarrow> string list"
  AppendToOutgoingContext :: "'ctx \<Rightarrow> string \<Rightarrow> string \<Rightarrow> 'ctx"
  WithDispatchDefault :: "'ctx \<Rightarrow> 'ctx"
  WithClaims :: "'ctx \<Rightarrow> 'claims \<Rightarrow> 'ctx"

definition Authorize :: "('ctx, 'md, 'claims) calls \<Rightarrow> 'ctx \<Rightarrow> go_error + 'ctx" where
  "Authorize lib ctx =
     (let md = FromIncomingContext lib ctx;
          token = md_Get lib md ''authorization'' in
      if length token = 0 then Inl (Failure ''missing required Authorization header'')
      else Inr (AppendToOutgoingContext lib ctx ''authorization'' (token ! 0)))"

section \<open>List and Read\<close>

text \<open>
  The loop both share: receive from the broker, send to the caller. The first list holds what
  \<open>proxy.Recv\<close> returns, the second what \<open>stream.Send\<close> returns (\<open>None\<close> is \<open>nil\<close>), the third
  the messages sent so far.
\<close>

fun proxy_loop :: "'a received list \<Rightarrow> go_error option list \<Rightarrow> 'a list \<Rightarrow> 'a list \<times> handler" where
  "proxy_loop [] sends sent = (sent, Waiting)"
| "proxy_loop (RecvError e # rs) sends sent = (sent, Returned (if e = EOF then None else Some e))"
| "proxy_loop (Message m # rs) [] sent = (sent, Waiting)"
| "proxy_loop (Message m # rs) (Some e # sends) sent = (sent, Returned (Some e))"
| "proxy_loop (Message m # rs) (None # sends) sent = proxy_loop rs sends (sent @ [m])"

definition JournalProxy_List ::
  "('ctx, 'md, 'claims) calls \<Rightarrow> ('ctx \<Rightarrow> 'req \<Rightarrow> go_error + 'a received list) \<Rightarrow> 'req \<Rightarrow> 'ctx \<Rightarrow>
     go_error option list \<Rightarrow> 'a list \<times> handler" where
  "JournalProxy_List lib jc_List req stream_ctx sends =
     (let ctx = WithDispatchDefault lib stream_ctx in
      case jc_List ctx req of
        Inl err \<Rightarrow> ([], Returned (Some err))
      | Inr proxy \<Rightarrow> proxy_loop proxy sends [])"

definition JournalProxy_Read ::
  "('ctx, 'md, 'claims) calls \<Rightarrow> ('ctx \<Rightarrow> 'req \<Rightarrow> go_error + 'a received list) \<Rightarrow> 'req \<Rightarrow> 'ctx \<Rightarrow>
     go_error option list \<Rightarrow> 'a list \<times> handler" where
  "JournalProxy_Read lib jc_Read req stream_ctx sends =
     (let ctx = stream_ctx in
      case jc_Read (WithDispatchDefault lib ctx) req of
        Inl err \<Rightarrow> ([], Returned (Some err))
      | Inr proxy \<Rightarrow> proxy_loop proxy sends [])"

section \<open>Append\<close>

record append_claims =
  claims_capability :: string
  claims_name :: string

text \<open>
  The loop of \<open>Append\<close>: send the request to the broker, receive the next one from the caller,
  leave the loop at the end of the caller's stream. \<open>None\<close> as outcome is the \<open>break\<close>.
\<close>

fun append_loop ::
  "'req \<Rightarrow> 'req received list \<Rightarrow> go_error option list \<Rightarrow> 'req list \<Rightarrow> 'req list \<times> handler option" where
  "append_loop req recvs [] sent = (sent, Some Waiting)"
| "append_loop req recvs (Some e # sends) sent = (sent, Some (Returned (Some e)))"
| "append_loop req [] (None # sends) sent = (sent @ [req], Some Waiting)"
| "append_loop req (RecvError e # rs) (None # sends) sent =
     (sent @ [req], if e = EOF then None else Some (Returned (Some e)))"
| "append_loop req (Message m # rs) (None # sends) sent = append_loop m rs sends (sent @ [req])"

text \<open>
  The broker's side of an append is what its \<open>Send\<close> returns in turn and what \<open>CloseAndRecv\<close>
  returns; \<open>reply_error\<close> is what sending the response to the caller returns. The result is the
  requests forwarded, the responses sent to the caller, and how the handler stands.
\<close>

definition JournalProxy_Append ::
  "('ctx, 'md, append_claims) calls \<Rightarrow> ('req \<Rightarrow> string) \<Rightarrow>
     ('ctx \<Rightarrow> go_error + go_error option list \<times> 'resp received) \<Rightarrow>
     'ctx \<Rightarrow> 'req received list \<Rightarrow> go_error option \<Rightarrow> 'req list \<times> 'resp list \<times> handler" where
  "JournalProxy_Append lib journal_of jc_Append stream_ctx recvs reply_error =
     (case recvs of
        [] \<Rightarrow> ([], [], Waiting)
      | RecvError err # rs \<Rightarrow> ([], [], Returned (Some err))
      | Message req # rs \<Rightarrow>
          (let ctx = WithClaims lib stream_ctx
                 \<lparr>claims_capability = ''APPEND'', claims_name = journal_of req\<rparr>;
               ctx' = WithDispatchDefault lib ctx
           in case jc_Append ctx' of
                Inl err \<Rightarrow> ([], [], Returned (Some err))
              | Inr (sends, closing) \<Rightarrow>
                  (case append_loop req rs sends [] of
                     (sent, Some h) \<Rightarrow> (sent, [], h)
                   | (sent, None) \<Rightarrow>
                       (case closing of
                          RecvError err \<Rightarrow> (sent, [], Returned (Some err))
                        | Message resp \<Rightarrow>
                            (sent, if reply_error = None then [resp] else [], Returned reply_error)))))"

section \<open>Calls that are passed on\<close>

text \<open>
  \<open>ListFragments\<close> and \<open>Apply\<close> of the journal proxy and all calls of the shard proxy have one
  form; \<open>Replicate\<close> is refused.
\<close>

definition pass_on ::
  "('ctx, 'md, 'claims) calls \<Rightarrow> ('ctx \<Rightarrow> 'req \<Rightarrow> go_error + 'resp) \<Rightarrow> 'ctx \<Rightarrow> 'req \<Rightarrow> go_error + 'resp" where
  "pass_on lib client_call ctx req = client_call (WithDispatchDefault lib ctx) req"

definition JournalProxy_ListFragments where "JournalProxy_ListFragments = pass_on"

definition JournalProxy_Apply where "JournalProxy_Apply = pass_on"

definition JournalProxy_Replicate :: "'stream \<Rightarrow> go_error option" where
  "JournalProxy_Replicate stream = Some (Failure ''unsupported operation: `Replicate`'')"

definition ShardProxy_List where "ShardProxy_List = pass_on"

definition ShardProxy_Stat where "ShardProxy_Stat = pass_on"

definition ShardProxy_Apply where "ShardProxy_Apply = pass_on"

definition ShardProxy_GetHints where "ShardProxy_GetHints = pass_on"

definition ShardProxy_Unassign where "ShardProxy_Unassign = pass_on"

section \<open>What the loops do\<close>

fun messages :: "'a received list \<Rightarrow> 'a list" where
  "messages (Message m # rs) = m # messages rs"
| "messages _ = []"

text \<open>Messages reach the other side in order, and none but those received.\<close>

lemma proxy_loop_prefix: "\<exists>ms. fst (proxy_loop rs ss sent) = sent @ ms \<and> prefix ms (messages rs)"
proof (induction rs ss sent rule: proxy_loop.induct)
  case (5 m rs sends sent)
  then obtain ms where "fst (proxy_loop rs sends (sent @ [m])) = (sent @ [m]) @ ms"
    and "prefix ms (messages rs)" by blast
  then show ?case by (intro exI [of _ "m # ms"]) simp
qed simp_all

lemma proxy_loop_all:
  "length ss = length ms \<Longrightarrow> \<forall>s \<in> set ss. s = None \<Longrightarrow>
     proxy_loop (map Message ms @ RecvError e # rs) ss sent
       = (sent @ ms, Returned (if e = EOF then None else Some e))"
proof (induction ms arbitrary: ss sent)
  case (Cons m ms)
  then show ?case by (cases ss) auto
qed simp

lemma proxy_loop_nil:
  assumes "snd (proxy_loop rs ss sent) = Returned None"
  shows "fst (proxy_loop rs ss sent) = sent @ messages rs"
  using assms by (induction rs ss sent rule: proxy_loop.induct) auto

lemma append_loop_prefix:
  "\<exists>ms. fst (append_loop req rs ss sent) = sent @ ms \<and> prefix ms (req # messages rs)"
proof (induction req rs ss sent rule: append_loop.induct)
  case (5 req m rs sends sent)
  then obtain ms where "fst (append_loop m rs sends (sent @ [req])) = (sent @ [req]) @ ms"
    and "prefix ms (m # messages rs)" by blast
  then show ?case by (intro exI [of _ "req # ms"]) simp
qed auto

lemma append_loop_break:
  assumes "snd (append_loop req rs ss sent) = None"
  shows "fst (append_loop req rs ss sent) = sent @ req # messages rs"
  using assms by (induction req rs ss sent rule: append_loop.induct) (auto split: if_splits)

lemma append_loop_not_nil: "snd (append_loop req rs ss sent) \<noteq> Some (Returned None)"
  by (induction req rs ss sent rule: append_loop.induct) auto

end
