(* ===== verification/Gateway_Process.thy ===== *)
theory Gateway_Process
  imports Gateway
begin

text \<open>
  \<open>cmdServe.Execute\<close> of \<open>main.go\<close>: what has to succeed before the gateway serves, and the tasks it then
  runs until all of them have returned. The libraries it calls, the task group among them, are
  parameters.
\<close>

section \<open>Start-up\<close>

text \<open>
  What the calls at start-up return: an error or \<open>nil\<close>. \<open>MustDial\<close> stops the process by itself.
  \<open>server_tasks\<close> are the names of the tasks that the server queues for itself.
\<close>

record startup_calls =
  NewKeyedAuth :: "go_error option"
  BuildTLSConfig :: "go_error option"
  server_New :: "go_error option"
  MustDial_broker :: "string option"
  MustDial_consumer :: "string option"
  NewFrontend :: "go_error option"
  server_tasks :: "string list"

text \<open>\<open>mbp.Must(err, msg)\<close> stops the process with the message for some errors: \<open>stops\<close> says for which.\<close>

definition Must :: "(go_error option \<Rightarrow> bool) \<Rightarrow> go_error option \<Rightarrow> string \<Rightarrow> string + unit" where
  "Must stops err msg = (if stops err then Inl msg else Inr ())"

definition bind_startup :: "string + 'a \<Rightarrow> ('a \<Rightarrow> string + 'b) \<Rightarrow> string + 'b" where
  "bind_startup m f = (case m of Inl msg \<Rightarrow> Inl msg | Inr x \<Rightarrow> f x)"

definition dial :: "string option \<Rightarrow> string + unit" where
  "dial r = (case r of Some msg \<Rightarrow> Inl msg | None \<Rightarrow> Inr ())"

text \<open>The tasks in the order they are queued, or the message it stops with.\<close>

definition start_up :: "(go_error option \<Rightarrow> bool) \<Rightarrow> startup_calls \<Rightarrow> string \<Rightarrow> string + string list" where
  "start_up stops lib ServerCertFile =
     bind_startup (Must stops (NewKeyedAuth lib) ''failed to parse consumer auth keys'') (\<lambda>_.
     bind_startup (if ServerCertFile \<noteq> [] then Must stops (BuildTLSConfig lib) ''building server TLS config'' else Inr ()) (\<lambda>_.
     bind_startup (Must stops (server_New lib) ''building Server instance'') (\<lambda>_.
     bind_startup (dial (MustDial_broker lib)) (\<lambda>_.
     bind_startup (dial (MustDial_consumer lib)) (\<lambda>_.
       let tasks = server_tasks lib in
       bind_startup (Must stops (NewFrontend lib) ''failed to build network proxy'') (\<lambda>_.
       let tasks = tasks @ [''network-proxy-frontend'']; tasks = tasks @ [''handle-signal''] in
       Inr tasks))))))"

section \<open>Running\<close>

text \<open>
  A task is running or has returned. \<open>done_ctx\<close> says whether the context of the group has been
  cancelled, \<open>pending_signal\<close> whether a signal waits in \<open>signalCh\<close>, which has room for one, \<open>signals\<close> how
  many have arrived.
\<close>

datatype task_state = Running | Finished "go_error option"

record process =
  tasks :: "(string \<times> task_state) list"
  done_ctx :: bool
  pending_signal :: bool
  signals :: nat

text \<open>
  The group as its user sees it: whether it cancels its context when a task returns this, and the
  error \<open>Wait\<close> gives when the tasks have returned these. \<open>returns n done r\<close>: a task \<open>n\<close> of a library may
  return \<open>r\<close> when the context is, or is not, cancelled.
\<close>

record task_library =
  cancels :: "go_error option \<Rightarrow> bool"
  Wait :: "go_error option list \<Rightarrow> go_error option"
  stops :: "go_error option \<Rightarrow> bool"
  returns :: "string \<Rightarrow> bool \<Rightarrow> go_error option \<Rightarrow> bool"

definition GoRun :: "string list \<Rightarrow> process" where
  "GoRun ts = \<lparr>tasks = map (\<lambda>n. (n, Running)) ts, done_ctx = False, pending_signal = False, signals = 0\<rparr>"

definition finish_task :: "task_library \<Rightarrow> nat \<Rightarrow> go_error option \<Rightarrow> process \<Rightarrow> process" where
  "finish_task lib i r s =
     s\<lparr>tasks := (tasks s)[i := (fst (tasks s ! i), Finished r)], done_ctx := done_ctx s \<or> cancels lib r\<rparr>"

text \<open>The task \<open>handle-signal\<close> waits for a signal, whatever becomes of the context, and returns \<open>nil\<close>.\<close>

inductive process_step :: "task_library \<Rightarrow> process \<Rightarrow> process \<Rightarrow> bool" for lib where
  signal_arrives: "process_step lib s (s\<lparr>pending_signal := True, signals := signals s + 1\<rparr>)"
| handle_signal: "i < length (tasks s) \<Longrightarrow> tasks s ! i = (''handle-signal'', Running) \<Longrightarrow> pending_signal s \<Longrightarrow>
     process_step lib s ((finish_task lib i None s)\<lparr>pending_signal := False\<rparr>)"
| library_returns: "i < length (tasks s) \<Longrightarrow> tasks s ! i = (n, Running) \<Longrightarrow> n \<noteq> ''handle-signal'' \<Longrightarrow>
     returns lib n (done_ctx s) r \<Longrightarrow> process_step lib s (finish_task lib i r s)"

inductive_cases process_stepE: "process_step lib s s'"

text \<open>\<open>mbp.Must(tasks.Wait(), ...)\<close>: \<open>None\<close> while a task runs, then the message it stops with, or a normal end.\<close>

definition task_result :: "task_state \<Rightarrow> go_error option" where
  "task_result t = (case t of Running \<Rightarrow> None | Finished r \<Rightarrow> r)"

definition Execute_end :: "task_library \<Rightarrow> process \<Rightarrow> (string + unit) option" where
  "Execute_end lib s =
     (if \<exists>t \<in> set (tasks s). snd t = Running then None
      else Some (Must (stops lib) (Wait lib (map (task_result \<circ> snd) (tasks s))) ''data-plane-gateway task failed''))"

section \<open>How a gateway ends\<close>

text \<open>
  Documented behaviour of the libraries: \<open>Must\<close> stops for every error; a task that returns \<open>nil\<close> does not cancel the group, \<open>Wait\<close> gives
  an error when a task returned one, and a server returns without an error only after its context
  was cancelled.
\<close>

definition documented :: "task_library \<Rightarrow> bool" where
  "documented lib \<longleftrightarrow> (\<forall>e. stops lib (Some e)) \<and> \<not> cancels lib None \<and> (\<forall>rs. Wait lib rs = None \<longrightarrow> (\<forall>r \<in> set rs. r = None)) \<and>
     (\<forall>n. \<not> returns lib n False None)"

definition failed :: "process \<Rightarrow> bool" where
  "failed s \<longleftrightarrow> (\<exists>n e. (n, Finished (Some e)) \<in> set (tasks s))"

inductive process_reachable :: "task_library \<Rightarrow> string list \<Rightarrow> process \<Rightarrow> bool" for lib ts where
  started: "process_reachable lib ts (GoRun ts)"
| continued: "process_reachable lib ts s \<Longrightarrow> process_step lib s s' \<Longrightarrow> process_reachable lib ts s'"

text \<open>
  A task of a library that has returned means that one of them failed, and so does a cancelled
  context; a signal that waits or has been handled has arrived.
\<close>

definition process_inv :: "string list \<Rightarrow> process \<Rightarrow> bool" where
  "process_inv ts s \<longleftrightarrow> map fst (tasks s) = ts \<and> (done_ctx s \<longrightarrow> failed s) \<and>
     (\<forall>i < length ts. ts ! i \<noteq> ''handle-signal'' \<longrightarrow> snd (tasks s ! i) \<noteq> Running \<longrightarrow> failed s) \<and>
     (pending_signal s \<longrightarrow> 0 < signals s) \<and>
     (\<forall>i < length ts. ts ! i = ''handle-signal'' \<longrightarrow> snd (tasks s ! i) \<noteq> Running \<longrightarrow> 0 < signals s)"

lemma GoRun_inv: "process_inv ts (GoRun ts)"
  by (simp add: process_inv_def GoRun_def comp_def)

lemma finish_tasks:
  assumes "i < length (tasks s)"
  shows "map fst (tasks (finish_task lib i r s)) = map fst (tasks s)"
    and "tasks (finish_task lib i r s) ! j = (if j = i then (fst (tasks s ! i), Finished r) else tasks s ! j)"
  using assms by (auto simp: finish_task_def map_update list_update_same_conv nth_list_update)

lemma finish_failed:
  assumes "i < length (tasks s)" and "snd (tasks s ! i) = Running"
  shows "failed (finish_task lib i r s) \<longleftrightarrow> failed s \<or> r \<noteq> None"
proof -
  have "(n, Finished (Some e)) \<in> set ((tasks s)[i := (m, Finished r)]) \<longleftrightarrow>
      (n, Finished (Some e)) \<in> set (tasks s) \<or> n = m \<and> r = Some e" for n e m
    using assms by (auto simp: in_set_conv_nth nth_list_update) (metis snd_conv task_state.distinct(1))+
  then show ?thesis
    by (auto simp: failed_def finish_task_def)
qed

lemma process_step_inv:
  assumes "documented lib" and "process_step lib s s'" and "process_inv ts s"
  shows "process_inv ts s'"
  using assms(2,3)
proof (induction rule: process_step.induct)
  case (signal_arrives s)
  then show ?case by (auto simp: process_inv_def failed_def)
next
  case (handle_signal i s)
  let ?f = "finish_task lib i None s"
  have f: "failed (?f\<lparr>pending_signal := False\<rparr>) = failed s" "done_ctx ?f = done_ctx s" "signals ?f = signals s"
    using handle_signal.hyps assms(1) finish_failed [of i s lib None]
    by (auto simp: failed_def finish_task_def documented_def)
  have "ts ! i = ''handle-signal''"
    using handle_signal.hyps(1,2) handle_signal.prems by (auto simp: process_inv_def)
  then show ?case
    using handle_signal finish_tasks [OF handle_signal.hyps(1), of lib None] f
    by (auto simp: process_inv_def)
next
  case (library_returns i s n r)
  let ?f = "finish_task lib i r s"
  have f: "failed ?f \<longleftrightarrow> failed s \<or> r \<noteq> None" "pending_signal ?f = pending_signal s" "signals ?f = signals s"
    using library_returns.hyps finish_failed [of i s lib r] by (auto simp: finish_task_def)
  have "failed ?f"
    using f(1) library_returns.hyps(4) library_returns.prems assms(1)
    by (cases r; cases "done_ctx s") (auto simp: documented_def process_inv_def)
  moreover have "ts ! i \<noteq> ''handle-signal''"
    using library_returns.hyps(1-3) library_returns.prems by (auto simp: process_inv_def)
  ultimately show ?case
    using library_returns finish_tasks [OF library_returns.hyps(1), of lib r] f
    by (auto simp: process_inv_def)
qed

lemma process_reachable_inv: "documented lib \<Longrightarrow> process_reachable lib ts s \<Longrightarrow> process_inv ts s"
  by (rotate_tac, induction rule: process_reachable.induct) (auto intro: GoRun_inv process_step_inv)

text \<open>Without a failure nothing ends but \<open>handle-signal\<close>.\<close>

lemma runs_until_failure:
  assumes "process_inv ts s" and "\<not> failed s"
  shows "\<not> done_ctx s" and "i < length ts \<Longrightarrow> ts ! i \<noteq> ''handle-signal'' \<Longrightarrow> tasks s ! i = (ts ! i, Running)"
  using assms by (auto simp: process_inv_def prod_eq_iff)

text \<open>An end is a failure, after that of a task and a signal.\<close>

lemma end_is_failure:
  assumes "documented lib" and "process_inv ts s" and "Execute_end lib s = Some r"
    and "''handle-signal'' \<in> set ts" and "n \<in> set ts" and "n \<noteq> ''handle-signal''"
  shows "r = Inl ''data-plane-gateway task failed'' \<and> failed s \<and> 0 < signals s"
proof -
  have all: "\<forall>i < length ts. snd (tasks s ! i) \<noteq> Running"
    using assms(2,3) by (auto simp: Execute_end_def process_inv_def split: if_splits dest: nth_mem)
  then have failed: "failed s" and "0 < signals s"
    using assms(2,4-6) by (auto simp: process_inv_def in_set_conv_nth)
  from failed obtain n e where "(n, Finished (Some e)) \<in> set (tasks s)"
    by (auto simp: failed_def)
  then have "Some e \<in> set (map (task_result \<circ> snd) (tasks s))"
    by (force simp: task_result_def)
  then have "Wait lib (map (task_result \<circ> snd) (tasks s)) \<noteq> None"
    using assms(1) unfolding documented_def by blast
  with assms(1) have "stops lib (Wait lib (map (task_result \<circ> snd) (tasks s)))"
    by (auto simp: documented_def)
  with failed \<open>0 < signals s\<close> assms(3) show ?thesis
    by (auto simp: Execute_end_def Must_def split: if_splits)
qed

text \<open>When all other tasks have returned and no signal has come, only a signal can move the gateway.\<close>

lemma waits_for_signal:
  assumes "process_step lib s s'" and "\<not> pending_signal s"
    and "\<forall>i < length (tasks s). fst (tasks s ! i) \<noteq> ''handle-signal'' \<longrightarrow> snd (tasks s ! i) \<noteq> Running"
  shows "s' = s\<lparr>pending_signal := True, signals := signals s + 1\<rparr>"
  using assms by (auto elim!: process_stepE)

lemma start_up_tasks:
  "start_up st lib cert = Inr ts \<Longrightarrow> ts = server_tasks lib @ [''network-proxy-frontend'', ''handle-signal'']"
  by (auto simp: start_up_def bind_startup_def Let_def split: sum.splits)

end
