(* ===== verification/Spec2Isabelle.thy ===== *)
theory Spec2Isabelle
  imports Js_Rounding Package_Build Paced_Run Client_Types Published_Helpers Script_Calls Gateway_Process
begin

text \<open>
  Verification of data-plane-gateway: the TypeScript client in \<open>client/src\<close> and the gRPC proxies of
  the gateway process in Go.

  The program. A browser or Deno program builds selectors (\<open>selector.ts\<close>), calls
  \<open>JournalClient\<close> and \<open>ShardClient\<close> (\<open>journal_client.ts\<close>, \<open>shard_client.ts\<close>), which post JSON
  to the gateway with \<open>doFetch\<close> (\<open>util.ts\<close>) and return a \<open>Result\<close> (\<open>result.ts\<close>). A read
  returns a stream: bytes are decoded to text, split into lines, parsed as JSON and unwrapped
  (\<open>streams.ts\<close>); \<open>parseJournalDocuments\<close> decodes the content of the read responses and splits
  and parses it again. The gateway passes calls on to the broker (\<open>journal_server.go\<close>,
  \<open>shard_server.go\<close>).

  Theories and what they model.

  \<^item> \<open>Js_Prelude\<close>, \<open>Js_String\<close>, \<open>Js_Number\<close>, \<open>Json_Value\<close>, \<open>Json_Text\<close>, \<open>Js_Sort\<close>: what the source uses of the
    language and its standard library. Strings are lists of UTF-16 code units, numbers are
    doubles given by their shortest decimals (\<open>to_double\<close> rounds), a thrown error is the left side
    of a sum, a promise is pending, rejected or fulfilled; \<open>split\<close>, \<open>JSON.stringify\<close>, \<open>JSON.parse\<close> and \<open>sort\<close> are executable functions.
    \<open>json_parse\<close> runs a recursive descent with fuel \<open>2 * length + 2\<close>; \<open>parse_fuel_enough\<close>
    shows that more fuel never changes a result. \<open>Json_Roundtrip\<close>: parsing the text of a value
    gives the value back. \<open>Json_Transport\<close>: so it does through UTF-8.
    \<open>Js_Rounding\<close>: \<open>to_double\<close> gives the double nearest to a decimal, and what this means for integers.
    \<open>Json_Scan\<close>: what is left of the text of an object behind a point in its middle is never JSON.
  \<^item> \<open>Utf8\<close>, \<open>Base64\<close>: \<open>TextDecoder\<close> (as the state machine of the Encoding standard) and \<open>atob\<close>,
    with encoders and the proofs that decoding inverts them, and what decoding makes of a character
    that was divided.
  \<^item> \<open>Incremental\<close>: the contract of a conversion that does not see where its input was cut
    (locale \<open>incremental\<close>), interpreted on the UTF-8 decoder and on the line splitter.
  \<^item> \<open>Stream_Model\<close>: transform streams and \<open>pipeThrough\<close>; first as a function from the whole
    input to the whole output, then as a step relation in which arrivals, callbacks and reads
    interleave, with the proof that each interleaving delivers a prefix of the function's output
    and, once drained, all of it. Locale \<open>total_stage\<close>: stages that do not throw.
  \<^item> \<open>Pipeline\<close>: neighbouring stages linked by \<open>pipeThrough\<close>, each at its own pace; a stage follows
    the stream of the reference semantics if its neighbour does, a pipeline of stages terminates
    without new input, and at rest the end of the source has been passed on.
  \<^item> \<open>Streams\<close>: the five functions of \<open>streams.ts\<close>, each stage a record of the closure's start
    state and its two callbacks. Locale \<open>line_codec\<close>: values framed one per line.
  \<^item> \<open>Wire_Format\<close>, \<open>Broker_Types\<close>, \<open>Consumer_Types\<close>: every interface of the generated protocol
    files as a record of optional fields, with the run-time object of each type a call uses.
  \<^item> \<open>Ts_Types\<close>, \<open>Published_Broker\<close>, \<open>Published_Consumer\<close>: the declarations the package publishes in
    \<open>client/dist/src/gen\<close>, as types with an executable test of which values conform to them. A record
    of \<open>Broker_Types\<close> or \<open>Consumer_Types\<close> is at run time a value of the published type of its name.
  \<^item> \<open>Result_Type\<close>: the class \<open>Result\<close>. Its methods test truthiness, so they take the test of
    the type they are used at. Locale \<open>truthy_result\<close>: where the class is a sum.
  \<^item> \<open>Util\<close>: \<open>trimUrl\<close>, \<open>doFetch\<close>, \<open>ResponseError\<close>, \<open>sortBy\<close>. \<open>fetch\<close> is a parameter, a function
    of the requests made so far and the request; the world records the requests. Locale
    \<open>unary_call\<close>: what every call with one response promises.
  \<^item> \<open>Selectors\<close>: the selector classes over an explicit store of arrays, because \<open>toLabelSet\<close>
    sorts a copy in place; the specification of selectors and the simulation.
  \<^item> \<open>Journal_Client\<close>, \<open>Shard_Client\<close>: the two client classes; each method is a function of the
    network and the world, written out as the source has it, and an instance of \<open>unary_call\<close> (or,
    for \<open>read\<close>, equal to \<open>read_outcome\<close>).
  \<^item> \<open>Read_Run\<close>: the four stages of \<open>read\<close> as one step relation, with its runs related to
    \<open>read_pipeline\<close>.
  \<^item> \<open>Document_Run\<close>: the three stages of \<open>parseJournalDocuments\<close> behind a read, seven in all, as one
    step relation; its steps inside the read are steps of \<open>Read_Run\<close>, whose facts it uses.
    \<open>Collect_Run\<close>: the same with \<open>readStreamToEnd\<close> as the consumer, one read at a time.
  \<^item> \<open>Paced_Run\<close>: that run under the flow control of the Streams standard, as a function from named
    moves to states: each of its moves is one of \<open>Collect_Run\<close>; what a stage can hold is bounded
    (locale \<open>frugal_stage\<close>); at rest with the promise pending every stage is idle; and a run that ends
    in a standstill.
  \<^item> \<open>Client_Types\<close>: requests and results of the calls against the published declarations.
  \<^item> \<open>Js_Action\<close>, \<open>Js_Object\<close>, \<open>Published_Classes\<close>: statements as actions that change a state and may
    throw; objects with property attributes on a heap; and on it the constructors of the classes
    compiled to \<open>client/dist/esm\<close> and all of the class \<open>Result\<close>, which refines \<open>Result_Type\<close>; there
    freezing, assignment and callbacks that change the heap matter.
  \<^item> \<open>Published_Util\<close>, \<open>Published_Selectors\<close>, \<open>Published_Client\<close>: the compiled functions and methods
    over that heap, reading fields through \<open>this\<close>, with other code running at every \<open>await\<close>
    (\<open>others\<close>, which is told what only the call has a reference to and by \<open>meanwhile\<close> leaves just that
    alone), related to \<open>Selectors\<close>, \<open>Journal_Client\<close> and \<open>Shard_Client\<close>.
  \<^item> \<open>Published_Stages\<close>: the callbacks of \<open>client/dist/esm/streams.js\<close> statement by statement, with a
    controller as the state they change, and the proof that they are the stages of \<open>Streams\<close>.
    \<open>Published_Helpers\<close>: \<open>readStreamToEnd\<close> there, with the lock its reader holds, and \<open>trimUrl\<close>.
  \<^item> \<open>Module_Exports\<close>: the entry points: the exports declared by \<open>index.ts\<close> and \<open>esm/index.js\<close>, and
    the exports object that \<open>script/index.js\<close> builds. The modules they load are a parameter.
  \<^item> \<open>Script_Modules\<close>: the other CommonJS modules of \<open>client/dist/script\<close>: \<open>require\<close> with its cache and the
    top-level statements of each file, on a heap of exports objects. \<open>Script_Bodies\<close>: the functions and
    methods there that use no other module, equal to those of the ES modules. \<open>Script_Calls\<close>: those that
    do, with every import read from an exports object when it is called.
  \<^item> \<open>Package_Build\<close>: \<open>bin/build_package.ts\<close>, the \<open>package.json\<close> it produced and how it is resolved.
  \<^item> \<open>Gateway\<close>: the handlers of the Go proxies, with the libraries as parameters and streams
    given by what their operations return. \<open>Gateway_Process\<close>: the start-up of \<open>main.go\<close> and its tasks as
    a step relation; the task group is a parameter, with its documented behaviour as hypothesis.

  What the properties show: the documents that come out of a read are those that went in, for every
  chunking of the network and every division of the text into messages between two characters, and
  a read delivers its responses in every interleaving of its stages, the network and the consumer;
  so do the documents, from the network to their consumer, with and without flow control; list and stat send exactly the request
  they mean and return exactly the typed response; results have the declared types up to the
  assertions the source makes; errors take the branch the source gives them; selectors behave as
  lists of labels; decoding is bounded by its input; integers arrive as the nearest doubles,
  exact below \<open>2^53\<close>; a read from the middle of an object loses that object only; results behave as sums on truthy values; the
  published results are immutable, the published stages and \<open>readStreamToEnd\<close> collect the documents
  once, and the published clients refine those of the source in spite of other code that runs while
  they wait; the CommonJS modules
  link in any order of loading, and their clients agree with those of the ES modules; the gateway
  forwards in order and loses nothing silently, and its process does not end well. Properties that
  end in an error or a loss state behaviour of the code that a caller may not expect.

  Bounds and assumptions. Numbers are doubles, kept as the shortest decimal of each; \<open>-0\<close>
  is not told from \<open>0\<close>. The encoders take the number fields of the protocol at 64 bits. \<open>sortBy\<close> is modelled for fields that hold strings or are
  undefined. Values that code receives from JSON have no getters or prototypes of their own. When a
  stage fails, whether chunks it had queued are still read is left to \<open>Stream_Model\<close>'s step
  relation; the functional reading keeps them. Interleaving is
  modelled for \<open>splitStream\<close> alone, for the four stages of \<open>read\<close>, and for the seven stages from the
  network to the documents with their consumer; flow control for the last of these, with the sizes of
  the standard's default strategies (one chunk before a stage, none after it). The cancellation by which
  \<open>pipeTo\<close> stops the stages before one that has failed is not modelled: nothing they do is read. An
  object type of \<open>Ts_Types\<close> has objects as its values only (the compiler's structural rules would let
  some arrays and strings pass); optional properties may be \<open>undefined\<close>, not \<open>null\<close>.

  The stack depth of \<open>load\<close> in \<open>Script_Modules\<close> counts nested \<open>require\<close> calls; four are enough, because
  no chain of modules is longer. A value that a program puts into an exports object is used as the
  code uses it: what it does is a parameter, \<open>foreign_code\<close>.

  Not modelled: the wiring of libraries in \<open>main.go\<close> (which server gets which handler, TLS, logging,
  the command line), the packaging library, the tests, and of \<open>client/dist\<close> the files that repeat what
  is modelled: the sources with other import suffixes, which no format of the package runs, and
  declaration files.

  Plan. The program's own code is modelled; what is left is wiring of libraries that are not under
  \<open>src\<close>, tests, and copies. A change of the source is followed in the theory of its file and, after a
  build, in those of \<open>client/dist\<close>.
\<close>

section \<open>Example data\<close>

text \<open>
  The inputs the witnesses use: two clients, a read request, a response that arrives in three
  chunks, one of them empty, and a world without requests.
\<close>

definition example_journals :: JournalClient where
  "example_journals = new_JournalClient \<lparr>href = js ''http://localhost:8080/''\<rparr> (js ''token'')"

definition example_shards :: ShardClient where
  "example_shards = new_ShardClient \<lparr>href = js ''http://localhost:8080/''\<rparr> (js ''token'')"

definition example_read :: ProtocolReadRequest where
  "example_read = \<lparr>ProtocolReadRequest.header = None, journal = Some (js ''acme/anvils''),
     offset = None, block = Some False, doNotProxy = None, metadataOnly = None, endOffset = None,
     beginModTime = None\<rparr>"

definition example_response :: "nat \<Rightarrow> byte list \<Rightarrow> response" where
  "example_response s bs =
     \<lparr>http_status = s, response_body = Some \<lparr>chunks = [take 9 bs, [], drop 9 bs], ending = Closed\<rparr>\<rparr>"

definition example_world :: client_world where
  "example_world = \<lparr>fetched = [], arrays = []\<rparr>"

lemmas example_defs = example_journals_def example_shards_def example_response_def example_world_def
  new_JournalClient_def new_ShardClient_def response_ok_def bom_free_def is_lead_unat is_trail_unat

section \<open>Reading a journal\<close>

text \<open>C1: However the network cuts the response into chunks, \<open>JournalClient.read\<close> answers a
  successful response with a stream of exactly the read responses that the gateway framed, one
  \<open>{"result": ...}\<close> object per line, in their order; an incomplete last line is left out, and
  the stream closes when the body does. The call makes the one request.\<close>

theorem read_delivers_responses:
  assumes "net (fetched w) (read_request self req) = Fulfilled r"
    and "response_ok r" and "response_body r = Some \<lparr>chunks = cs, ending = Closed\<rparr>"
    and "concat cs = text_bytes (lines_of value_text (map result_frame vs) @ rest)"
    and "\<forall>v \<in> set vs. wf_json v"
    and "10 \<notin> set rest" and "wf_utf16 rest" and "bom_free rest"
  shows "JournalClient_read self req net w =
    (Fulfilled (Result_Ok \<lparr>chunks = vs, ending = Closed\<rparr>),
     w\<lparr>fetched := fetched w @ [read_request self req]\<rparr>)"
  using assms(1-3) read_pipeline_frames [OF assms(5-8,4)]
  by (simp add: JournalClient_read_outcome read_outcome_def)

lemma read_delivers_responses_witness:
  "JournalClient_read example_journals example_read
     (\<lambda>_ _. Fulfilled (example_response 200 (text_bytes (lines_of value_text
       (map result_frame [JObj [(js ''offset'', JStr (js ''7''))], JObj []]) @ js ''{''))))
     example_world
   = (Fulfilled (Result_Ok \<lparr>chunks = [JObj [(js ''offset'', JStr (js ''7''))], JObj []], ending = Closed\<rparr>),
      example_world\<lparr>fetched := fetched example_world @ [read_request example_journals example_read]\<rparr>)"
  by (rule read_delivers_responses [where rest = "js ''{''"],
      rule refl, simp add: example_defs, simp add: example_response_def, simp, 
      simp_all add: example_defs)

text \<open>C2: The same for every run of the four stages that \<open>read\<close> connects, each working at its own
  pace while the network delivers and the consumer reads: at every moment the consumer has read a
  prefix of the responses; no run goes on for ever without new bytes; and once the body has closed,
  every run that has come to rest has delivered all responses and closed the stream.\<close>

theorem read_runs_deliver:
  assumes "read_reachable s" and "source (decoding s) = Closed"
    and "concat (arrived (decoding s)) = text_bytes (lines_of value_text (map result_frame vs) @ rest)"
    and "\<forall>v \<in> set vs. wf_json v" and "10 \<notin> set rest" and "wf_utf16 rest" and "bom_free rest"
  shows "prefix (delivered (unwrapping s)) vs
    \<and> wf {(r', r). read_step r r'} \<and> (\<exists>r. read_step\<^sup>*\<^sup>* s r \<and> (\<nexists>r'. read_step r r'))
    \<and> (\<forall>r. read_step\<^sup>*\<^sup>* s r \<and> (\<nexists>r'. read_step r r') \<longrightarrow>
        delivered (unwrapping r) = vs \<and> outcome (unwrapping r) = Closed)"
proof -
  have body: "read_pipeline (body_so_far s) = \<lparr>chunks = vs, ending = Closed\<rparr>"
    using read_pipeline_frames [OF assms(4-7,3)] assms(2) by (simp add: body_so_far_def history_def)
  have "delivered (unwrapping r) = vs \<and> outcome (unwrapping r) = Closed"
    if run: "read_step\<^sup>*\<^sup>* s r" and rest: "\<nexists>r'. read_step r r'" for r
  proof -
    have r: "read_reachable r" and same: "body_so_far r = body_so_far s"
      using read_steps_reachable [OF run assms(1)] by auto
    then have "source (decoding r) = Closed"
      using assms(2) by (simp add: body_so_far_def history_def)
    from read_outcome_at_rest [OF r this rest] body show ?thesis by (simp add: same)
  qed
  then show ?thesis
    using read_follows [OF assms(1)] read_terminates read_rests [of s] body by (auto simp: follows_def)
qed

lemma example_read_run:
  "\<exists>s. read_reachable s \<and> source (decoding s) = Closed \<and> arrived (decoding s) = [bs]"
proof -
  have "\<exists>s. read_reachable s \<and> source (decoding s) = Open \<and> arrived (decoding s) = [bs]"
    using body_moves [OF read_starts arrive [of "decoding read_init" bs]]
    by (force simp: read_init_def pipe_init_def)
  then obtain s where s: "read_reachable s" "source (decoding s) = Open" "arrived (decoding s) = [bs]" by blast
  from body_moves [OF s(1) source_closes [OF s(2)]] s(3) show ?thesis by force
qed

lemma read_runs_deliver_witness:
  "\<exists>s. read_reachable s \<and> delivered (unwrapping s) = [JObj []] \<and> outcome (unwrapping s) = Closed"
proof -
  obtain s where s: "read_reachable s" "source (decoding s) = Closed"
    "arrived (decoding s) = [text_bytes (lines_of value_text (map result_frame [JObj []]) @ [])]"
    using example_read_run by blast
  have "(\<exists>r. read_step\<^sup>*\<^sup>* s r \<and> (\<nexists>r'. read_step r r'))
    \<and> (\<forall>r. read_step\<^sup>*\<^sup>* s r \<and> (\<nexists>r'. read_step r r') \<longrightarrow>
        delivered (unwrapping r) = [JObj []] \<and> outcome (unwrapping r) = Closed)"
    using read_runs_deliver [OF s(1,2), of "[JObj []]" "[]"] s(3) by (simp add: bom_free_def)
  then obtain r where r: "read_step\<^sup>*\<^sup>* s r" "delivered (unwrapping r) = [JObj []]" "outcome (unwrapping r) = Closed"
    by blast
  with read_steps_reachable [OF r(1) s(1)] show ?thesis by blast
qed

text \<open>C3: From the network to the documents: when the read responses carry, as Base64 of UTF-8 in
  their \<open>content\<close> fields, pieces of a text of documents one per line (cut between any two
  characters), then \<open>read\<close>, \<open>parseJournalDocuments\<close> and \<open>readStreamToEnd\<close> together
  resolve to exactly the documents, for documents that are truthy.\<close>

theorem read_documents_end_to_end:
  assumes "net (fetched w) (read_request self req) = Fulfilled r"
    and "response_ok r" and "response_body r = Some \<lparr>chunks = cs, ending = Closed\<rparr>"
    and "concat cs = text_bytes (lines_of value_text
          (map (\<lambda>m. result_frame (json_of_ProtocolReadResponse m)) ms) @ rest)"
    and "10 \<notin> set rest" and "wf_utf16 rest" and "bom_free rest"
    and "list_all2 response_carries ms ps" and "concat ps = lines_of value_text docs @ tail"
    and "\<forall>d \<in> set docs. wf_json d \<and> js_truthy d" and "10 \<notin> set tail"
  shows "await (fst (JournalClient_read self req net w)) (\<lambda>res.
      await (settle (Result_unwrap object_truthy print_object res)) (\<lambda>st.
        readStreamToEnd js_truthy (parseJournalDocuments st))) = Fulfilled docs"
proof -
  have "fst (JournalClient_read self req net w)
      = Fulfilled (Result_Ok (read_pipeline \<lparr>chunks = cs, ending = Closed\<rparr>))"
    using assms(1-3) by (simp add: JournalClient_read_outcome read_outcome_def)
  moreover have "\<forall>d \<in> set docs. wf_json d" using assms(10) by blast
  ultimately show ?thesis
    using documents_of_frames [OF assms(4-9) _ assms(11)] assms(10)
    by (simp add: Result_defs object_truthy_def readStreamToEnd_truthy)
qed

definition example_read_response :: "js_string \<Rightarrow> ProtocolReadResponse" where
  "example_read_response p = \<lparr>ProtocolReadResponse.status = None, header = None, offset = Some (js ''0''),
     writeHead = None, fragment = None, fragmentUrl = None, content = Some (b64_encode (text_bytes p))\<rparr>"

lemma read_documents_end_to_end_witness:
  "await (fst (JournalClient_read example_journals example_read
       (\<lambda>_ _. Fulfilled (example_response 200 (text_bytes (lines_of value_text
          (map (\<lambda>m. result_frame (json_of_ProtocolReadResponse m))
            (map example_read_response [js ''{}'', [10, 91]])) @ [])))) example_world)) (\<lambda>res.
      await (settle (Result_unwrap object_truthy print_object res)) (\<lambda>st.
        readStreamToEnd js_truthy (parseJournalDocuments st))) = Fulfilled [JObj []]"
  by (rule read_documents_end_to_end [where ms = "map example_read_response [js ''{}'', [10, 91]]" and
        rest = "[]" and ps = "[js ''{}'', [10, 91]]" and tail = "[91]"],
      rule refl, simp add: example_defs, simp add: example_response_def, simp,
      simp_all add: response_carries_def example_read_response_def bom_free_def is_lead_unat is_trail_unat
        lines_of_def value_text_def)

text \<open>C4: The same while everything works at its own pace. In every run of the seven stages between the
  network and the documents (four of \<open>read\<close>, three of \<open>parseJournalDocuments\<close>) with
  \<open>readStreamToEnd\<close> as their consumer, the array holds a prefix of the documents at every moment; no
  run goes on for ever without new bytes; and once the body has closed, in every run that has come
  to rest the promise has become what \<open>readStreamToEnd\<close> says of the documents: all of them, if they
  are truthy.\<close>

theorem documents_collected:
  assumes "collect_reachable s" and "source (decoding (reading (documents s))) = Closed"
    and "concat (arrived (decoding (reading (documents s)))) = text_bytes (lines_of value_text
          (map (\<lambda>m. result_frame (json_of_ProtocolReadResponse m)) ms) @ rest)"
    and "10 \<notin> set rest" and "wf_utf16 rest" and "bom_free rest"
    and "list_all2 response_carries ms ps" and "concat ps = lines_of value_text docs @ tail"
    and "\<forall>d \<in> set docs. wf_json d" and "10 \<notin> set tail"
  shows "prefix (results s) docs
    \<and> wf {(r', r). collect_step r r'} \<and> (\<exists>r. collect_step\<^sup>*\<^sup>* s r \<and> (\<nexists>r'. collect_step r r'))
    \<and> (\<forall>r. collect_step\<^sup>*\<^sup>* s r \<and> (\<nexists>r'. collect_step r r') \<longrightarrow>
        resolution r = readStreamToEnd js_truthy \<lparr>chunks = docs, ending = Closed\<rparr>
        \<and> ((\<forall>d \<in> set docs. js_truthy d) \<longrightarrow> resolution r = Fulfilled docs))"
proof -
  let ?body = "body_so_far (reading (documents s))"
  have "?body = \<lparr>chunks = arrived (decoding (reading (documents s))), ending = Closed\<rparr>"
    using assms(2) by (simp add: body_so_far_def history_def)
  then have docs: "parseJournalDocuments (read_pipeline ?body) = \<lparr>chunks = docs, ending = Closed\<rparr>"
    using documents_of_frames [OF assms(3-10)] by simp
  have "resolution r = readStreamToEnd js_truthy \<lparr>chunks = docs, ending = Closed\<rparr>"
    if run: "collect_step\<^sup>*\<^sup>* s r" and rest: "\<nexists>r'. collect_step r r'" for r
  proof -
    have r: "collect_reachable r" and same: "body_so_far (reading (documents r)) = ?body"
      using collect_steps_reachable [OF run assms(1)] by auto
    then have "source (decoding (reading (documents r))) = Closed"
      using assms(2) by (simp add: body_so_far_def history_def)
    from collect_at_rest [OF r this rest] docs show ?thesis
      by (simp add: documents_so_far_def same)
  qed
  moreover have "readStreamToEnd js_truthy \<lparr>chunks = docs, ending = Closed\<rparr> = Fulfilled docs"
    if "\<forall>d \<in> set docs. js_truthy d"
    using that by (simp add: readStreamToEnd_truthy)
  ultimately show ?thesis
    using collected_prefix [OF assms(1)] collect_terminates collect_rests [of s] docs
    by (auto simp: documents_so_far_def)
qed

lemma example_collect_run:
  "\<exists>s. collect_reachable s \<and> source (decoding (reading (documents s))) = Closed
     \<and> arrived (decoding (reading (documents s))) = [bs]"
proof -
  have "\<exists>s. collect_reachable s \<and> source (decoding (reading (documents s))) = Open
      \<and> arrived (decoding (reading (documents s))) = [bs]"
    using collect_body [OF collect_starts arrive [of "decoding (reading (documents collect_init))" bs]]
    by (force simp: collect_init_def document_init_def read_init_def pipe_init_def)
  then obtain s where s: "collect_reachable s" "source (decoding (reading (documents s))) = Open"
    "arrived (decoding (reading (documents s))) = [bs]" by blast
  from collect_body [OF s(1) source_closes [OF s(2)]] s(3) show ?thesis by force
qed

lemma documents_collected_witness:
  "\<exists>s. collect_reachable s \<and> resolution s = Fulfilled [JObj []]"
proof -
  let ?ms = "map example_read_response [js ''{}'', [10, 91]]"
  obtain s where s: "collect_reachable s" "source (decoding (reading (documents s))) = Closed"
    "arrived (decoding (reading (documents s))) = [text_bytes (lines_of value_text
       (map (\<lambda>m. result_frame (json_of_ProtocolReadResponse m)) ?ms) @ [])]"
    using example_collect_run by blast
  have "(\<exists>r. collect_step\<^sup>*\<^sup>* s r \<and> (\<nexists>r'. collect_step r r'))
    \<and> (\<forall>r. collect_step\<^sup>*\<^sup>* s r \<and> (\<nexists>r'. collect_step r r') \<longrightarrow> resolution r = Fulfilled [JObj []])"
    using documents_collected [OF s(1,2), of ?ms "[]" "[js ''{}'', [10, 91]]" "[JObj []]" "[91]"] s(3)
    by (simp add: response_carries_def example_read_response_def bom_free_def is_lead_unat is_trail_unat
        lines_of_def value_text_def readStreamToEnd_def)
  then obtain r where r: "collect_step\<^sup>*\<^sup>* s r" "resolution r = Fulfilled [JObj []]" by blast
  with collect_steps_reachable [OF r(1) s(1)] show ?thesis by blast
qed

text \<open>C5: The same under the flow control of the Streams standard, where a stage holds one chunk it has
  not taken and transforms only for a reader that waits, and \<open>readStreamToEnd\<close> reads one chunk at a
  time. No stage ever has more than one chunk waiting, and all but the two that split text queue at most
  one chunk (two at the decoder, once the body has closed). Nothing is held back for ever: no run goes
  on without new bytes, and in a run at rest a promise that is pending has all documents that have
  arrived in its array; once the body has closed, it is settled as \<open>readStreamToEnd\<close> says of the documents.\<close>

theorem flow_control_holds_nothing_back:
  assumes "paced_reachable s" and "source (decoding (reading (documents s))) = en" and "en \<in> {Open, Closed}"
    and "concat (arrived (decoding (reading (documents s)))) = text_bytes (lines_of value_text
          (map (\<lambda>m. result_frame (json_of_ProtocolReadResponse m)) ms) @ rest)"
    and "10 \<notin> set rest" and "wf_utf16 rest" and "bom_free rest"
    and "list_all2 response_carries ms ps" and "concat ps = lines_of value_text docs @ tail"
    and "\<forall>d \<in> set docs. wf_json d" and "10 \<notin> set tail"
  shows "documents_hold (documents s) \<and> prefix (results s) docs
    \<and> wf {(r', r). paced_step r r'} \<and> (\<exists>r. paced_step\<^sup>*\<^sup>* s r \<and> (\<nexists>r'. paced_step r r'))
    \<and> (\<forall>r. paced_step\<^sup>*\<^sup>* s r \<and> (\<nexists>r'. paced_step r r') \<longrightarrow>
        (resolution r = Pending \<longrightarrow> en = Open \<and> results r = docs)
        \<and> (en = Closed \<longrightarrow> resolution r = readStreamToEnd js_truthy \<lparr>chunks = docs, ending = Closed\<rparr>))"
proof -
  have "body_so_far (reading (documents s)) = \<lparr>chunks = arrived (decoding (reading (documents s))), ending = en\<rparr>"
    using assms(2) by (simp add: body_so_far_def history_def)
  then have docs: "documents_so_far (documents s) = \<lparr>chunks = docs, ending = en\<rparr>"
    using documents_of_frames_at [OF assms(3-11)] by (simp add: documents_so_far_def)
  have "(resolution r = Pending \<longrightarrow> en = Open \<and> results r = docs)
      \<and> (en = Closed \<longrightarrow> resolution r = readStreamToEnd js_truthy \<lparr>chunks = docs, ending = Closed\<rparr>)"
    if run: "paced_step\<^sup>*\<^sup>* s r" and rest: "\<nexists>r'. paced_step r r'" for r
  proof -
    have r: "paced_reachable r" and same: "documents_so_far (documents r) = documents_so_far (documents s)"
      "source (decoding (reading (documents r))) = en"
      using paced_steps_reachable [OF run assms(1)] assms(2) by auto
    show ?thesis
      using paced_rest_pending [OF r rest] paced_rest_settled [OF r rest] docs same by auto
  qed
  then show ?thesis
    using paced_holds [OF assms(1)] collected_prefix [OF paced_collects [OF assms(1)]] docs
      paced_terminates terminates_rests [OF paced_terminates, of s] by auto
qed

lemma example_paced_run:
  "\<exists>s. paced_reachable s \<and> source (decoding (reading (documents s))) = Closed
     \<and> arrived (decoding (reading (documents s))) = [bs]"
proof -
  have "ttransform text_decoder_stream (tstart text_decoder_stream) bs
      = (fst (decode_chunk new_decoder bs), if snd (decode_chunk new_decoder bs) = [] then []
          else [snd (decode_chunk new_decoder bs)], None)"
    by (simp add: text_decoder_stream_def split: prod.split)
  then obtain s where "perform_all [Body (Arrives bs), Decode, Body (Ends Closed)] collect_init = Some s"
    "source (decoding (reading (documents s))) = Closed" "arrived (decoding (reading (documents s))) = [bs]"
    by (simp add: perform_def stage_takes asks_def body_move_def collect_init_def document_init_def
        read_init_def pipe_init_def)
  then show ?thesis unfolding paced_reachable_def by blast
qed

lemma flow_control_holds_nothing_back_witness:
  "\<exists>s. paced_reachable s \<and> resolution s = Fulfilled [JObj []]"
proof -
  let ?ms = "map example_read_response [js ''{}'', [10, 91]]"
  obtain s where s: "paced_reachable s" "source (decoding (reading (documents s))) = Closed"
    "arrived (decoding (reading (documents s))) = [text_bytes (lines_of value_text
       (map (\<lambda>m. result_frame (json_of_ProtocolReadResponse m)) ?ms) @ [])]"
    using example_paced_run by blast
  have "(\<exists>r. paced_step\<^sup>*\<^sup>* s r \<and> (\<nexists>r'. paced_step r r'))
    \<and> (\<forall>r. paced_step\<^sup>*\<^sup>* s r \<and> (\<nexists>r'. paced_step r r') \<longrightarrow> resolution r = Fulfilled [JObj []])"
    using flow_control_holds_nothing_back [OF s(1,2), of ?ms "[]" "[js ''{}'', [10, 91]]" "[JObj []]" "[91]"] s(3)
    by (simp add: response_carries_def example_read_response_def bom_free_def is_lead_unat is_trail_unat
        lines_of_def value_text_def readStreamToEnd_def)
  then obtain r where r: "paced_step\<^sup>*\<^sup>* s r" "resolution r = Fulfilled [JObj []]" by blast
  with paced_steps_reachable [OF r(1) s(1)] show ?thesis by blast
qed

lemma example_standstill:
  "\<exists>ms r. perform_all ms collect_init = Some r \<and> stalled r \<and> resolution r = Fulfilled []
     \<and> source (decoding (reading (documents r))) = Open"
proof -
  let ?m = "json_of_ProtocolReadResponse (example_read_response (js ''null'' @ [10]))"
  let ?v = "result_frame ?m"
  let ?l = "value_text ?v"
  let ?t = "lines_of value_text (replicate 6 ?v)"
  have v: "wf_json ?v" by (simp add: wf_json_of_Broker_Types_ProtocolReadResponse)
  have "wf_utf16 ?t" "bom_free ?t"
    using wf_utf16_lines [of "replicate 6 ?v" "[]"] bom_free_lines [of "replicate 6 ?v" "[]"] v
    by (simp_all add: bom_free_def)
  then obtain seen where "decode_chunk new_decoder (text_bytes ?t) = (\<lparr>dec_utf8 = utf8_init, bom_seen = seen\<rparr>, ?t)"
    using decode_text_bytes by blast
  then have a: "ttransform text_decoder_stream (tstart text_decoder_stream) (text_bytes ?t)
      = (\<lparr>dec_utf8 = utf8_init, bom_seen = seen\<rparr>, [?t], None)"
    by (simp add: text_decoder_stream_def lines_of_def numeral_eq_Suc)
  have b: "ttransform text_decoder_stream \<lparr>dec_utf8 = utf8_init, bom_seen = seen\<rparr> (text_bytes [10])
      = (\<lparr>dec_utf8 = utf8_init, bom_seen = True\<rparr>, [[10]], None)"
    using utf16_unit [of 10]
    by (simp add: text_decoder_stream_def decode_chunk_def text_bytes_run is_lead_unat is_trail_unat)
  have "split_on [10] (?t @ []) = replicate 6 (value_text ?v) @ [[]]"
    using json_lines.split_lines_of [of "replicate 6 ?v" "[]"] v by simp
  then have c: "ttransform (splitStream newline) (tstart (splitStream newline)) ?t
      = (Some [], [?l, ?l, ?l, ?l, ?l, ?l], None)"
    by (simp add: splitStream_def split_transform_feed split_feed_def newline_def butlast_append numeral_eq_Suc)
  have parses: "ttransform parseJSONStream u (value_text w) = (u, [w], None)" if "wf_json w" for u w
    using json_lines.dec_enc [OF that] by (simp add: parseJSONStream_def json_or_skip_def split: sum.splits)
  have e: "ttransform unwrapResult u ?v = (u, [?m], None)" for u
    by (simp add: unwrapResult_def del: js_Cons)
  have "carries ?m (js ''null'' @ [10])"
    by (rule response_carries_carries)
      (simp add: response_carries_def example_read_response_def bom_free_def is_lead_unat is_trail_unat)
  from decode_message_carries [OF this] have f: "ttransform decodeContent u ?m = (u, [js ''null'' @ [10]], None)" for u
    by (simp add: decodeContent_def)
  have "split_on [10] (lines_of value_text [JNull] @ []) = map value_text [JNull] @ [[]]"
    by (rule json_lines.split_lines_of) simp_all
  then have g: "ttransform (splitStream newline) (tstart (splitStream newline)) (js ''null'' @ [10])
      = (tstart (splitStream newline), [value_text JNull], None)"
    by (simp add: splitStream_def split_transform_feed split_feed_def newline_def lines_of_def value_text_def)
  show ?thesis
    using standstill_run [OF a b c parses [OF v] e f g parses, of "[]"] by (auto simp del: js_Cons)
qed

text \<open>C6: \<open>readStreamToEnd\<close> resolves at the first falsy document and leaves the rest where it is: after
  that no run changes the promise or its array, nothing more is read, and the last stage is passed at
  most one more chunk and takes none. So a run can come to a standstill: after one body chunk with six
  documents \<open>null\<close> and two more chunks, the promise is fulfilled with an empty array, the body is
  still open, and neither a stage nor the body can ever move again.\<close>

theorem early_stop_stalls:
  "(resolution s \<noteq> Pending \<and> perform_all ms s = Some r \<longrightarrow>
      resolution r = resolution s \<and> results r = results s \<and>
      takes_no_more (parsing_docs (documents s)) (parsing_docs (documents r)))
   \<and> (stalled r \<longrightarrow> perform m r = None)
   \<and> (\<exists>ms r. perform_all ms collect_init = Some r \<and> stalled r \<and> resolution r = Fulfilled []
        \<and> source (decoding (reading (documents r))) = Open)"
  using settled_perform_all [of ms s r] stalled_for_ever [of r m] example_standstill by blast

lemma early_stop_stalls_witness:
  "\<exists>r. paced_reachable r \<and> resolution r = Fulfilled [] \<and> (\<forall>m. perform m r = None)"
proof -
  obtain ms r where r: "perform_all ms collect_init = Some r" "stalled r" "resolution r = Fulfilled []"
    using early_stop_stalls by blast
  then have "perform m r = None" for m using early_stop_stalls by blast
  with r show ?thesis unfolding paced_reachable_def by blast
qed

definition example_content :: "byte list \<Rightarrow> jsval" where
  "example_content bs = JObj [(js ''content'', JStr (b64_encode bs))]"

definition example_message :: "js_string \<Rightarrow> jsval" where
  "example_message p = example_content (text_bytes p)"

lemma example_content_holds: "holds_bytes (example_content bs) bs"
  by (simp add: holds_bytes_def example_content_def prop_value_def del: js_Cons)

lemma example_message_carries: "wf_utf16 p \<Longrightarrow> bom_free p \<Longrightarrow> carries (example_message p) p"
  by (simp add: carries_holds example_message_def example_content_holds)

text \<open>C7: \<open>parseJournalDocuments\<close> sees of its input only what each message decodes to on its own: it
  delivers the values on the whole lines of these texts, one behind the other, and ends as its input
  does. So when the text of the documents was cut into messages between characters, and no piece
  begins with a byte order mark (U+FEFF), the documents arrive wherever the cuts are.\<close>

theorem documents_from_pieces:
  assumes "list_all2 holds_bytes (chunks st) bss"
  shows "parseJournalDocuments st = \<lparr>chunks = text_values (concat (map text_decode bss)), ending = ending st\<rparr>
    \<and> (\<forall>ps docs rest. bss = map text_bytes ps \<and> (\<forall>p \<in> set ps. wf_utf16 p \<and> bom_free p)
        \<and> concat ps = lines_of value_text docs @ rest \<and> (\<forall>d \<in> set docs. wf_json d) \<and> 10 \<notin> set rest \<longrightarrow>
        parseJournalDocuments st = \<lparr>chunks = docs, ending = ending st\<rparr>)"
proof (intro conjI allI impI)
  show all: "parseJournalDocuments st = \<lparr>chunks = text_values (concat (map text_decode bss)), ending = ending st\<rparr>"
    by (rule parseJournalDocuments_bytes [OF assms])
  fix ps docs rest
  assume *: "bss = map text_bytes ps \<and> (\<forall>p \<in> set ps. wf_utf16 p \<and> bom_free p)
    \<and> concat ps = lines_of value_text docs @ rest \<and> (\<forall>d \<in> set docs. wf_json d) \<and> 10 \<notin> set rest"
  then have "concat (map text_decode bss) = lines_of value_text docs @ rest"
    using decoded_pieces [of ps] by (metis (no_types, lifting))
  with all * show "parseJournalDocuments st = \<lparr>chunks = docs, ending = ending st\<rparr>"
    by (simp add: text_values_lines)
qed

lemma documents_from_pieces_witness:
  "parseJournalDocuments \<lparr>chunks = map example_message [js ''tr'', js ''ue'', [10]], ending = Open\<rparr>
     = \<lparr>chunks = [JBool True], ending = Open\<rparr>"
  using documents_from_pieces [of "\<lparr>chunks = map example_message [js ''tr'', js ''ue'', [10]], ending = Open\<rparr>"
      "map text_bytes [js ''tr'', js ''ue'', [10]]",
      THEN conjunct2, THEN spec [of _ "[js ''tr'', js ''ue'', [10]]"], THEN spec [of _ "[JBool True]"], THEN spec [of _ "[]"]]
  by (simp add: example_content_holds example_message_def bom_free_def is_lead_unat is_trail_unat lines_of_def
      value_text_def)

text \<open>C8: Documents that are integers of 64 bits, signed or not, as a server writes them, arrive as the
  doubles nearest to them, with ties to even. Below \<open>2^53\<close> they are exact. Above, every odd integer
  arrives as another integer, an even one, and cannot be told from that one.\<close>

theorem integer_documents_rounded:
  assumes "list_all2 carries (chunks st) ps" and "concat ps = lines_of int_text ns @ rest"
    and "10 \<notin> set rest" and "\<forall>n \<in> set ns. \<bar>n\<bar> < 2 ^ 64"
  shows "parseJournalDocuments st = \<lparr>chunks = map (\<lambda>n. JNum (to_double (mk_dec n 0))) ns, ending = ending st\<rparr>
    \<and> (\<forall>n \<in> set ns. is_double (to_double (mk_dec n 0))
        \<and> nearest (n * 2 ^ unit_exponent) 1 (num_units (to_double (mk_dec n 0)))
        \<and> (\<bar>n\<bar> < 2 ^ 53 \<longrightarrow> to_double (mk_dec n 0) = mk_dec n 0)
        \<and> (odd n \<and> 2 ^ 53 < \<bar>n\<bar> \<longrightarrow> (\<exists>n'. even n' \<and> num_units (to_double (mk_dec n 0)) = n' * 2 ^ unit_exponent
            \<and> to_double (mk_dec n' 0) = to_double (mk_dec n 0))))"
proof (intro conjI ballI)
  show "parseJournalDocuments st = \<lparr>chunks = map (\<lambda>n. JNum (to_double (mk_dec n 0))) ns, ending = ending st\<rparr>"
    by (simp add: parseJournalDocuments_text [OF assms(1)] assms(2) text_values_ints [OF assms(3)])
  fix n assume "n \<in> set ns"
  then have n: "\<bar>n\<bar> \<le> 2 ^ 64" using assms(4) by (simp add: order_less_imp_le)
  then show "is_double (to_double (mk_dec n 0))"
    by (intro to_double_is_double mk_dec_is_canonical allI integer_finite)
  from n show "nearest (n * 2 ^ unit_exponent) 1 (num_units (to_double (mk_dec n 0)))" by (rule double_of_nearest)
  show "\<bar>n\<bar> < 2 ^ 53 \<longrightarrow> to_double (mk_dec n 0) = mk_dec n 0" using double_of_exact by blast
  show "odd n \<and> 2 ^ 53 < \<bar>n\<bar> \<longrightarrow> (\<exists>n'. even n' \<and> num_units (to_double (mk_dec n 0)) = n' * 2 ^ unit_exponent
      \<and> to_double (mk_dec n' 0) = to_double (mk_dec n 0))"
    using double_of_odd n by blast
qed

lemma integer_documents_rounded_witness:
  "\<exists>d n'. parseJournalDocuments \<lparr>chunks = [example_message (js ''18446744073709551615'' @ 10 # js ''7'' @ [10])],
       ending = Closed\<rparr> = \<lparr>chunks = [JNum d, JNum (Dec 7 0)], ending = Closed\<rparr>
     \<and> nearest (18446744073709551615 * 2 ^ unit_exponent) 1 (num_units d)
     \<and> even n' \<and> to_double (mk_dec n' 0) = d"
proof -
  let ?t = "js ''18446744073709551615'' @ 10 # js ''7'' @ [10]"
  have digits: "lines_of int_text [18446744073709551615, 7] = ?t"
    by (simp add: lines_of_def int_text_def nat_digits.simps)
  have "tame ?t" by (simp add: tame_def)
  then have "carries (example_message ?t) ?t"
    by (intro example_message_carries wf_utf16_tame) (simp_all add: bom_free_def)
  then have "list_all2 carries [example_message ?t] [?t]" by (simp del: js_Cons)
  with integer_documents_rounded [of "\<lparr>chunks = [example_message ?t], ending = Closed\<rparr>" "[?t]"
      "[18446744073709551615, 7]" "[]"] digits
  show ?thesis by (auto simp: mk_dec.simps [of 7])
qed

text \<open>C9: A read that starts in the middle of a record loses that record only. The record is a JSON
  object, and the read starts anywhere behind its first byte, also inside of a character (\<open>cp\<close>, of which
  \<open>i\<close> bytes come before the start): what is left of the object is never JSON itself, so exactly the
  documents behind it arrive. (The rest of a record that is not an object, such as a number, may be JSON.)
  The messages behind the first are cut between characters, as above.\<close>

theorem documents_from_middle:
  assumes "chunks st = v # vs" and "list_all2 carries vs ps"
    and "holds_bytes v (drop i (map word_of_nat (utf8_bytes cp)) @ text_bytes p)"
    and "scalar cp" and "0 < i" and "i \<le> length (utf8_bytes cp)" and "wf_utf16 p"
    and "wf_json (JObj kvs)" and "value_text (JObj kvs) = begun @ utf16 cp @ torn"
    and "p @ concat ps = torn @ 10 # lines_of value_text docs @ rest"
    and "\<forall>d \<in> set docs. wf_json d" and "10 \<notin> set rest"
  shows "parseJournalDocuments st = \<lparr>chunks = docs, ending = ending st\<rparr>"
  using assms by (rule parseJournalDocuments_torn)

lemma documents_from_middle_witness:
  "parseJournalDocuments \<lparr>chunks = [example_content (0xA9 # text_bytes (js ''{}'')), example_message (js ''\"}'' @ 10 # js ''{}''),
       example_message [10]], ending = Closed\<rparr>
     = \<lparr>chunks = [JObj []], ending = Closed\<rparr>"
proof -
  let ?ps = "[js ''\"}'' @ 10 # js ''{}'', [10]]"
  have "list_all2 carries (map example_message ?ps) ?ps"
    by (simp add: example_message_carries bom_free_def is_lead_unat is_trail_unat)
  then show ?thesis
    using documents_from_middle [of "\<lparr>chunks = example_content (0xA9 # text_bytes (js ''{}'')) # map example_message ?ps,
        ending = Closed\<rparr>" "example_content (0xA9 # text_bytes (js ''{}''))" "map example_message ?ps" ?ps 1 "0xE9" "js ''{}''"
        "[(js ''k'', JStr (0xE9 # js ''{}''))]" "js ''{\"k\":\"''" "js ''{}\"}''" "[JObj []]" "[]"]
    by (simp add: example_content_holds lines_of_def value_text_def json_quote_def quote_unit_def is_lead_unat
        is_trail_unat utf8_bytes_def utf16_def scalar_def)
qed

section \<open>The stages\<close>

text \<open>C10: For a separator that is not empty, \<open>splitStream\<close> computes a function of the text alone:
  it emits every part of the concatenated chunks but the last, which is dropped when the stream
  closes, and the parts emitted, each followed by the separator, are the text up to that last part.
  A part never contains a separator of one code unit.\<close>

theorem splitStream_computes_lines:
  assumes "sep \<noteq> []"
  shows "pipeThrough st (splitStream sep)
      = \<lparr>chunks = butlast (js_split (concat (chunks st)) sep), ending = ending st\<rparr>
    \<and> concat (map (\<lambda>p. p @ sep) (chunks (pipeThrough st (splitStream sep))))
        @ last (js_split (concat (chunks st)) sep) = concat (chunks st)
    \<and> (length sep = 1 \<longrightarrow> (\<forall>p \<in> set (chunks (pipeThrough st (splitStream sep))). hd sep \<notin> set p))"
proof (intro conjI impI ballI)
  show st: "pipeThrough st (splitStream sep)
      = \<lparr>chunks = butlast (js_split (concat (chunks st)) sep), ending = ending st\<rparr>"
    using splitStream_chunks [OF assms, of st] splitStream_ending [OF assms, of st] assms
    by (cases "pipeThrough st (splitStream sep)") (simp add: js_split_def)
  show "concat (map (\<lambda>p. p @ sep) (chunks (pipeThrough st (splitStream sep))))
        @ last (js_split (concat (chunks st)) sep) = concat (chunks st)"
    using js_join_snoc [of sep "butlast (split_on sep (concat (chunks st)))"
        "last (split_on sep (concat (chunks st)))"] split_on_join [of sep "concat (chunks st)"] assms
    by (simp add: st js_split_def)
  fix p assume "length sep = 1" and p: "p \<in> set (chunks (pipeThrough st (splitStream sep)))"
  then obtain c where c: "sep = [c]" by (auto simp: length_Suc_conv)
  have "p \<in> set (split_on sep (concat (chunks st)))"
    using p assms by (auto simp: st js_split_def dest: in_set_butlastD)
  with c show "hd sep \<notin> set p" by (simp add: split_on_unit_notin)
qed

lemma splitStream_computes_lines_witness:
  "chunks (pipeThrough \<lparr>chunks = [js ''a'', [10] @ js ''b'', [10]], ending = Closed\<rparr> (splitStream [10]))
     = [js ''a'', js ''b'']"
  by (simp add: splitStream_computes_lines js_split_def)

text \<open>C11: Under every interleaving of arriving chunks, callbacks and reads, the consumer of
  \<open>splitStream\<close> has read a prefix of the complete records that have arrived; once the stage has
  closed and its queue is empty, it has read all of them.\<close>

theorem splitStream_any_interleaving:
  assumes "sep \<noteq> []" and "pipe_reachable (splitStream sep) p"
  shows "prefix (delivered p) (butlast (js_split (concat (arrived p)) sep))
    \<and> (outcome p = Closed \<and> queue p = [] \<longrightarrow> delivered p = butlast (js_split (concat (arrived p)) sep))"
  using delivered_prefix [OF assms(2)] delivered_when_closed [OF assms(2)]
    splitStream_chunks [OF assms(1), of "history p"] assms(1)
  by (auto simp: history_def js_split_def)

lemma example_run:
  "pipe_reachable (splitStream [10])
     \<lparr>arrived = [js ''a'' @ [10], js ''b''], pending = [js ''b''], source = Closed, tstate = Some [],
      queue = [], outcome = Open, delivered = [js ''a'']\<rparr>"
proof -
  let ?T = "splitStream [10]"
  let ?p = "\<lambda>pend src q d. \<lparr>arrived = [js ''a'' @ [10], js ''b''], pending = pend, source = src,
      tstate = Some [], queue = q, outcome = Open, delivered = d\<rparr>"
  have "pipe_reachable ?T \<lparr>arrived = [js ''a'' @ [10]], pending = [js ''a'' @ [10]], source = Open,
      tstate = Some [], queue = [], outcome = Open, delivered = []\<rparr>"
    using by_env [OF initially arrive [of "pipe_init ?T" "js ''a'' @ [10]"]]
    by (simp add: pipe_init_def splitStream_def)
  from by_env [OF this arrive [of _ "js ''b''"]]
  have "pipe_reachable ?T (?p [js ''a'' @ [10], js ''b''] Open [] [])" by simp
  from by_work [OF this transform_returns [of _ "js ''a'' @ [10]" "[js ''b'']" ?T "Some []" "[js ''a'']"]]
  have "pipe_reachable ?T (?p [js ''b''] Open [js ''a''] [])"
    by (simp add: splitStream_def split_transform_def queueLines_def js_split_def)
  from by_work [OF this deliver [of _ "js ''a''" "[]"]]
  have "pipe_reachable ?T (?p [js ''b''] Open [] [js ''a''])" by simp
  from by_env [OF this source_closes] show ?thesis by simp
qed

lemma splitStream_any_interleaving_witness:
  "prefix [js ''a''] (butlast (js_split (concat [js ''a'' @ [10], js ''b'']) [10]))"
  using splitStream_any_interleaving [OF _ example_run] by simp

text \<open>Once its source has closed, \<open>splitStream\<close> and its consumer come to rest after finitely many
  steps, and in whatever order they took them, the stage has closed without an error and the
  consumer has read all complete records.\<close>

lemma splitStream_drains:
  assumes "sep \<noteq> []" and "pipe_reachable (splitStream sep) p" and "source p = Closed"
  shows "wf {(q', q). work_step (splitStream sep) q q'}
    \<and> (\<exists>q. (work_step (splitStream sep))\<^sup>*\<^sup>* p q \<and> (\<nexists>q'. work_step (splitStream sep) q q'))
    \<and> (\<forall>q. (work_step (splitStream sep))\<^sup>*\<^sup>* p q \<and> (\<nexists>q'. work_step (splitStream sep) q q') \<longrightarrow>
      outcome q = Closed \<and> delivered q = butlast (js_split (concat (arrived p)) sep))"
proof (intro conjI allI impI)
  show "wf {(q', q). work_step (splitStream sep) q q'}" by (rule work_terminates)
  show "\<exists>q. (work_step (splitStream sep))\<^sup>*\<^sup>* p q \<and> (\<nexists>q'. work_step (splitStream sep) q q')"
    by (rule work_rests)
  fix q assume run: "(work_step (splitStream sep))\<^sup>*\<^sup>* p q \<and> (\<nexists>q'. work_step (splitStream sep) q q')"
  obtain c cs where "sep = c # cs" using assms(1) by (cases sep) auto
  then show "outcome q = Closed" and "delivered q = butlast (js_split (concat (arrived p)) sep)"
    using split_stage.drained [of c cs p q] assms run
    by (simp_all add: splitStream_chunks js_split_def)
qed

lemma splitStream_drains_witness:
  "\<exists>q. (work_step (splitStream [10]))\<^sup>*\<^sup>*
     \<lparr>arrived = [js ''a'' @ [10], js ''b''], pending = [js ''b''], source = Closed, tstate = Some [],
      queue = [], outcome = Open, delivered = [js ''a'']\<rparr> q
    \<and> outcome q = Closed \<and> delivered q = [js ''a'']"
  using splitStream_drains [OF _ example_run] by (fastforce simp: js_split_def)

text \<open>What \<open>read\<close> has put out by some moment is a prefix of what it will have put out at any
  later moment, also when the bytes were cut inside a character or a record, and also when the
  body fails in the end.\<close>

lemma read_output_only_grows:
  "prefix (chunks (read_pipeline \<lparr>chunks = cs, ending = Open\<rparr>))
    (chunks (read_pipeline \<lparr>chunks = cs @ ds, ending = en\<rparr>))"
  by (rule read_pipeline_grows)

text \<open>C12: \<open>decodeContent\<close> gives back the text of every message: Base64 and UTF-8 are undone exactly,
  messages without content or with empty content emit nothing, and the stage never fails on them.\<close>

theorem decodeContent_exact:
  assumes "list_all2 carries (chunks st) ps"
  shows "pipeThrough st decodeContent = \<lparr>chunks = filter (\<lambda>p. p \<noteq> []) ps, ending = ending st\<rparr>"
  using assms by (rule decodeContent_carries)

lemma decodeContent_exact_witness:
  "pipeThrough \<lparr>chunks = [example_message [0x20AC], JObj [], example_message (js ''x'')], ending = Closed\<rparr> decodeContent
     = \<lparr>chunks = [[0x20AC], js ''x''], ending = Closed\<rparr>"
  using decodeContent_exact [of "\<lparr>chunks = [example_message [0x20AC], JObj [], example_message (js ''x'')], ending = Closed\<rparr>"
      "[[0x20AC], [], js ''x'']"]
  by (simp add: example_message_carries bom_free_def is_lead_unat is_trail_unat)
    (simp add: carries_def bom_free_def prop_value_def)

text \<open>C13: The decoder of a message starts afresh, so a character whose bytes are divided between two
  messages is not restored, wherever it is divided: its first bytes read as one replacement character,
  each of the others as one more, and the text around it is kept. In one message the same bytes are the text.\<close>

theorem decodeContent_splits_characters:
  assumes "scalar cp" and "0 < i" and "i < length (utf8_bytes cp)"
    and "wf_utf16 p" and "wf_utf16 q" and "bom_free (p @ utf16 cp @ q)"
    and "holds_bytes v (text_bytes p @ take i (map word_of_nat (utf8_bytes cp)))"
    and "holds_bytes w (drop i (map word_of_nat (utf8_bytes cp)) @ text_bytes q)"
    and "holds_bytes u (text_bytes p @ map word_of_nat (utf8_bytes cp) @ text_bytes q)"
  shows "pipeThrough \<lparr>chunks = [v, w], ending = en\<rparr> decodeContent
      = \<lparr>chunks = [p @ [0xFFFD], replicate (length (utf8_bytes cp) - i) 0xFFFD @ q], ending = en\<rparr>
    \<and> pipeThrough \<lparr>chunks = [u], ending = en\<rparr> decodeContent = \<lparr>chunks = [p @ utf16 cp @ q], ending = en\<rparr>"
proof -
  let ?cp = "map word_of_nat (utf8_bytes cp) :: byte list"
  have "bom_free p" using assms(6) by (cases p) (simp_all add: bom_free_def)
  then have first: "text_decode (text_bytes p @ take i ?cp) = p @ [0xFFFD]"
    by (rule text_decode_first [OF assms(1-4)])
  have "?cp \<noteq> []" "take i ?cp \<noteq> []" "drop i ?cp \<noteq> []" using assms(2,3) by auto
  then show ?thesis
    using first text_decode_last [OF assms(1-3,5)] text_decode_whole [OF assms(1,4-6)]
      decodeContent_holds [of "\<lparr>chunks = [v, w], ending = en\<rparr>" "[text_bytes p @ take i ?cp, drop i ?cp @ text_bytes q]"]
      decodeContent_holds [of "\<lparr>chunks = [u], ending = en\<rparr>" "[text_bytes p @ ?cp @ text_bytes q]"] assms(7-9)
    by simp
qed

lemma decodeContent_splits_characters_witness:
  "pipeThrough \<lparr>chunks = [example_content [120, 0xE2, 0x82], example_content [0xAC, 121]], ending = Closed\<rparr> decodeContent
     = \<lparr>chunks = [[120, 0xFFFD], [0xFFFD, 121]], ending = Closed\<rparr>"
  using decodeContent_splits_characters [of "0x20AC" 2 "[120]" "[121]" "example_content [120, 0xE2, 0x82]"
      "example_content [0xAC, 121]" "example_content [120, 0xE2, 0x82, 0xAC, 121]" Closed]
  by (simp add: example_content_holds text_bytes_def utf8_encode_def utf8_bytes_def scalar_def bom_free_def
      is_lead_unat is_trail_unat)

text \<open>The loop that fills the \<open>Uint8Array\<close> ends, and leaves in it the low byte of every code unit
  of the binary string.\<close>

lemma copy_bytes_fills_array:
  "copy_bytes binary (replicate (length binary) 0) 0 = map ucast binary"
  by (simp add: copy_bytes_map)

text \<open>C14: Decoding a message is bounded by its content: the binary string has at most three code units
  for four characters of Base64, each at most 255, so that the \<open>Uint8Array\<close> holds it without a loss,
  and the text that is enqueued has no more code units than there are bytes, whatever the bytes
  are. An empty content enqueues nothing.\<close>

theorem decodeContent_bounds:
  assumes "js_get v (js ''content'') = Inr (JStr s)" and "decode_message v = Inr texts"
  shows "s = [] \<and> texts = [] \<or> (\<exists>binary text. atob s = Inr binary \<and> texts = [text]
    \<and> (\<forall>c \<in> set binary. unat c \<le> 255)
    \<and> map unat (copy_bytes binary (replicate (length binary) 0) 0) = map unat binary
    \<and> 4 * length binary \<le> 3 * length s \<and> length text \<le> length binary)"
proof (cases "s = []")
  case False
  then obtain binary where b: "atob s = Inr binary"
    and t: "texts = [text_decode (copy_bytes binary (replicate (length binary) 0) 0)]"
    using assms decode_message_string [OF assms(1)]
    by (auto simp: decode_base64_text_def bindC_Inr_iff simp del: js_Cons)
  have copy: "copy_bytes binary (replicate (length binary) 0) 0 = map (\<lambda>c. word_of_nat (unat c)) binary"
    by (simp add: copy_bytes_map)
  have small: "unat c < 256" if "c \<in> set binary" for c
    by (rule atob_units [OF b that])
  then have "map unat (copy_bytes binary (replicate (length binary) 0) 0) = map unat binary"
    unfolding copy by (simp add: unsigned_ucast_eq take_bit_nat_eq_self)
  moreover have "length (text_decode (copy_bytes binary (replicate (length binary) 0) 0)) \<le> length binary"
    using text_decode_length [of "copy_bytes binary (replicate (length binary) 0) 0"] by (simp add: copy)
  ultimately show ?thesis
    using b t atob_length [OF b] small by (fastforce simp: less_Suc_eq_le)
qed (use assms decode_message_string [OF assms(1)] in simp)

lemma decodeContent_bounds_witness:
  "\<exists>binary text. atob (b64_encode (text_bytes [0xE9])) = Inr binary \<and> [[0xE9 :: code_unit]] = [text]
    \<and> 4 * length binary \<le> 3 * length (b64_encode (text_bytes [0xE9])) \<and> length text \<le> length binary"
proof -
  have "carries (example_message [0xE9]) [0xE9]"
    by (rule example_message_carries) (simp_all add: bom_free_def is_lead_unat is_trail_unat)
  then have texts: "decode_message (example_message [0xE9]) = Inr [[0xE9]]"
    by (simp add: decode_message_carries)
  have content: "js_get (example_message [0xE9]) (js ''content'') = Inr (JStr (b64_encode (text_bytes [0xE9])))"
    by (simp add: example_message_def example_content_def prop_value_def del: js_Cons)
  from decodeContent_bounds [OF content texts] show ?thesis
    by (rule disjE) (simp, elim exE conjE, intro exI conjI, assumption+)
qed

text \<open>\<open>parseJSONStream\<close> keeps every chunk that is the JSON text of a value, in order, skips every
  chunk that is not JSON, and never fails.\<close>

lemma parseJSONStream_skips_junk:
  assumes "\<forall>j. Inl j \<in> set xs \<longrightarrow> json_parse j = Inl SyntaxError" and "\<forall>v. Inr v \<in> set xs \<longrightarrow> wf_json v"
  shows "pipeThrough \<lparr>chunks = map (case_sum id value_text) xs, ending = en\<rparr> parseJSONStream
    = \<lparr>chunks = concat (map (case_sum (\<lambda>_. []) (\<lambda>v. [v])) xs), ending = en\<rparr>"
proof -
  have "json_or_skip (case_sum id value_text x) = case_sum (\<lambda>_. []) (\<lambda>v. [v]) x" if x: "x \<in> set xs" for x
  proof (cases x)
    case (Inl j)
    with x assms(1) show ?thesis by (simp add: json_or_skip_def)
  next
    case (Inr v)
    with x assms(2) show ?thesis by (simp add: json_lines.dec_enc)
  qed
  then have "map (\<lambda>x. json_or_skip (case_sum id value_text x)) xs = map (case_sum (\<lambda>_. []) (\<lambda>v. [v])) xs"
    by simp
  then show ?thesis by (simp only: parseJSONStream_pipe stream.select_convs map_map o_def)
qed

lemma example_torn: "json_parse (js '']}'') = Inl SyntaxError"
  by code_simp

lemma parseJSONStream_skips_junk_witness:
  "pipeThrough \<lparr>chunks = map (case_sum id value_text) [Inl (js '']}''), Inr (JBool False)], ending = Open\<rparr> parseJSONStream
    = \<lparr>chunks = concat (map (case_sum (\<lambda>_. []) (\<lambda>v. [v])) [Inl (js '']}''), Inr (JBool False)]), ending = Open\<rparr>"
  by (rule parseJSONStream_skips_junk) (auto simp: example_torn simp del: js_Cons js_Nil)

text \<open>\<open>readStreamToEnd\<close> resolves to all values of a closed stream if they are truthy, and rejects
  with the stream's error; but the first falsy value ends it, and the values from there on are lost
  without an error.\<close>

lemma readStreamToEnd_result:
  "readStreamToEnd truthy st =
     (if list_all truthy (chunks st) then
        (case ending st of Open \<Rightarrow> Pending | Closed \<Rightarrow> Fulfilled (chunks st) | Errored e \<Rightarrow> Rejected e)
      else Fulfilled (takeWhile truthy (chunks st)))"
proof (cases "list_all truthy (chunks st)")
  case True
  then show ?thesis by (simp add: readStreamToEnd_def pump_truthy list_all_iff split: ending.split)
next
  case False
  then obtain v where "dropWhile truthy (chunks st) = v # tl (dropWhile truthy (chunks st))" and "\<not> truthy v"
    by (metis dropWhile_eq_Nil_conv hd_dropWhile list.collapse list_all_iff)
  then have "chunks st = takeWhile truthy (chunks st) @ v # tl (dropWhile truthy (chunks st))"
    by (metis takeWhile_dropWhile_id)
  then have "readStreamToEnd truthy st = Fulfilled (takeWhile truthy (chunks st))"
    using pump_stops [of "takeWhile truthy (chunks st)" truthy v "[]"] \<open>\<not> truthy v\<close>
    unfolding readStreamToEnd_def by (metis append_Nil set_takeWhileD)
  with False show ?thesis by simp
qed

section \<open>Listing journals and shards\<close>

text \<open>C15: \<open>JournalClient.list\<close> answers a successful typed response with the specifications of its
  journals, in order, however the response was cut into chunks and whatever was requested.\<close>

theorem list_journals_success:
  assumes "valid_arguments inc exc w"
    and "net (fetched w) (list_request (journal_list_url self) (JournalClient.authToken self) inc exc w) = Fulfilled r"
    and "json_response s (json_of_ProtocolListResponse resp) r" and "200 \<le> s" "s \<le> 299"
    and "ProtocolListResponse.journals resp = Some jls"
    and "\<And>j. j \<in> set jls \<Longrightarrow> ListResponseJournal.spec j \<noteq> None"
  shows "fst (JournalClient_list self inc exc net w) = Fulfilled (Result_Ok
    (map (\<lambda>j. json_of_ProtocolJournalSpec (the (ListResponseJournal.spec j))) jls))"
  by (rule journal_list.success [where net = net and w = w, OF assms(1-5)
        wf_json_of_Broker_Types_ProtocolListResponse journal_specs_typed [OF assms(6,7)]])

definition example_spec :: ProtocolJournalSpec where
  "example_spec = \<lparr>ProtocolJournalSpec.name = Some (js ''acme/anvils''), replication = Some 3, labels = None,
     fragment = None, flags = None, maxAppendRate = None\<rparr>"

definition example_list_response :: ProtocolListResponse where
  "example_list_response = \<lparr>ProtocolListResponse.status = None, header = None,
     journals = Some [\<lparr>ListResponseJournal.spec = Some example_spec, modRevision = None, route = None\<rparr>]\<rparr>"

lemma example_json_response: "json_response s v (example_response s (text_bytes (value_text v)))"
  by (simp add: json_response_def example_response_def)

lemma list_journals_success_witness:
  "fst (JournalClient_list example_journals None None
     (\<lambda>_ _. Fulfilled (example_response 200 (text_bytes (value_text
        (json_of_ProtocolListResponse example_list_response))))) example_world)
   = Fulfilled (Result_Ok [json_of_ProtocolJournalSpec example_spec])"
  using list_journals_success [of None None example_world
      "\<lambda>_ _. Fulfilled (example_response 200 (text_bytes (value_text
        (json_of_ProtocolListResponse example_list_response))))" example_journals
      "example_response 200 (text_bytes (value_text (json_of_ProtocolListResponse example_list_response)))"
      200 example_list_response
      "[\<lparr>ListResponseJournal.spec = Some example_spec, modRevision = None, route = None\<rparr>]"]
  by (simp add: example_json_response valid_arguments_def valid_argument_def)
    (simp add: example_list_response_def)

text \<open>C16: \<open>JournalClient.list\<close> makes exactly one request: a \<open>POST\<close> to \<open>v1/journals/list\<close> with
  the bearer token, and with a body from which the server parses the typed list request that holds
  the two label sets.\<close>

theorem list_journals_request:
  assumes "valid_arguments inc exc w"
  shows "\<exists>rq t. fetched (snd (JournalClient_list self inc exc net w)) = fetched w @ [rq]
    \<and> request_method rq = js ''POST''
    \<and> request_url rq = href (JournalClient.baseUrl self) @ js ''v1/journals/list''
    \<and> (js ''Authorization'', js ''Bearer '' @ JournalClient.authToken self) \<in> set (headers rq)
    \<and> request_body rq = Some t
    \<and> json_parse (text_decode (text_bytes t)) = Inr (json_of_ProtocolListRequest
        \<lparr>ProtocolListRequest.selector = Some \<lparr>Broker_Types.ProtocolLabelSelector.include' = Some (argument_labels inc w),
                          exclude' = Some (argument_labels exc w)\<rparr>\<rparr>)"
proof -
  let ?body = "json_of_ProtocolListRequest \<lparr>ProtocolListRequest.selector = Some \<lparr>Broker_Types.ProtocolLabelSelector.include' = Some (argument_labels inc w),
      exclude' = Some (argument_labels exc w)\<rparr>\<rparr>"
  have body: "selector_body inc exc w = ?body"
    by (simp add: selector_body_def json_of_ProtocolListRequest_def Broker_Types.json_of_ProtocolLabelSelector_def
        json_object_def present_def del: js_Cons)
  have "json_stringify ?body = Some (value_text ?body)"
    by (rule wf_json_stringify) (rule wf_json_of_Broker_Types_ProtocolListRequest)
  then show ?thesis
    using journal_list.one_request [OF assms, of self net]
      parse_text_bytes [OF wf_json_of_Broker_Types_ProtocolListRequest]
    by (intro exI [of _ "list_request (journal_list_url self) (JournalClient.authToken self) inc exc w"]
        exI [of _ "value_text ?body"])
      (simp add: list_request_def authorized_request_def body journal_list_url_def URL_toString_def
        del: js_Cons)
qed

lemma list_journals_request_witness:
  "\<exists>rq t. fetched (snd (JournalClient_list example_journals (Some \<lparr>label_array = 0\<rparr>) None (\<lambda>_ _. Pending)
      (example_world\<lparr>arrays := [[label (js ''name'') (js ''acme/anvils'')]]\<rparr>))) = [rq]
    \<and> request_url rq = js ''http://localhost:8080/v1/journals/list'' \<and> request_body rq = Some t"
  using list_journals_request [of "Some \<lparr>label_array = 0\<rparr>" None
      "example_world\<lparr>arrays := [[label (js ''name'') (js ''acme/anvils'')]]\<rparr>" example_journals "\<lambda>_ _. Pending"]
  by (auto simp: valid_arguments_def valid_argument_def example_world_def example_journals_def
      new_JournalClient_def)

text \<open>Calling \<open>list\<close> any number of times with the same selectors sends the same request each
  time, and nothing else: the call leaves the labels of its selectors as they were.\<close>

lemma list_journals_repeats:
  assumes "valid_arguments inc exc w"
  shows "fetched (((\<lambda>w. snd (JournalClient_list self inc exc net w)) ^^ n) w)
    = fetched w @ replicate n (list_request (journal_list_url self) (JournalClient.authToken self) inc exc w)"
  by (rule journal_list.calls_requests [OF assms])

lemma list_journals_repeats_witness:
  "\<exists>rq. fetched (((\<lambda>w. snd (JournalClient_list example_journals (Some \<lparr>label_array = 0\<rparr>) None (\<lambda>_ _. Pending) w)) ^^ 3)
      (example_world\<lparr>arrays := [[label (js ''name'') (js ''b''), label (js ''name'') (js ''a'')]]\<rparr>)) = [rq, rq, rq]"
  using list_journals_repeats [of "Some \<lparr>label_array = 0\<rparr>" None
      "example_world\<lparr>arrays := [[label (js ''name'') (js ''b''), label (js ''name'') (js ''a'')]]\<rparr>"
      3 example_journals "\<lambda>_ _. Pending"]
  by (simp add: valid_arguments_def valid_argument_def example_world_def numeral_3_eq_3)

text \<open>C17: \<open>JournalClient.list\<close> answers a response with any other status with the error it carries:
  its JSON, the response, and as status the \<open>code\<close> of the body.\<close>

theorem list_journals_http_error:
  assumes "valid_arguments inc exc w"
    and "net (fetched w) (list_request (journal_list_url self) (JournalClient.authToken self) inc exc w) = Fulfilled r"
    and "json_response s (Broker_Types.json_of_RuntimeError err) r" and "s < 200 \<or> 299 < s"
  shows "fst (JournalClient_list self inc exc net w) = Fulfilled (Result_Err
    \<lparr>error_body = Broker_Types.json_of_RuntimeError err, error_response = r,
     error_status = (case Broker_Types.RuntimeError.code err of None \<Rightarrow> JUndefined | Some c \<Rightarrow> json_int c)\<rparr>)"
proof -
  have "js_get (Broker_Types.json_of_RuntimeError err) (js ''code'')
      = Inr (case Broker_Types.RuntimeError.code err of None \<Rightarrow> JUndefined | Some c \<Rightarrow> json_int c)"
    by (simp add: Broker_Types.json_of_RuntimeError_def js_get_of_object js_inject del: js_Cons js_Nil split: option.split)
  with assms show ?thesis
    by (intro journal_list.http_error [where net = net and w = w, OF assms(1-4)]) (simp_all add: wf_json_of_Broker_Types_RuntimeError)
qed

lemma list_journals_http_error_witness:
  "\<exists>e. fst (JournalClient_list example_journals None None
     (\<lambda>_ _. Fulfilled (example_response 403 (text_bytes (value_text (Broker_Types.json_of_RuntimeError
        \<lparr>Broker_Types.RuntimeError.error = Some (js ''denied''), code = Some 7, message = None, details = None\<rparr>)))))
     example_world) = Fulfilled (Result_Err e) \<and> error_status e = json_int 7"
  using list_journals_http_error [of None None example_world
     "\<lambda>_ _. Fulfilled (example_response 403 (text_bytes (value_text (Broker_Types.json_of_RuntimeError
        \<lparr>Broker_Types.RuntimeError.error = Some (js ''denied''), code = Some 7, message = None, details = None\<rparr>))))"
     example_journals "example_response 403 (text_bytes (value_text (Broker_Types.json_of_RuntimeError
        \<lparr>Broker_Types.RuntimeError.error = Some (js ''denied''), code = Some 7, message = None, details = None\<rparr>)))" 403
     "\<lparr>Broker_Types.RuntimeError.error = Some (js ''denied''), code = Some 7, message = None, details = None\<rparr>"]
  by (simp add: example_json_response valid_arguments_def valid_argument_def)

text \<open>C18: \<open>ShardClient.list\<close> answers a successful typed response with the specification and the
  replica statuses of each shard, in order, and with no other field of it.\<close>

theorem list_shards_success:
  assumes "valid_arguments inc exc w"
    and "net (fetched w) (list_request (shard_list_url self) (ShardClient.authToken self) inc exc w) = Fulfilled r"
    and "json_response s (json_of_ConsumerListResponse resp) r" and "200 \<le> s" "s \<le> 299"
    and "ConsumerListResponse.shards resp = Some ss"
    and "\<And>x. x \<in> set ss \<Longrightarrow> ListResponseShard.spec x \<noteq> None \<and> ListResponseShard.status x \<noteq> None"
  shows "fst (ShardClient_list self inc exc net w) = Fulfilled (Result_Ok
    (map (\<lambda>x. json_of_Shard \<lparr>Shard.spec = the (ListResponseShard.spec x),
                              status = the (ListResponseShard.status x)\<rparr>) ss))"
  by (rule shards_list.success [where net = net and w = w, OF assms(1-5)
        wf_json_of_Consumer_Types_ConsumerListResponse shard_list_typed [OF assms(6,7)]])

definition example_shard_spec :: ConsumerShardSpec where
  "example_shard_spec = \<lparr>ConsumerShardSpec.id' = Some (js ''anvils/0''), sources = None, recoveryLogPrefix = None,
     hintPrefix = None, hintBackups = None, maxTxnDuration = None, minTxnDuration = None, disable = None,
     hotStandbys = Some 1, labels = None, disableWaitForAck = None, ringBufferSize = None,
     readChannelSize = None\<rparr>"

definition example_shards_response :: ConsumerListResponse where
  "example_shards_response = \<lparr>ConsumerListResponse.status = None, header = None,
     shards = Some [\<lparr>ListResponseShard.spec = Some example_shard_spec, modRevision = Some (js ''4''),
                     route = None, status = Some []\<rparr>], extension = None\<rparr>"

lemma list_shards_success_witness:
  "fst (ShardClient_list example_shards None None
     (\<lambda>_ _. Fulfilled (example_response 200 (text_bytes (value_text
        (json_of_ConsumerListResponse example_shards_response))))) example_world)
   = Fulfilled (Result_Ok [json_of_Shard \<lparr>Shard.spec = example_shard_spec, status = []\<rparr>])"
  using list_shards_success [of None None example_world
      "\<lambda>_ _. Fulfilled (example_response 200 (text_bytes (value_text
        (json_of_ConsumerListResponse example_shards_response))))" example_shards
      "example_response 200 (text_bytes (value_text (json_of_ConsumerListResponse example_shards_response)))"
      200 example_shards_response
      "[\<lparr>ListResponseShard.spec = Some example_shard_spec, modRevision = Some (js ''4''),
         route = None, status = Some []\<rparr>]"]
  by (simp add: example_json_response valid_arguments_def valid_argument_def)
    (simp add: example_shards_response_def)

text \<open>C19: \<open>ShardClient.stat\<close> makes one request, from whose body the server parses the typed request
  with the shard and the offsets to read through, and answers a successful response with its JSON.\<close>

theorem stat_shard:
  assumes "distinct (map fst offsets)"
    and "net (fetched w) (shard_stat_request self sid offsets) = Fulfilled r"
    and "json_response s v r" and "200 \<le> s" "s \<le> 299" and "wf_json v"
  shows "ShardClient_stat self sid offsets net w
      = (Fulfilled (Result_Ok v), w\<lparr>fetched := fetched w @ [shard_stat_request self sid offsets]\<rparr>)
    \<and> (\<exists>t. request_body (shard_stat_request self sid offsets) = Some t
      \<and> json_parse (text_decode (text_bytes t)) = Inr (json_of_ConsumerStatRequest
          \<lparr>ConsumerStatRequest.header = None, shard = Some sid, readThrough = Some offsets, extension = None\<rparr>))"
proof (intro conjI)
  show "ShardClient_stat self sid offsets net w
      = (Fulfilled (Result_Ok v), w\<lparr>fetched := fetched w @ [shard_stat_request self sid offsets]\<rparr>)"
    using shards_stat.success [where net = net and w = w and x = v, OF TrueI assms(2-6) refl]
    by (simp add: ShardClient_stat_unary)
  let ?rq = "\<lparr>ConsumerStatRequest.header = None, shard = Some sid, readThrough = Some offsets, extension = None\<rparr>"
  let ?body = "json_of_ConsumerStatRequest ?rq"
  have body: "?body = JObj [(js ''shard'', JStr sid), (js ''readThrough'', json_string_map offsets)]"
    by (simp add: json_of_ConsumerStatRequest_def json_object_def present_def del: js_Cons)
  have wf: "wf_json ?body"
    by (rule wf_json_of_Consumer_Types_ConsumerStatRequest) (simp add: distinct_keys_def assms(1))
  then have "json_stringify ?body = Some (value_text ?body)"
    by (rule wf_json_stringify)
  with parse_text_bytes [OF wf] show "\<exists>t. request_body (shard_stat_request self sid offsets) = Some t
      \<and> json_parse (text_decode (text_bytes t)) = Inr ?body"
    by (simp add: shard_stat_request_def authorized_request_def body del: js_Cons)
qed

lemma stat_shard_witness:
  "fst (ShardClient_stat example_shards (js ''anvils/0'') [(js ''acme/anvils'', js ''12'')]
     (\<lambda>_ _. Fulfilled (example_response 200 (text_bytes (value_text (JObj []))))) example_world)
   = Fulfilled (Result_Ok (JObj []))"
  using stat_shard [of "[(js ''acme/anvils'', js ''12'')]"
      "\<lambda>_ _. Fulfilled (example_response 200 (text_bytes (value_text (JObj []))))" example_world
      example_shards "js ''anvils/0''" _ 200 "JObj []"]
  by (simp add: example_json_response)

text \<open>C20: When a response has the type the source declares for it, a successful call gives what its
  signature promises, up to the non-null assertions: a list call rejects if the array is missing,
  otherwise it has one item per element, in order, and an item lacks the declared type exactly
  where an optional property of the element is missing; \<open>stat\<close> gives a stat response; \<open>read\<close> gives
  one chunk per frame, each a read response or, for a frame without a result, \<open>undefined\<close>.\<close>

theorem calls_return_declared_types:
  assumes "\<And>h q. net h q = Fulfilled r" and "response_ok r" and "valid_arguments inc exc w"
  shows "(\<forall>v. json_response (http_status r) v r \<and> wf_json v \<longrightarrow>
      (conforms type_ProtocolListResponse v \<longrightarrow> (\<exists>xs. js_get v (js ''journals'') = Inr xs
        \<and> list_outcome xs declared_spec (fst (JournalClient_list jc inc exc net w))))
    \<and> (conforms type_ConsumerListResponse v \<longrightarrow> (\<exists>xs. js_get v (js ''shards'') = Inr xs
        \<and> list_outcome xs declared_shard (fst (ShardClient_list sc inc exc net w))))
    \<and> (conforms type_ConsumerStatResponse v \<longrightarrow> (\<exists>x. conforms type_ConsumerStatResponse x
        \<and> fst (ShardClient_stat sc sid offsets net w) = Fulfilled (Result_Ok x))))
    \<and> (\<forall>body. response_body r = Some body \<and> (\<forall>f \<in> set (frames_of body). conforms type_frame f) \<longrightarrow>
        (\<exists>st. fst (JournalClient_read jc req net w) = Fulfilled (Result_Ok st)
          \<and> length (chunks st) = length (frames_of body)
          \<and> (\<forall>x \<in> set (chunks st). conforms_opt type_ProtocolReadResponse x)))"
proof (intro conjI impI allI)
  fix v assume v: "json_response (http_status r) v r \<and> wf_json v"
  have ok: "200 \<le> http_status r" "http_status r \<le> 299" using assms(2) by (simp_all add: response_ok_def)
  note answer = conjunct1 [OF v] ok conjunct2 [OF v]
  {
    assume "conforms type_ProtocolListResponse v"
    with declared_gets(1) journal_specs_declared show "\<exists>xs. js_get v (js ''journals'') = Inr xs
        \<and> list_outcome xs declared_spec (fst (JournalClient_list jc inc exc net w))"
      using journal_list.answered [where net = net and w = w, OF assms(3,1) answer, of jc]
      by (fastforce simp: settled_def)
  next
    assume "conforms type_ConsumerListResponse v"
    with declared_gets(3) shard_list_declared show "\<exists>xs. js_get v (js ''shards'') = Inr xs
        \<and> list_outcome xs declared_shard (fst (ShardClient_list sc inc exc net w))"
      using shards_list.answered [where net = net and w = w, OF assms(3,1) answer, of sc]
      by (fastforce simp: settled_def)
  next
    assume "conforms type_ConsumerStatResponse v"
    then show "\<exists>x. conforms type_ConsumerStatResponse x
        \<and> fst (ShardClient_stat sc sid offsets net w) = Fulfilled (Result_Ok x)"
      using shards_stat.answered [where net = net and w = w, OF TrueI assms(1) answer, of sc sid offsets] by auto
  }
next
  fix body assume body: "response_body r = Some body \<and> (\<forall>f \<in> set (frames_of body). conforms type_frame f)"
  then have "fst (JournalClient_read jc req net w) = Fulfilled (Result_Ok (read_pipeline body))"
    using assms(2) by (simp add: JournalClient_read_outcome read_outcome_def assms(1))
  with read_pipeline_declared [OF conjunct2 [OF body]] show "\<exists>st.
      fst (JournalClient_read jc req net w) = Fulfilled (Result_Ok st)
      \<and> length (chunks st) = length (frames_of body)
      \<and> (\<forall>x \<in> set (chunks st). conforms_opt type_ProtocolReadResponse x)"
    by (intro exI [of _ "read_pipeline body"]) simp
qed

definition example_partial_list :: jsval where
  "example_partial_list = JObj [(js ''journals'', JArr [JObj [], JObj [(js ''spec'', JObj [])]])]"

lemma calls_return_declared_types_witness:
  "conforms type_ProtocolListResponse example_partial_list
   \<and> fst (JournalClient_list example_journals None None
       (\<lambda>_ _. Fulfilled (example_response 200 (text_bytes (value_text example_partial_list)))) example_world)
     = Fulfilled (Result_Ok [JUndefined, JObj []])"
proof
  show typed: "conforms type_ProtocolListResponse example_partial_list"
    by (simp add: example_partial_list_def type_ProtocolListResponse_def type_ListResponseJournal_def
        type_ProtocolJournalSpec_def optional_def prop_value_def js_inject del: js_Cons js_Nil)
  let ?r = "example_response 200 (text_bytes (value_text example_partial_list))"
  let ?call = "fst (JournalClient_list example_journals None None (\<lambda>_ _. Fulfilled ?r) example_world)"
  have "wf_json example_partial_list" by (simp add: example_partial_list_def js_inject del: js_Cons js_Nil)
  moreover have "json_response (http_status ?r) example_partial_list ?r"
    using example_json_response [of 200 example_partial_list] by (simp add: example_response_def)
  moreover have "js_get example_partial_list (js ''journals'')
      = Inr (JArr [JObj [], JObj [(js ''spec'', JObj [])]])"
    by (simp add: example_partial_list_def prop_value_def del: js_Cons)
  moreover have "response_ok ?r" "valid_arguments None None example_world"
    by (simp_all add: example_response_def response_ok_def valid_arguments_def valid_argument_def)
  note sound = calls_return_declared_types [OF refl this, THEN conjunct1, THEN spec, THEN mp,
      THEN conjunct1, THEN mp, OF _ typed]
  ultimately have "list_outcome (JArr [JObj [], JObj [(js ''spec'', JObj [])]]) declared_spec ?call"
    using sound [of example_journals] by auto
  then show "?call = Fulfilled (Result_Ok [JUndefined, JObj []])"
    by (auto simp: declared_spec_def prop_value_def list_all2_Cons1 simp del: js_Cons)
qed

text \<open>C21: A \<open>read\<close> that the gateway refuses is answered with the inner error object of the body, its
  \<open>httpStatus\<close> and the response; a successful response without a body makes \<open>read\<close> throw.
  Either way one request was made.\<close>

theorem read_refused:
  assumes "net (fetched w) (read_request self req) = Fulfilled r"
    and "json_response s (JObj [(js ''error'', json_of_RuntimeStreamError err)]) r \<and> (s < 200 \<or> 299 < s)
      \<or> response_ok r \<and> response_body r = None"
  shows "JournalClient_read self req net w =
    (if response_ok r then Rejected TypeError
     else Fulfilled (Result_Err \<lparr>error_body = json_of_RuntimeStreamError err, error_response = r,
       error_status = (case RuntimeStreamError.httpStatus err of None \<Rightarrow> JUndefined | Some t \<Rightarrow> JStr t)\<rparr>),
     w\<lparr>fetched := fetched w @ [read_request self req]\<rparr>)"
proof (cases "response_ok r")
  case True
  then have "response_body r = None"
    using assms(2) by (auto simp: response_ok_def json_response_def)
  with True assms(1) show ?thesis
    by (simp add: JournalClient_read_outcome read_outcome_def)
next
  case False
  then have "json_response s (JObj [(js ''error'', json_of_RuntimeStreamError err)]) r"
    using assms(2) by blast
  then have "response_json r = Fulfilled (JObj [(js ''error'', json_of_RuntimeStreamError err)])"
    by (rule response_json_value [rotated]) (simp add: wf_json_of_Broker_Types_RuntimeStreamError)
  moreover have "js_get (json_of_RuntimeStreamError err) (js ''httpStatus'')
      = Inr (case RuntimeStreamError.httpStatus err of None \<Rightarrow> JUndefined | Some t \<Rightarrow> JStr t)"
    by (simp add: json_of_RuntimeStreamError_def js_get_of_object js_inject del: js_Cons js_Nil
        split: option.split)
  moreover have "js_get (JObj [(js ''error'', json_of_RuntimeStreamError err)]) (js ''error'')
      = Inr (json_of_RuntimeStreamError err)"
    by (simp add: prop_value_def del: js_Cons)
  ultimately show ?thesis
    using False assms(1) by (simp add: JournalClient_read_outcome read_outcome_def del: js_Cons)
qed

lemma read_refused_witness:
  "JournalClient_read example_journals example_read
     (\<lambda>_ _. Fulfilled \<lparr>http_status = 204, response_body = None\<rparr>) example_world
   = (Rejected TypeError, example_world\<lparr>fetched := fetched example_world @ [read_request example_journals example_read]\<rparr>)"
  using read_refused [of "\<lambda>_ _. Fulfilled \<lparr>http_status = 204, response_body = None\<rparr>" example_world
      example_journals example_read "\<lparr>http_status = 204, response_body = None\<rparr>" 204]
  by (simp add: response_ok_def)

text \<open>C22: When \<open>fetch\<close> itself fails, none of the client's calls returns a \<open>Result\<close>: they call
  \<open>json\<close> on the error that was thrown and reject with a \<open>TypeError\<close> in its place.\<close>

theorem network_failure_rejects:
  assumes "\<And>h q. net h q = Rejected e" and "valid_arguments inc exc w"
  shows "fst (JournalClient_list jc inc exc net w) = Rejected TypeError
    \<and> fst (ShardClient_list sc inc exc net w) = Rejected TypeError
    \<and> fst (ShardClient_stat sc sid offsets net w) = Rejected TypeError
    \<and> fst (JournalClient_read jc req net w) = Rejected TypeError"
  using journal_list.network_failure [where net = net, OF assms(2,1)]
    shards_list.network_failure [where net = net, OF assms(2,1)]
    shards_stat.network_failure [where net = net, OF TrueI assms(1)]
  by (simp add: JournalClient_read_outcome read_outcome_def assms(1))

lemma network_failure_rejects_witness:
  "fst (ShardClient_stat example_shards (js ''anvils/0'') [] (\<lambda>_ _. Rejected (HostError (js ''offline''))) example_world)
     = Rejected TypeError"
  using network_failure_rejects [of "\<lambda>_ _. Rejected (HostError (js ''offline''))" _ None None example_world]
  by (simp add: valid_arguments_def valid_argument_def)

text \<open>C23: The errors of the unary calls never have the type that \<open>ResponseError\<close> declares: for an error
  body of the declared type, the body is kept, but the status is a number or missing where the
  class says string. The error of a read has the declared type whenever the gateway names the
  HTTP status.\<close>

theorem error_results_not_declared:
  assumes "\<And>h q. net h q = Fulfilled r" and "json_response s v r" and "s < 200 \<or> 299 < s"
    and "wf_json v" and "valid_arguments inc exc w"
  shows "(conforms Published_Broker.type_RuntimeError v \<longrightarrow> (\<exists>e.
        fst (JournalClient_list jc inc exc net w) = Fulfilled (Result_Err e)
        \<and> fst (ShardClient_list sc inc exc net w) = Fulfilled (Result_Err e)
        \<and> fst (ShardClient_stat sc sid offsets net w) = Fulfilled (Result_Err e)
        \<and> error_body e = v \<and> \<not> declared_error e))
    \<and> (\<forall>b. js_get v (js ''error'') = Inr b \<and> conforms type_RuntimeStreamError b \<longrightarrow> (\<exists>e.
        fst (JournalClient_read jc req net w) = Fulfilled (Result_Err e)
        \<and> (declared_error e \<longleftrightarrow> js_get b (js ''httpStatus'') \<noteq> Inr JUndefined)))"
proof (intro conjI impI allI)
  assume "conforms Published_Broker.type_RuntimeError v"
  then obtain c where c: "js_get v (js ''code'') = Inr c" "conforms_opt TNumber c"
    using declared_error_gets(1) by blast
  let ?e = "\<lparr>error_body = v, error_response = r, error_status = c\<rparr>"
  have "\<not> declared_error ?e" by (rule number_not_declared) (simp add: c)
  then show "\<exists>e. fst (JournalClient_list jc inc exc net w) = Fulfilled (Result_Err e)
      \<and> fst (ShardClient_list sc inc exc net w) = Fulfilled (Result_Err e)
      \<and> fst (ShardClient_stat sc sid offsets net w) = Fulfilled (Result_Err e)
      \<and> error_body e = v \<and> \<not> declared_error e"
    using journal_list.http_error [where net = net and w = w, OF assms(5,1-4) c(1), of jc]
      shards_list.http_error [where net = net and w = w, OF assms(5,1-4) c(1), of sc]
      shards_stat.http_error [where net = net and w = w, OF TrueI assms(1-4) c(1), of sc sid offsets]
    by (intro exI [of _ ?e]) simp
next
  fix b assume b: "js_get v (js ''error'') = Inr b \<and> conforms type_RuntimeStreamError b"
  then obtain st where st: "js_get b (js ''httpStatus'') = Inr st" "conforms_opt TString st"
    using declared_error_gets(2) by blast
  let ?e = "\<lparr>error_body = b, error_response = r, error_status = st\<rparr>"
  have "\<not> response_ok r" using assms(2,3) by (auto simp: response_ok_def json_response_def)
  then have "fst (JournalClient_read jc req net w) = Fulfilled (Result_Err ?e)"
    using b st(1) response_json_value [OF assms(4,2)]
    by (simp add: JournalClient_read_outcome read_outcome_def assms(1) del: js_Cons)
  moreover have "declared_error ?e \<longleftrightarrow> st \<noteq> JUndefined"
    using b st(2) by (auto simp: declared_error_def conforms_opt_def simp del: conforms.simps)
  ultimately show "\<exists>e. fst (JournalClient_read jc req net w) = Fulfilled (Result_Err e)
      \<and> (declared_error e \<longleftrightarrow> js_get b (js ''httpStatus'') \<noteq> Inr JUndefined)"
    by (intro exI [of _ ?e]) (simp add: st(1) del: js_Cons)
qed

definition example_unary_error :: jsval where
  "example_unary_error = Broker_Types.json_of_RuntimeError \<lparr>Broker_Types.RuntimeError.error = Some (js ''gone''), code = Some 5,
     message = None, details = None\<rparr>"

lemma error_results_not_declared_witness:
  "\<exists>e. fst (ShardClient_stat example_shards (js ''anvils/0'') []
      (\<lambda>_ _. Fulfilled (example_response 404 (text_bytes (value_text example_unary_error)))) example_world)
    = Fulfilled (Result_Err e) \<and> error_body e = example_unary_error \<and> \<not> declared_error e"
proof -
  have typed: "conforms Published_Broker.type_RuntimeError example_unary_error"
    unfolding example_unary_error_def by (rule conforming)
  have wf: "wf_json example_unary_error"
    unfolding example_unary_error_def by (rule wf_json_of_Broker_Types_RuntimeError)
  have status: "(404 :: nat) < 200 \<or> 299 < (404 :: nat)" by simp
  have args: "valid_arguments None None example_world"
    by (simp add: valid_arguments_def valid_argument_def)
  show ?thesis
    using error_results_not_declared [OF refl example_json_response status wf args, THEN conjunct1,
        THEN mp, OF typed, of example_journals example_shards "js ''anvils/0''" "[]"] by blast
qed

text \<open>C24: An error that the gateway reports inside the stream is lost: its frame has no \<open>result\<close>, so
  \<open>read\<close> delivers \<open>undefined\<close> in its place, and \<open>readStreamToEnd\<close> of the stream resolves
  to the responses before it as if the read had ended there.\<close>

theorem stream_error_is_lost:
  assumes "concat cs = text_bytes (lines_of value_text
      (map result_frame vs @ JObj [(js ''error'', err)] # map result_frame us))"
    and "\<forall>v \<in> set vs. wf_json v \<and> js_truthy v" and "\<forall>v \<in> set us. wf_json v" and "wf_json err"
  shows "read_pipeline \<lparr>chunks = cs, ending = Closed\<rparr> = \<lparr>chunks = vs @ JUndefined # us, ending = Closed\<rparr>
    \<and> readStreamToEnd js_truthy (read_pipeline \<lparr>chunks = cs, ending = Closed\<rparr>) = Fulfilled vs"
proof (intro conjI)
  let ?frames = "map result_frame vs @ JObj [(js ''error'', err)] # map result_frame us"
  have wf: "\<forall>v \<in> set ?frames. wf_json v" using assms(2-4) by auto
  have vals: "chunks (pipeThrough (pipeThrough (pipeThrough \<lparr>chunks = cs, ending = Closed\<rparr>
      text_decoder_stream) (splitStream newline)) parseJSONStream) = ?frames"
    using wf_utf16_lines [OF wf, of "[]"] bom_free_lines [OF wf, of "[]"] text_values_lines [OF wf, of "[]"]
    by (simp add: split_parse_pipe decoder_text_closed assms(1) text_decode_bytes bom_free_def)
  have err: "js_get (JObj [(js ''error'', err)]) (js ''result'') = Inr JUndefined"
    by (simp add: prop_value_def js_inject del: js_Cons)
  have get: "js_get v (js ''result'') = Inr (projr (js_get v (js ''result'')))" if "v \<in> set ?frames" for v
    using that err by (auto simp del: js_Cons js_get.simps)
  show read: "read_pipeline \<lparr>chunks = cs, ending = Closed\<rparr> = \<lparr>chunks = vs @ JUndefined # us, ending = Closed\<rparr>"
    unfolding read_pipeline_def
    by (subst unwrapResult_pipe [of _ "\<lambda>v. projr (js_get v (js ''result''))"], rule get, simp only: vals)
      (simp add: vals err o_def split_parse_pipe [symmetric] del: js_Cons js_get.simps,
        simp add: split_parse_pipe decoder_stage.ending_pipeThrough)
  then show "readStreamToEnd js_truthy (read_pipeline \<lparr>chunks = cs, ending = Closed\<rparr>) = Fulfilled vs"
    using assms(2) by (simp add: readStreamToEnd_def pump_stops)
qed

lemma stream_error_is_lost_witness:
  "readStreamToEnd js_truthy (read_pipeline \<lparr>chunks = [text_bytes (lines_of value_text
      (map result_frame [JObj []] @ JObj [(js ''error'', JStr (js ''not found''))] # map result_frame []))],
     ending = Closed\<rparr>) = Fulfilled [JObj []]"
  by (rule stream_error_is_lost [where err = "JStr (js ''not found'')" and us = "[]" and vs = "[JObj []]",
      THEN conjunct2]) simp_all

text \<open>C25: With the empty separator, whatever the chunks, every code unit of the text but the last becomes a
  chunk. But an empty chunk at the start leaves \<open>splitStream\<close> without a buffer: further chunks are
  read behind the word \<open>undefined\<close>, and when there are none, closing the stream fails with a
  \<open>TypeError\<close>.\<close>

theorem splitStream_empty_separator:
  "pipeThrough \<lparr>chunks = xs, ending = en\<rparr> (splitStream []) =
     (if xs = [[]] \<and> en = Closed then \<lparr>chunks = [], ending = Errored TypeError\<rparr>
      else \<lparr>chunks = map (\<lambda>u. [u]) (butlast (case xs of [] # y # ys \<Rightarrow> js ''undefined'' @ concat (y # ys)
          | _ \<Rightarrow> concat xs)), ending = en\<rparr>)"
  using splitStream_units [of xs en] by (simp only: units_text_def)

section \<open>Selectors\<close>

text \<open>C26: Every program that builds selectors and takes their label sets, however it shares and
  interleaves them, observes what the specification says: each selector is a list of labels of its
  own, builders append to it, \<open>prefix\<close> starts one with a value that ends in a slash, and
  \<open>toLabelSet\<close> reads it in sorted order without changing it.\<close>

theorem selectors_refine_label_lists:
  "fst (exec_calls cs ([], w)) = fst (spec_calls cs [])"
proof -
  have "simulates ([], w) []" by (simp add: simulates_def)
  from exec_calls_simulates [OF this, of cs] show ?thesis by auto
qed

text \<open>C27: \<open>toLabelSet\<close> returns the selector's labels sorted by name and then by value, each as often
  as it was added; the arrays there were before the call, the selector's own among them, and the
  requests made are unchanged.\<close>

theorem toLabelSet_sorts_copy:
  assumes "\<And>l. l \<in> set (arrays w ! label_array self) \<Longrightarrow>
      Broker_Types.ProtocolLabel.name l \<noteq> None \<and> Broker_Types.ProtocolLabel.value' l \<noteq> None"
  shows "Broker_Types.ProtocolLabelSet.labels (fst (toLabelSet self w)) = Some (sort (arrays w ! label_array self))
    \<and> take (length (arrays w)) (arrays (snd (toLabelSet self w))) = arrays w
    \<and> fetched (snd (toLabelSet self w)) = fetched w"
proof -
  have "\<forall>l \<in> set (arrays w ! label_array self). complete l"
    using assms by (simp add: complete_def)
  from toLabelSet_sort [OF this] show ?thesis by simp
qed

definition example_labels :: client_world where
  "example_labels = \<lparr>fetched = [], arrays = [[label (js ''b'') (js ''2''), label (js ''a'') (js ''1'')]]\<rparr>"

lemma toLabelSet_sorts_copy_witness:
  "take (length (arrays example_labels)) (arrays (snd (toLabelSet \<lparr>label_array = 0\<rparr> example_labels)))
     = arrays example_labels"
  by (rule toLabelSet_sorts_copy [THEN conjunct2, THEN conjunct1]) (auto simp: example_labels_def label_def)

text \<open>The order in which labels were added does not matter: selectors with the same labels, counted
  with repetition, have the same label set.\<close>

lemma label_order_irrelevant:
  assumes "mset (arrays w ! label_array s) = mset (arrays w' ! label_array s')"
    and "\<And>l. l \<in> set (arrays w ! label_array s) \<Longrightarrow> complete l"
  shows "fst (toLabelSet s w) = fst (toLabelSet s' w')"
proof -
  have "set (arrays w' ! label_array s') = set (arrays w ! label_array s)"
    using assms(1) by (metis set_mset_mset)
  moreover have "sort (arrays w ! label_array s) = sort (arrays w' ! label_array s')"
    by (rule properties_for_sort) (simp_all add: assms(1))
  ultimately show ?thesis
    using toLabelSet_sort [of w s] toLabelSet_sort [of w' s'] assms(2) by simp
qed

lemma label_order_irrelevant_witness:
  "fst (toLabelSet \<lparr>label_array = 0\<rparr> (example_world\<lparr>arrays := [[label (js ''b'') (js ''2''), label (js ''a'') (js ''1'')]]\<rparr>))
   = fst (toLabelSet \<lparr>label_array = 0\<rparr> (example_world\<lparr>arrays := [[label (js ''a'') (js ''1''), label (js ''b'') (js ''2'')]]\<rparr>))"
  by (rule label_order_irrelevant) (auto simp: add_mset_commute)

section \<open>Utilities\<close>

text \<open>C28: On elements that have all the fields, \<open>sortBy\<close> is a consistent comparison, so the sort the
  language prescribes has exactly one result: in order of the fields, stable, and a permutation.\<close>

theorem sortBy_sorts_uniquely:
  assumes "\<And>x. x \<in> set xs \<Longrightarrow> fields_present fs x"
  shows "(stable_sort_of (sortBy fs) xs ys \<longleftrightarrow> ys = js_sort (sortBy fs) xs)
    \<and> sorted_wrt (\<lambda>x y. key fs x \<le> key fs y) (js_sort (sortBy fs) xs)"
proof (intro conjI)
  have ok: "\<forall>x \<in> set xs. fields_present fs x" using assms by blast
  show "stable_sort_of (sortBy fs) xs ys \<longleftrightarrow> ys = js_sort (sortBy fs) xs"
    using sort_fields.js_sort_is_stable_sort [OF ok] sort_fields.stable_sort_unique [OF ok] by blast
  have "sorted_wrt (\<lambda>x y. key fs x \<le> key fs y) zs"
    if "in_order (sortBy fs) zs" and "\<forall>x \<in> set zs. fields_present fs x" for zs
    using that by (induction zs) (auto simp: sortBy_key not_less [symmetric])
  then show "sorted_wrt (\<lambda>x y. key fs x \<le> key fs y) (js_sort (sortBy fs) xs)"
    using sort_fields.in_order_js_sort [OF ok] ok by (simp add: set_js_sort)
qed

lemma sortBy_sorts_uniquely_witness:
  "sorted_wrt (\<lambda>x y. key [Broker_Types.ProtocolLabel.name] x \<le> key [Broker_Types.ProtocolLabel.name] y)
     (js_sort (sortBy [Broker_Types.ProtocolLabel.name]) [label (js ''b'') [], label (js ''a'') []])"
  by (rule sortBy_sorts_uniquely [THEN conjunct2]) (auto simp: fields_present_def label_def)

text \<open>C29: \<open>doFetch\<close> makes exactly one request, with the JSON text of its body and the bearer token, and
  never rejects; its result is \<open>ok\<close> exactly when a response with a status from 200 to 299 came
  back, which \<open>unwrap\<close> then returns, and otherwise \<open>unwrap_err\<close> returns what did come back.\<close>

theorem doFetch_result:
  assumes "wf_json body"
  shows "\<exists>rq t. fetched (snd (doFetch net url token body w)) = fetched w @ [rq]
      \<and> request_url rq = url \<and> request_body rq = Some t \<and> json_parse t = Inr body
      \<and> (js ''Authorization'', js ''Bearer '' @ token) \<in> set (headers rq)
      \<and> (case net (fetched w) rq of
           Pending \<Rightarrow> fst (doFetch net url token body w) = Pending
         | Rejected e \<Rightarrow> (\<exists>res. fst (doFetch net url token body w) = Fulfilled res
             \<and> \<not> Result_ok object_truthy res
             \<and> Result_unwrap_err object_truthy print_object res = Inr (Thrown e))
         | Fulfilled r \<Rightarrow> (\<exists>res. fst (doFetch net url token body w) = Fulfilled res
             \<and> Result_ok object_truthy res = (http_status r \<in> {200..299})
             \<and> (if http_status r \<in> {200..299}
                then Result_unwrap object_truthy print_object res = Inr r
                else Result_unwrap_err object_truthy print_object res = Inr (HttpResponse r))))"
proof -
  have t: "json_stringify body = Some (value_text body)" by (rule wf_json_stringify [OF assms])
  note p = json_parse_stringify [OF assms t]
  show ?thesis
    by (intro exI [of _ "authorized_request url token body"] exI [of _ "value_text body"])
      (auto simp: doFetch_def fetch_def authorized_request_def t p Result_defs object_truthy_def
        response_ok_def simp del: js_Cons split: promise.split)
qed

lemma doFetch_result_witness:
  "\<exists>rq t. fetched (snd (doFetch (\<lambda>_ _. Pending) (js ''http://h/'') (js ''tok'') (JObj []) example_world)) = [rq]
      \<and> request_body rq = Some t \<and> json_parse t = Inr (JObj [])"
  using doFetch_result [of "JObj []" "\<lambda>_ _. Pending" "js ''http://h/''" "js ''tok''" example_world]
  by (auto simp: example_world_def)

text \<open>C30: As long as the values and errors it holds are truthy, a \<open>Result\<close> is a sum: it is \<open>ok\<close> or
  \<open>err\<close> and never both, \<open>unwrap\<close> and \<open>unwrap_err\<close> give back what was put in, and \<open>map\<close> and
  \<open>map_err\<close> act on their side only.\<close>

theorem Result_is_a_sum:
  assumes "case r of Inl e \<Rightarrow> te e | Inr v \<Rightarrow> tv v"
  shows "(Result_ok tv (of_sum r) \<longleftrightarrow> (\<exists>v. r = Inr v))
    \<and> (Result_err te (of_sum r) \<longleftrightarrow> (\<exists>e. r = Inl e))
    \<and> (case r of Inl e \<Rightarrow> Result_unwrap_err te q (of_sum r) = Inr e
        | Inr v \<Rightarrow> Result_unwrap tv p (of_sum r) = Inr v)
    \<and> Result_map tv (\<lambda>v. Inr (f v)) (of_sum r) = Inr (of_sum (sum_map f r))
    \<and> Result_map_err te (\<lambda>e. Inr (g e)) (of_sum r) = Inr (of_sum (sum_map_err g r))"
proof -
  have good: "truthy_sums.good tv te r"
    using assms by (simp add: truthy_sums.good_def)
  show ?thesis
    using truthy_sums.ok_of_sum [OF good] truthy_sums.err_of_sum [OF good]
      truthy_sums.unwrap_of_sum [OF good] truthy_sums.unwrap_err_of_sum [OF good]
      truthy_sums.map_of_sum [OF good] truthy_sums.map_err_of_sum [OF good]
    by (auto split: sum.split)
qed

lemma Result_is_a_sum_witness:
  "Result_unwrap js_truthy (\<lambda>e :: js_string. Inr e) (of_sum (Inr (JBool True))) = Inr (JBool True)"
  using Result_is_a_sum [where r = "Inr (JBool True)" and te = "\<lambda>_. True" and tv = js_truthy
      and p = "\<lambda>e :: js_string. Inr e", THEN conjunct2, THEN conjunct2, THEN conjunct1] by simp

text \<open>C31: A \<open>Result\<close> that holds a falsy value (zero, an empty string, \<open>false\<close>, \<open>null\<close>) is neither
  \<open>ok\<close> nor \<open>err\<close>: \<open>unwrap\<close> throws, saying that it found the error \<open>undefined\<close>, and
  \<open>map\<close> turns it into a result with neither a value nor an error.\<close>

theorem Result_loses_falsy_values:
  assumes "\<not> js_truthy v"
  shows "\<not> Result_ok js_truthy (Result_Ok v) \<and> \<not> Result_err te (Result_Ok v)
    \<and> Result_unwrap js_truthy p (Result_Ok v)
        = Inl (ThrownString (js ''Attempted to unwrap an Result, but found error: undefined''))
    \<and> Result_map js_truthy f (Result_Ok v) = Inr \<lparr>Result.value' = None, error = None\<rparr>"
  using Result_Ok_falsy [where truthy = js_truthy, OF assms] by blast

lemma Result_loses_falsy_values_witness:
  "Result_unwrap js_truthy (\<lambda>e. Inr e) (Result_Ok (JStr []))
     = Inl (ThrownString (js ''Attempted to unwrap an Result, but found error: undefined''))"
  by (rule Result_loses_falsy_values [THEN conjunct2, THEN conjunct2, THEN conjunct1]) simp

text \<open>C32: In the published package the results of \<open>Ok\<close> and \<open>Err\<close> are immutable: whatever a program
  does to the objects of the heap, they answer as the results of the source do, and assigning to a
  field of theirs throws. The results of \<open>map\<close> are new objects with the fields of the source's,
  and they can be assigned to.\<close>

theorem published_results_immutable:
  "fst (published_Ok v h) = Inr (length h) \<and> fst (published_Err v h) = Inr (length h)
   \<and> (\<forall>h'. heap_step\<^sup>*\<^sup>* (snd (published_Ok v h)) h' \<longrightarrow> result_at h' (length h) = Result_Ok v
       \<and> published_unwrap truthy printer (length h) h' = (Result_unwrap truthy printer (Result_Ok v), h')
       \<and> js_assign (length h) k x h' = (Inl TypeError, h'))
   \<and> (\<forall>h'. heap_step\<^sup>*\<^sup>* (snd (published_Err v h)) h' \<longrightarrow> result_at h' (length h) = Result_Err v
       \<and> published_unwrap_err truthy printer (length h) h' = (Result_unwrap_err truthy printer (Result_Err v), h')
       \<and> js_assign (length h) k x h' = (Inl TypeError, h'))
   \<and> (\<exists>h'. published_map truthy (\<lambda>u. returnA (g u)) a h = (Inr (length h), h')
       \<and> Inr (result_at h' (length h)) = Result_map truthy (\<lambda>u. Inr (g u)) (result_at h a)
       \<and> (\<exists>h''. js_assign (length h) ''value'' x h' = (Inr (), h'')
           \<and> Result.value' (result_at h'' (length h)) = x))"
proof (intro conjI allI impI)
  fix h' assume "heap_step\<^sup>*\<^sup>* (snd (published_Ok v h)) h'"
  then have f: "result_at h' (length h) = \<lparr>Result.value' = Some v, error = None\<rparr>
      \<and> js_assign (length h) k x h' = (Inl TypeError, h')"
    by (intro frozen_result [OF refl]) (simp add: published_Ok_object)
  then show "result_at h' (length h) = Result_Ok v" by (simp add: Result_Ok_def)
  then show "published_unwrap truthy printer (length h) h' = (Result_unwrap truthy printer (Result_Ok v), h')"
    by (simp add: published_unwrap_refines)
  from f show "js_assign (length h) k x h' = (Inl TypeError, h')" by blast
next
  fix h' assume "heap_step\<^sup>*\<^sup>* (snd (published_Err v h)) h'"
  then have f: "result_at h' (length h) = \<lparr>Result.value' = None, error = Some v\<rparr>
      \<and> js_assign (length h) k x h' = (Inl TypeError, h')"
    by (intro frozen_result [OF refl]) (simp add: published_Err_object)
  then show "result_at h' (length h) = Result_Err v" by (simp add: Result_Err_def)
  then show "published_unwrap_err truthy printer (length h) h'
      = (Result_unwrap_err truthy printer (Result_Err v), h')"
    by (simp add: published_unwrap_err_refines)
  from f show "js_assign (length h) k x h' = (Inl TypeError, h')" by blast
next
  have "\<exists>r. Result_map truthy (\<lambda>u. Inr (g u)) (result_at h a) = Inr r"
    by (simp add: Result_map_def split: option.split)
  then obtain r where r: "Result_map truthy (\<lambda>u. Inr (g u)) (result_at h a) = Inr r" by blast
  with published_map_refines [of "\<lambda>u. returnA (g u)" h "\<lambda>u. Inr (g u)" h truthy a]
  have "published_map truthy (\<lambda>u. returnA (g u)) a h
      = (Inr (length h), h @ [plain_object [(''value'', Result.value' r), (''error'', Result.error r)]])"
    by (simp add: returnA_def)
  then show "\<exists>h'. published_map truthy (\<lambda>u. returnA (g u)) a h = (Inr (length h), h')
       \<and> Inr (result_at h' (length h)) = Result_map truthy (\<lambda>u. Inr (g u)) (result_at h a)
       \<and> (\<exists>h''. js_assign (length h) ''value'' x h' = (Inr (), h'')
           \<and> Result.value' (result_at h'' (length h)) = x)"
    by (simp add: r result_at_plain plain_result_assigned)
qed (simp_all add: published_Ok_object published_Err_object)

definition example_untyped_response :: jsval where
  "example_untyped_response = JObj [(js ''journals'', JArr [JObj [], JObj [(js ''spec'', JObj [])]])]"

lemma published_results_immutable_witness:
  "result_at (snd (js_assign 0 ''value'' (Some 7) (snd (published_Ok (5 :: nat) [])))) 0 = Result_Ok 5"
proof -
  have "heap_step\<^sup>*\<^sup>* (snd (published_Ok (5 :: nat) [])) (snd (js_assign 0 ''value'' (Some 7) (snd (published_Ok 5 []))))"
    by (intro r_into_rtranclp assigns)
  then show ?thesis
    using published_results_immutable [of "5 :: nat" "[]", THEN conjunct2, THEN conjunct2, THEN conjunct1,
        THEN spec, THEN mp] by auto
qed

text \<open>C33: A program that collects documents with the published package: when the messages of a stream
  carry the text of documents, \<open>readStreamToEnd\<close> on what \<open>parseJournalDocuments\<close> makes of them comes
  to all of them if they are truthy and the stream closes, and rejects or waits as the stream does if
  it fails or stays open. At a falsy document it comes to those before, and what is behind that
  document stays in the stream for ever: the reader keeps its lock, so that every later call is
  rejected with a \<open>TypeError\<close>.\<close>

theorem published_documents_read_once:
  assumes "list_all2 carries (chunks st) ps" and "concat ps = lines_of value_text docs @ rest"
    and "\<forall>d \<in> set docs. wf_json d" and "10 \<notin> set rest"
    and "published_readStreamToEnd js_truthy (unread_stream (published_parseJournalDocuments st)) = (p, w)"
  shows "p = (if \<forall>d \<in> set docs. js_truthy d
        then (case ending st of Open \<Rightarrow> Pending | Closed \<Rightarrow> Fulfilled docs | Errored e \<Rightarrow> Rejected e)
        else Fulfilled (takeWhile js_truthy docs))
    \<and> unread w = tl (dropWhile js_truthy docs)
    \<and> fst (published_readStreamToEnd js_truthy w) = Rejected TypeError"
proof -
  have "published_parseJournalDocuments st = \<lparr>chunks = docs, ending = ending st\<rparr>"
    using parseJournalDocuments_documents [OF assms(1-4)] by (simp add: published_parseJournalDocuments_same)
  then have stream: "unread_stream (published_parseJournalDocuments st)
      = \<lparr>unread = docs, stream_end = ending st, locked = False, read_results = []\<rparr>"
    by (simp add: unread_stream_def)
  have "p = readStreamToEnd js_truthy \<lparr>chunks = docs, ending = ending st\<rparr>" and "locked w"
    and "unread w = tl (dropWhile js_truthy docs)"
    using published_readStreamToEnd_free [of "unread_stream (published_parseJournalDocuments st)" js_truthy]
      assms(5) by (simp_all add: stream)
  then show ?thesis
    by (cases "ending st") (simp_all add: readStreamToEnd_values published_readStreamToEnd_locked)
qed

lemma published_documents_read_once_witness:
  "\<exists>w. published_readStreamToEnd js_truthy (unread_stream (published_parseJournalDocuments
       \<lparr>chunks = [example_message (js ''{}'' @ 10 # js ''null'' @ 10 # js ''true'' @ [10])], ending = Closed\<rparr>))
     = (Fulfilled [JObj []], w) \<and> unread w = [JBool True]
     \<and> fst (published_readStreamToEnd js_truthy w) = Rejected TypeError"
proof -
  let ?t = "js ''{}'' @ 10 # js ''null'' @ 10 # js ''true'' @ [10]"
  obtain p w where run: "published_readStreamToEnd js_truthy (unread_stream (published_parseJournalDocuments
      \<lparr>chunks = [example_message ?t], ending = Closed\<rparr>)) = (p, w)" by fastforce
  have "carries (example_message ?t) ?t"
    by (rule example_message_carries) (simp_all add: bom_free_def is_lead_unat is_trail_unat)
  then have carried: "list_all2 carries [example_message ?t] [?t]" by (simp del: js_Cons)
  have lines: "concat [?t] = lines_of value_text [JObj [], JNull, JBool True] @ []"
    by (simp add: lines_of_def value_text_def)
  show ?thesis
    using published_documents_read_once [of "\<lparr>chunks = [example_message ?t], ending = Closed\<rparr>" "[?t]"
        "[JObj [], JNull, JBool True]" "[]" p w] carried lines run by (simp del: js_Cons)
qed

text \<open>C34: The compiled clients refine those of the source while other code runs at every wait. It may do
  anything to the heap, also to the client itself, the selectors and the result of the fetch, with one
  exception: while an error object is on its way from \<open>ResponseError.fromResponse\<close> to the call, that
  object, which no other code has a reference to. Then each call comes to what the source's call
  comes to, pending, rejected, or fulfilled with a frozen object that holds the same value, or the same
  error in an object of its own.\<close>

theorem published_clients_agree:
  assumes "meanwhile others" and "client_at w this u token"
    and "argument_at w inc isel" and "argument_at w exc esel"
    and "valid_arguments isel esel (source_world w)"
  shows "same_result PItems
      (fst (JournalClient_list \<lparr>JournalClient.authToken = token, baseUrl = u\<rparr> isel esel net (source_world w)))
      (published_JournalClient_list others net this inc exc w)
    \<and> same_result PStream
      (fst (JournalClient_read \<lparr>JournalClient.authToken = token, baseUrl = u\<rparr> req net w))
      (published_JournalClient_read others net this req w)
    \<and> same_result PItems
      (fst (ShardClient_list \<lparr>ShardClient.authToken = token, baseUrl = u\<rparr> isel esel net (source_world w)))
      (published_ShardClient_list others net this inc exc w)
    \<and> same_result PJson
      (fst (ShardClient_stat \<lparr>ShardClient.authToken = token, baseUrl = u\<rparr> sid offsets net w))
      (published_ShardClient_stat others net this sid offsets w)"
  using published_lists_same [OF assms] published_read_same [OF assms(1,2)] published_stat_same [OF assms(1,2)]
  by blast

definition example_published_world :: published_world where
  "example_published_world = \<lparr>fetched = [], arrays = [],
     objects = [plain_object [(''authToken'', Some (PStr (js ''token''))),
       (''baseUrl'', Some (PUrl \<lparr>href = js ''http://localhost:8080/''\<rparr>))]]\<rparr>"

text \<open>Other code that makes a new object at every turn and takes the token from the client, which it knows.\<close>

definition example_others :: "published_world others" where
  "example_others unknown w = w\<lparr>objects :=
     (let h = snd (js_new (objects w)) in if 0 \<in> unknown then h else snd (js_assign 0 ''authToken'' None h))\<rparr>"

lemma example_others_meanwhile: "meanwhile example_others"
  unfolding meanwhile_def
proof (intro allI conjI ballI impI)
  fix unknown :: "addr set" and w :: published_world
  let ?h = "snd (js_new (objects w))"
  have "heap_step (objects w) ?h" and "heap_step ?h (snd (js_assign 0 ''authToken'' None ?h))"
    by (rule creates, rule assigns)
  then show "heap_step\<^sup>*\<^sup>* (objects w) (objects (example_others unknown w))"
    by (auto simp: example_others_def Let_def intro: converse_rtranclp_into_rtranclp)
  fix a assume a: "a \<in> unknown" "a < length (objects w)"
  have "snd (js_assign 0 k v h) ! a = h ! a" if "a \<noteq> 0" for k v and h :: "pval heap"
    using that by (auto simp: js_assign_def put_other split: option.split)
  moreover have "?h ! a = objects w ! a" using a(2) by (simp add: js_new_def nth_append)
  ultimately show "objects (example_others unknown w) ! a = objects w ! a"
    using a(1) by (cases "a = 0") (simp_all add: example_others_def Let_def)
qed

lemma published_clients_agree_witness:
  "fst (published_ShardClient_stat example_others (\<lambda>_ _. Rejected (HostError (js ''offline''))) 0
     (js ''anvils/0'') [] example_published_world) = Rejected TypeError"
proof -
  note others = example_others_meanwhile
  have client: "client_at example_published_world 0 \<lparr>href = js ''http://localhost:8080/''\<rparr> (js ''token'')"
    by (simp add: client_at_def example_published_world_def plain_field [of "[]", simplified] del: js_Cons)
  have args: "argument_at example_published_world None None"
    "valid_arguments None None (source_world example_published_world)"
    by (simp_all add: argument_at_def valid_arguments_def valid_argument_def)
  let ?self = "\<lparr>ShardClient.authToken = js ''token'', baseUrl = \<lparr>href = js ''http://localhost:8080/''\<rparr>\<rparr>"
  let ?net = "\<lambda>_ _. Rejected (HostError (js ''offline''))"
  have "fst (ShardClient_stat ?self (js ''anvils/0'') [] ?net example_published_world) = Rejected TypeError"
    by (rule shards_stat.network_failure [OF TrueI refl])
  moreover have "same_result PJson (fst (ShardClient_stat ?self (js ''anvils/0'') [] ?net example_published_world))
      (published_ShardClient_stat example_others ?net 0 (js ''anvils/0'') [] example_published_world)"
    using published_clients_agree [OF others client args(1) args(1) args(2), of ?net] by blast
  ultimately obtain q where "await q (\<lambda>r. Fulfilled (of_sum r)) = (Rejected TypeError :: (jsval, ResponseError) Result promise)"
    "comes_to PJson q (published_ShardClient_stat example_others ?net 0 (js ''anvils/0'') [] example_published_world)"
    by (auto simp: same_result_def)
  then show ?thesis
    by (cases q) (simp_all add: comes_to_def)
qed

text \<open>C35: The package gives a program that imports it the ES module and one that requires it the CommonJS
  module, and carries every field the build asks for. These two entry points export the same: the ES module declares what \<open>index.ts\<close> declares,
  and the CommonJS module, once loaded, has under every name what the ES module exports under it,
  the nine names and no other but its \<open>__esModule\<close> mark, with nothing left \<open>undefined\<close>; the
  modules exported whole must be ES modules, as the compiled ones are.\<close>

theorem entry_points_agree:
  fixes require :: "path \<Rightarrow> 'v loaded"
  assumes "\<And>p. p \<in> set star_paths \<Longrightarrow> es_module (require p)"
  shows "resolve_package [js ''import''] package_json = Some (js ''./esm/index.js'')
    \<and> resolve_package [js ''require''] package_json = Some (js ''./script/index.js'')
    \<and> list_all (\<lambda>(k, v). js_get package_json k = Inr v) package_fields
    \<and> esm_index = map compiled_decl source_index
    \<and> map fst (load_script require) = ''__esModule'' # map fst (module_exports esm_index :: 'v exports)
    \<and> (\<forall>n. n = ''__esModule'' \<or> read_export require (load_script require) n
          = read_export require (module_exports esm_index) n)
    \<and> (\<forall>n. read_export require (load_script require) n \<noteq> Some Undefined)"
proof -
  note script = script_exports [where require = require, OF assms]
  have "read_slot require sl \<noteq> Undefined" if "(n, sl) \<in> set (load_script require)" for n sl
    using that by (auto simp: script esm_exports)
  then have "read_export require (load_script require) n \<noteq> Some Undefined" for n
    by (auto simp: read_export_def dest: map_of_SomeD)
  then show ?thesis
    using package_as_configured package_entry_points
    by (simp add: esm_index_compiled [symmetric] script read_export_def)
qed

lemma entry_points_agree_witness:
  "read_export (\<lambda>_. \<lparr>es_module = True, keys = [], kind = \<lambda>_. Accessor, member = \<lambda>k. k\<rparr>)
     (load_script (\<lambda>_. \<lparr>es_module = True, keys = [], kind = \<lambda>_. Accessor, member = \<lambda>k. k\<rparr>)) ''Result''
   = Some (Member ''Result'')"
  using entry_points_agree [of "\<lambda>_. \<lparr>es_module = True, keys = [], kind = \<lambda>_. Accessor, member = \<lambda>k. k\<rparr>",
      THEN conjunct2, THEN conjunct2, THEN conjunct2, THEN conjunct2, THEN conjunct2, THEN conjunct1, THEN spec,
      of "''Result''"]
  by (simp add: esm_exports read_export_def)

text \<open>C36: Whatever modules of \<open>client/dist/script\<close> a program requires, in whatever order and however often,
  with room for four calls on the stack: every \<open>require\<close> succeeds; each body runs once, after those of
  the modules it requires; the exports objects hold exactly the declared exports and the \<open>__esModule\<close>
  mark, and a further \<open>require\<close> gives the same object and changes nothing. If the modules of the entry
  point are among them, each class or function it names is the one its module declares.\<close>

theorem commonjs_modules_link:
  assumes "set ps \<subseteq> set (map fst script_modules)" and "3 < d"
  shows "\<exists>s. require_all d ps empty_loader = (Inr (), s)
    \<and> evaluated_in_order {} (evaluated s) \<and> set ps \<subseteq> set (evaluated s)
    \<and> (\<forall>p \<in> set (evaluated s). load d p s = (Inr (exports_object s p), s)
        \<and> (\<forall>n. js_field (exports_heap s) (exports_object s p) n =
            (if n = ''__esModule'' then Some Es_flag
             else if n \<in> set (names_of p) then Some (Declared p n) else None)))
    \<and> (set index_paths \<subseteq> set ps \<longrightarrow>
        (\<forall>ns p n. Named ns p \<in> set esm_index \<and> n \<in> set ns \<longrightarrow>
          read_export (loaded_module s) (load_script (loaded_module s)) n = Some (Member (Some (Declared p n)))))"
proof -
  obtain s where s: "require_all d ps empty_loader = (Inr (), s)" "good {} s" "set ps \<subseteq> fst ` set (cache s)"
    using require_all_good [OF assms(2,1) good_empty] by blast
  then have ev: "set (evaluated s) = fst ` set (cache s)" "evaluated_in_order {} (evaluated s)"
    by (simp_all add: good_def)
  have field: "js_field (exports_heap s) (exports_object s p) n =
      (if n = ''__esModule'' then Some Es_flag
       else if n \<in> set (names_of p) then Some (Declared p n) else None)" if "p \<in> set (evaluated s)" for p n
    using exports_when_loaded(3) [OF s(2)] that ev(1) by simp
  have "read_export (loaded_module s) (load_script (loaded_module s)) n = Some (Member (Some (Declared p n)))"
    if "set index_paths \<subseteq> set ps" "Named ns p \<in> set esm_index" "n \<in> set ns" for ns p n
  proof -
    have loaded: "q \<in> set (evaluated s)" if "q \<in> set index_paths" for q
      using that \<open>set index_paths \<subseteq> set ps\<close> s(3) ev(1) by auto
    then have es: "es_module (loaded_module s q)" if "q \<in> set star_paths" for q
      using that index_star field by (auto simp: loaded_module_def Let_def)
    from script_exports [where require = "loaded_module s", OF es] named_exports [OF that(2,3)] loaded [of p] field [of p n] show ?thesis
      by (auto simp: read_export_def loaded_module_def Let_def)
  qed
  with s ev field show ?thesis
    using load_cached [of d s] exports_when_loaded(1) [OF s(2)] assms(2) by auto
qed

lemma commonjs_modules_link_witness:
  "\<exists>s. require_all 4 index_paths empty_loader = (Inr (), s)
    \<and> read_export (loaded_module s) (load_script (loaded_module s)) ''Result''
      = Some (Member (Some (Declared ''./result.js'' ''Result'')))"
proof -
  have "set index_paths \<subseteq> set (map fst script_modules)"
    by (auto simp: index_paths_def script_index_def script_modules_def)
  from commonjs_modules_link [OF this, of 4] obtain s where s: "require_all 4 index_paths empty_loader = (Inr (), s)"
    and exports: "\<forall>ns p n. Named ns p \<in> set esm_index \<and> n \<in> set ns \<longrightarrow>
      read_export (loaded_module s) (load_script (loaded_module s)) n = Some (Member (Some (Declared p n)))"
    by auto
  have "Named [''Result''] ''./result.js'' \<in> set esm_index"
    by (simp add: esm_index_def)
  with s exports [rule_format, of "[''Result'']" "''./result.js''" "''Result''"] show ?thesis by simp
qed

text \<open>C37: In a program that has required the modules of the entry point, the CommonJS clients do what the
  compiled clients of the ES modules do, while other code runs at every wait, as long as that code
  leaves the exports objects alone; the functions and methods that only callers use are the same,
  too. A program may also assign to them: a function put in the place of \<open>doFetch\<close> is what all four
  calls of the clients run from then on, with the URL, the token and the body that \<open>doFetch\<close> would get.\<close>

theorem script_clients_agree:
  assumes "require_all d ps empty_loader = (Inr (), modules w)" and "set index_paths \<subseteq> set ps"
    and "set ps \<subseteq> set (map fst script_modules)" and "3 < d" and "leaves_imports others others'"
  shows "agrees_with w (script_JournalClient_list F others net this inc exc)
      (published_JournalClient_list others' net this inc exc)
    \<and> agrees_with w (script_JournalClient_read F others net this req)
      (published_JournalClient_read others' net this req)
    \<and> agrees_with w (script_ShardClient_list F others net this inc exc)
      (published_ShardClient_list others' net this inc exc)
    \<and> agrees_with w (script_ShardClient_stat F others net this sid offsets)
      (published_ShardClient_stat others' net this sid offsets)
    \<and> script_parseJournalDocuments F st w = (Inr (parseJournalDocuments st), w)
    \<and> commonjs_err = published_err \<and> commonjs_map = published_map \<and> commonjs_map_err = published_map_err
    \<and> commonjs_readStreamToEnd = published_readStreamToEnd \<and> commonjs_trimUrl = trimUrl
    \<and> commonjs_collection = published_collection \<and> commonjs_name = published_name
    \<and> commonjs_prefix = published_prefix \<and> commonjs_task = published_task \<and> commonjs_id = published_id
    \<and> (client_at (page w) this u token \<and> argument_at (page w) inc isel \<and> argument_at (page w) exc esel
        \<and> valid_arguments isel esel (source_world (page w)) \<longrightarrow>
        (\<exists>w'. replace_export ''./util.js'' ''doFetch'' (Replacement k) w = (Inr (), w') \<and> page w' = page w
          \<and> (\<exists>v. fetched v = fetched (page w) \<and> script_JournalClient_list F others net this inc exc w' =
            awaitP (others {}) (f_fetch F (Replacement k) (URL_toString u @ js ''v1/journals/list'') token
              (selector_body isel esel (source_world (page w))))
              (script_answer F others journal_specs PItems) (w'\<lparr>page := v\<rparr>))
          \<and> script_JournalClient_read F others net this req w' =
            awaitP (others {}) (f_fetch F (Replacement k) (URL_toString u @ js ''v1/journals/read'') token
              (json_of_ProtocolReadRequest req)) (script_read_answer F others) w'
          \<and> (\<exists>v. fetched v = fetched (page w) \<and> script_ShardClient_list F others net this inc exc w' =
            awaitP (others {}) (f_fetch F (Replacement k) (URL_toString u @ js ''v1/shards/list'') token
              (selector_body isel esel (source_world (page w))))
              (script_answer F others shard_list PItems) (w'\<lparr>page := v\<rparr>))
          \<and> script_ShardClient_stat F others net this sid offsets w' =
            awaitP (others {}) (f_fetch F (Replacement k) (URL_toString u @ js ''v1/shards/stat'') token
              (JObj [(js ''shard'', JStr sid), (js ''readThrough'', json_string_map offsets)]))
              (script_answer F others Inr PJson) w'))"
proof -
  obtain s where "require_all d ps empty_loader = (Inr (), s)" "good {} s" "set ps \<subseteq> fst ` set (cache s)"
    using require_all_good [OF assms(4,3) good_empty] by blast
  with assms(1,2) have s: "good {} (modules w)" "set index_paths \<subseteq> fst ` set (cache (modules w))" by auto
  note linked = loaded_linked [OF s]
  obtain w' where w': "replace_export ''./util.js'' ''doFetch'' (Replacement k) w = (Inr (), w')" "page w' = page w"
    "imported ''./util.js'' ''doFetch'' w' = (Inr (Replacement k), w')" "imports_for_arguments w'"
    using replaced_doFetch [OF s] by blast
  then show ?thesis
    using script_clients_mimic [OF assms(5)] script_parseJournalDocuments_same [OF linked] linked
      replaced_fetch [OF w'(3)] replaced_lists [OF w'(3,4)]
    by (auto simp: mimics_agrees published_parseJournalDocuments_same commonjs_same published_trimUrl_same fun_eq_iff
        simp del: js_Cons)
qed

definition example_script_world :: script_world where
  "example_script_world =
     \<lparr>page = example_published_world, modules = snd (require_all 4 index_paths empty_loader)\<rparr>"

definition example_foreign :: foreign_code where
  "example_foreign =
     \<lparr>f_fetch = (\<lambda>c url token data. \<lambda>w. (Pending, w)), f_result = (\<lambda>c meth v. throwA TypeError),
      f_error = (\<lambda>c meth v. \<lambda>w. (Pending, w)), f_selector = (\<lambda>c. throwA TypeError), f_compare = (\<lambda>c a b. 0),
      f_split = (\<lambda>c by st. st), f_parse = (\<lambda>c st. \<lparr>chunks = [], ending = Open\<rparr>), f_unwrap = (\<lambda>c st. st),
      f_decode = (\<lambda>c st. \<lparr>chunks = [], ending = Open\<rparr>)\<rparr>"

lemma script_clients_agree_witness:
  "fst (script_ShardClient_stat example_foreign (\<lambda>K w. w) (\<lambda>_ _. Rejected (HostError (js ''offline''))) 0
      (js ''anvils/0'') [] example_script_world)
    = fst (published_ShardClient_stat (\<lambda>K w. w) (\<lambda>_ _. Rejected (HostError (js ''offline''))) 0
      (js ''anvils/0'') [] example_published_world)
   \<and> (\<exists>w. replace_export ''./util.js'' ''doFetch'' (Replacement 7) example_script_world = (Inr (), w)
      \<and> fst (script_JournalClient_list example_foreign (\<lambda>K w. w) (\<lambda>_ _. Rejected (HostError (js ''offline'')))
          0 None None w) = Pending)"
proof -
  let ?net = "\<lambda>_ _. Rejected (HostError (js ''offline''))"
  have paths: "set index_paths \<subseteq> set (map fst script_modules)"
    by (auto simp: index_paths_def script_index_def script_modules_def)
  have "fst (require_all 4 index_paths empty_loader) = Inr ()"
    using require_all_good [OF _ paths good_empty, of 4] by auto
  then have "require_all 4 index_paths empty_loader = (Inr (), modules example_script_world)"
    by (simp add: example_script_world_def prod_eq_iff)
  moreover have "leaves_imports (\<lambda>K w. w) (\<lambda>K w. w)"
    by (simp add: leaves_imports_def)
  moreover have "client_at (page example_script_world) 0 \<lparr>href = js ''http://localhost:8080/''\<rparr> (js ''token'')"
    by (simp add: client_at_def example_script_world_def example_published_world_def plain_field [of "[]", simplified]
        del: js_Cons)
  moreover have "argument_at v None None" "valid_arguments None None v'" for v v'
    by (simp_all add: argument_at_def valid_arguments_def valid_argument_def)
  moreover have "awaitP f (f_fetch example_foreign c url token data) g v = (Pending, v)"
    for f c url token data and g :: "addr \<Rightarrow> (script_world, addr) async" and v
    by (simp add: awaitP_def example_foreign_def)
  ultimately have "agrees_with example_script_world
      (script_ShardClient_stat example_foreign (\<lambda>K w. w) ?net 0 (js ''anvils/0'') [])
      (published_ShardClient_stat (\<lambda>K w. w) ?net 0 (js ''anvils/0'') [])
    \<and> (\<exists>w. replace_export ''./util.js'' ''doFetch'' (Replacement 7) example_script_world = (Inr (), w)
      \<and> fst (script_JournalClient_list example_foreign (\<lambda>K w. w) ?net 0 None None w) = Pending)"
    using script_clients_agree [where d = 4 and ps = index_paths and w = example_script_world and k = 7
        and F = example_foreign and others = "\<lambda>K w. w" and others' = "\<lambda>K w. w" and net = ?net and this = 0
        and inc = None and exc = None and isel = None and esel = None and sid = "js ''anvils/0''" and offsets = "[]"
        and u = "\<lparr>href = js ''http://localhost:8080/''\<rparr>" and token = "js ''token''"] paths
    by (fastforce simp del: js_Cons)
  then show ?thesis
    by (simp add: agrees_with_def example_script_world_def)
qed

text \<open>\<open>trimUrl\<close> removes one slash from the end of a URL that has one there, and nothing else.\<close>

lemma trimUrl_drops_one_slash:
  "href u = (if js_endsWith (href u) (js ''/'') then trimUrl u @ js ''/'' else trimUrl u)"
proof (cases "js_endsWith (href u) (js ''/'')")
  case True
  then obtain t where "href u = t @ js ''/''" by (auto simp: js_endsWith_def suffix_def)
  then show ?thesis using trimUrl_slash [of t] True by (cases u) simp
next
  case False
  then show ?thesis using trimUrl_none [of "href u"] by (cases u) simp
qed

section \<open>The gateway\<close>

definition example_calls :: "((string \<times> string) list \<times> append_claims option, (string \<times> string) list, append_claims) calls"
  where
  "example_calls =
     \<lparr>FromIncomingContext = fst,
      md_Get = (\<lambda>md k. map snd (filter (\<lambda>p. fst p = k) md)),
      AppendToOutgoingContext = (\<lambda>ctx k v. (fst ctx @ [(k, v)], snd ctx)),
      WithDispatchDefault = (\<lambda>ctx. ctx),
      WithClaims = (\<lambda>ctx c. (fst ctx, Some c))\<rparr>"

text \<open>C38: What \<open>JournalProxy.Read\<close> sends to the caller is, at every moment, a prefix of what the
  broker sent; when it returns without an error it has sent everything the broker sent. A read the
  broker refuses sends nothing and returns the refusal.\<close>

theorem proxy_read_forwards:
  "case jc_Read (WithDispatchDefault lib ctx) req of
     Inl err \<Rightarrow> JournalProxy_Read lib jc_Read req ctx sends = ([], Returned (Some err))
   | Inr rs \<Rightarrow> prefix (fst (JournalProxy_Read lib jc_Read req ctx sends)) (messages rs)
       \<and> (snd (JournalProxy_Read lib jc_Read req ctx sends) = Returned None \<longrightarrow>
           fst (JournalProxy_Read lib jc_Read req ctx sends) = messages rs)"
  using proxy_loop_prefix [of _ sends "[]"] proxy_loop_nil [of _ sends "[]"]
  by (auto simp: JournalProxy_Read_def split: sum.split)

lemma proxy_read_forwards_witness:
  "fst (JournalProxy_Read example_calls (\<lambda>_ (_ :: unit). Inr [Message ''a'', Message ''b'', RecvError EOF]) ()
     ([], None) [None, None]) = [''a'', ''b'']"
  using proxy_read_forwards [where jc_Read = "\<lambda>_ _. Inr [Message ''a'', Message ''b'', RecvError EOF]" and
      lib = example_calls and ctx = "([], None)" and req = "()" and sends = "[None, None]"]
  by (simp add: JournalProxy_Read_def)

text \<open>C39: \<open>JournalProxy.Append\<close> opens the append with claims for the journal of the caller's first
  request only, forwards the caller's requests in order, and replies to the caller only after it
  has forwarded all of them.\<close>

theorem proxy_append_forwards:
  assumes "jc_Append (WithDispatchDefault lib (WithClaims lib ctx
      \<lparr>claims_capability = ''APPEND'', claims_name = journal_of first\<rparr>)) = Inr (ss, closing)"
    and "JournalProxy_Append lib journal_of jc_Append ctx (Message first # rs) reply_error = (sent, replies, h)"
  shows "prefix sent (first # messages rs)
    \<and> (replies \<noteq> [] \<or> h = Returned None \<longrightarrow>
      sent = first # messages rs \<and> (\<exists>resp. closing = Message resp \<and> replies = [resp]) \<and> h = Returned None)"
proof (rule conjI)
  obtain ms o' where l: "append_loop first rs ss [] = (ms, o')" by fastforce
  have run: "JournalProxy_Append lib journal_of jc_Append ctx (Message first # rs) reply_error =
      (case o' of Some h \<Rightarrow> (ms, [], h)
        | None \<Rightarrow> (case closing of RecvError err \<Rightarrow> (ms, [], Returned (Some err))
            | Message resp \<Rightarrow> (ms, if reply_error = None then [resp] else [], Returned reply_error)))"
    by (simp add: JournalProxy_Append_def assms(1) l Let_def split: option.split received.split)
  have sent: "sent = ms"
    using assms(2) run by (auto split: option.splits received.splits if_splits)
  then show "prefix sent (first # messages rs)"
    using append_loop_prefix [of first rs ss "[]"] l by auto
  show "replies \<noteq> [] \<or> h = Returned None \<longrightarrow>
      sent = first # messages rs \<and> (\<exists>resp. closing = Message resp \<and> replies = [resp]) \<and> h = Returned None"
  proof
    assume reply: "replies \<noteq> [] \<or> h = Returned None"
    have "o' \<noteq> Some (Returned None)"
      using append_loop_not_nil [of first rs ss "[]"] l by simp
    with reply have "o' = None"
      using assms(2) run by (auto split: option.splits received.splits if_splits)
    then show "sent = first # messages rs \<and> (\<exists>resp. closing = Message resp \<and> replies = [resp]) \<and> h = Returned None"
      using append_loop_break [of first rs ss "[]"] l sent reply assms(2) run
      by (auto split: received.splits if_splits)
  qed
qed

definition example_append :: "string list \<times> unit list \<times> handler" where
  "example_append = JournalProxy_Append example_calls (\<lambda>_. ''j'')
     (\<lambda>ctx. if snd ctx = Some \<lparr>claims_capability = ''APPEND'', claims_name = ''j''\<rparr>
       then Inr ([None, None], Message ()) else Inl (Failure ''denied''))
     ([], None) [Message ''a'', Message ''b'', RecvError EOF] None"

lemma example_append_returns: "example_append = ([''a'', ''b''], [()], Returned None)"
  by (simp add: example_append_def JournalProxy_Append_def example_calls_def)

lemma proxy_append_forwards_witness:
  "fst example_append = ''a'' # messages [Message ''b'', RecvError EOF]"
  using proxy_append_forwards [OF _ example_append_returns [unfolded example_append_def]]
  by (simp add: example_append_returns example_calls_def)

text \<open>The authorizer refuses a call without an authorization header, and otherwise passes on its
  first token and no other.\<close>

lemma authorize_passes_first_token:
  "(case Authorize lib ctx of
      Inl e \<Rightarrow> md_Get lib (FromIncomingContext lib ctx) ''authorization'' = []
        \<and> e = Failure ''missing required Authorization header''
    | Inr ctx' \<Rightarrow> (\<exists>token others. md_Get lib (FromIncomingContext lib ctx) ''authorization'' = token # others
        \<and> ctx' = AppendToOutgoingContext lib ctx ''authorization'' token))"
  by (cases "md_Get lib (FromIncomingContext lib ctx) ''authorization''") (simp_all add: Authorize_def Let_def)

text \<open>C40: The gateway process never ends well: it ends only with an error, and only after one of its tasks has failed and a signal
  has arrived. The signal alone ends nothing: as long as no task has failed, the context of the tasks
  is not cancelled and all servers keep running, although the handler logs that it exits. When
  all other tasks have returned, the process waits for a signal. This takes of the libraries that a
  task that returns \<open>nil\<close> does not cancel the group, that \<open>Wait\<close> reports an error of a task, that \<open>Must\<close> stops for every
  error, and that servers return without an error only after their context was cancelled.\<close>

theorem gateway_ends_in_failure:
  assumes "start_up (stops lib) calls cert = Inr ts" and "documented lib" and "process_reachable lib ts s"
  shows "(\<not> failed s \<longrightarrow> \<not> done_ctx s \<and> Execute_end lib s = None \<and>
      (\<forall>i < length ts. ts ! i \<noteq> ''handle-signal'' \<longrightarrow> tasks s ! i = (ts ! i, Running)))
    \<and> (\<forall>r. Execute_end lib s = Some r \<longrightarrow>
        r = Inl ''data-plane-gateway task failed'' \<and> failed s \<and> 0 < signals s)
    \<and> (\<forall>s'. process_step lib s s' \<and> \<not> pending_signal s \<and>
        (\<forall>i < length (tasks s). fst (tasks s ! i) \<noteq> ''handle-signal'' \<longrightarrow> snd (tasks s ! i) \<noteq> Running) \<longrightarrow>
        s' = s\<lparr>pending_signal := True, signals := signals s + 1\<rparr>)"
proof -
  have inv: "process_inv ts s" by (rule process_reachable_inv [OF assms(2,3)])
  have ts: "''handle-signal'' \<in> set ts" "''network-proxy-frontend'' \<in> set ts"
    using start_up_tasks [OF assms(1)] by auto
  have ends: "r = Inl ''data-plane-gateway task failed'' \<and> failed s \<and> 0 < signals s"
    if "Execute_end lib s = Some r" for r
    by (rule end_is_failure [OF assms(2) inv that ts]) simp
  then have "Execute_end lib s = None" if "\<not> failed s"
    using that by (cases "Execute_end lib s") simp_all
  with runs_until_failure [OF inv]
  have "\<not> failed s \<longrightarrow> \<not> done_ctx s \<and> Execute_end lib s = None \<and>
      (\<forall>i < length ts. ts ! i \<noteq> ''handle-signal'' \<longrightarrow> tasks s ! i = (ts ! i, Running))"
    by simp
  then show ?thesis
    by (intro conjI allI impI ends waits_for_signal [of lib s]) simp_all
qed

definition example_task_library :: task_library where
  "example_task_library =
     \<lparr>cancels = (\<lambda>r. r \<noteq> None),
      Wait = (\<lambda>rs. case find (\<lambda>r. r \<noteq> None) rs of None \<Rightarrow> None | Some r \<Rightarrow> r),
      stops = (\<lambda>err. err \<noteq> None), returns = (\<lambda>n cancelled r. cancelled \<or> r \<noteq> None)\<rparr>"

definition example_startup :: startup_calls where
  "example_startup = \<lparr>NewKeyedAuth = None, BuildTLSConfig = None, server_New = None, MustDial_broker = None,
     MustDial_consumer = None, NewFrontend = None, server_tasks = [''server'']\<rparr>"

text \<open>A signal arrives and is handled: the servers still run.\<close>

lemma gateway_ends_in_failure_witness:
  "Execute_end example_task_library
     \<lparr>tasks = [(''server'', Running), (''network-proxy-frontend'', Running), (''handle-signal'', Finished None)],
      done_ctx = False, pending_signal = False, signals = 1\<rparr> = None"
proof -
  let ?ts = "[''server'', ''network-proxy-frontend'', ''handle-signal'']"
  let ?s0 = "GoRun ?ts"
  let ?s1 = "?s0\<lparr>pending_signal := True, signals := signals ?s0 + 1\<rparr>"
  let ?s2 = "(finish_task example_task_library 2 None ?s1)\<lparr>pending_signal := False\<rparr>"
  have lib: "documented example_task_library"
    by (auto simp: documented_def example_task_library_def find_None_iff find_Some_iff split: option.splits)
  have "process_step example_task_library ?s1 ?s2"
    by (rule handle_signal) (simp_all add: GoRun_def)
  then have "process_reachable example_task_library ?ts ?s2"
    by (rule process_reachable.continued [OF process_reachable.continued [OF process_reachable.started signal_arrives]])
  from gateway_ends_in_failure [OF _ lib this, of example_startup "[]"] show ?thesis
    by (simp add: start_up_def bind_startup_def example_startup_def Must_def dial_def failed_def finish_task_def
        GoRun_def example_task_library_def)
qed

end
